(* ===== verification/Prelude.thy ===== *)
theory Prelude
  imports Main "HOL-Library.Word" "HOL-Library.Char_ord" "HOL-Library.List_Lexorder"
    "HOL-Library.Sublist"
begin

text \<open>
  Shared vocabulary of the development: the result type of fallible code, the integer
  widths, the text model, the SQL data-manipulation primitives over a table held as a list
  of rows, and the list lemmas the components share.

  Text. A \<open>string\<close> is a list of Unicode code points below U+0100 (one \<open>char\<close> each), so
  \<open>length\<close> counts characters as PostgreSQL's \<open>length(text)\<close> and Rust's \<open>chars()\<close> do, and
  \<open>utf8_len\<close> counts the bytes of the UTF-8 encoding. Code points from U+0100 on are outside
  the model.
\<close>

named_theorems row_simps \<open>row-level equations of the SQL operations\<close>
named_theorems inv_intros \<open>preservation of the invariants\<close>

section \<open>Results\<close>

definition rbind :: "'e + 'a \<Rightarrow> ('a \<Rightarrow> 'e + 'b) \<Rightarrow> 'e + 'b" where
  "rbind r f = (case r of Inl e \<Rightarrow> Inl e | Inr x \<Rightarrow> f x)"

lemma rbind_simps [simp]:
  "rbind (Inl e) f = Inl e"
  "rbind (Inr x) f = f x"
  by (simp_all add: rbind_def)

lemma rbind_eq_Inr [simp]: "rbind r f = Inr y \<longleftrightarrow> (\<exists>x. r = Inr x \<and> f x = Inr y)"
  by (cases r) auto

lemma rbind_split:
  "P (rbind r f) = ((\<forall>e. r = Inl e \<longrightarrow> P (Inl e)) \<and> (\<forall>x. r = Inr x \<longrightarrow> P (f x)))"
  by (cases r) auto

text \<open>A row-wise fallible computation: the first error aborts the whole statement.\<close>

fun map_res :: "('a \<Rightarrow> 'e + 'b) \<Rightarrow> 'a list \<Rightarrow> 'e + 'b list" where
  "map_res f [] = Inr []"
| "map_res f (x # xs) = rbind (f x) (\<lambda>y. rbind (map_res f xs) (\<lambda>ys. Inr (y # ys)))"

lemma map_res_total: "(\<And>x. x \<in> set xs \<Longrightarrow> f x = Inr (g x)) \<Longrightarrow> map_res f xs = Inr (map g xs)"
  by (induction xs) auto

lemma map_res_Inr: "map_res f xs = Inr ys \<Longrightarrow> list_all2 (\<lambda>x y. f x = Inr y) xs ys"
  by (induction xs arbitrary: ys) auto

section \<open>Integers\<close>

definition in_int4 :: "int \<Rightarrow> bool" where
  "in_int4 z \<longleftrightarrow> - (2 ^ 31) \<le> z \<and> z < 2 ^ 31"

definition in_i64 :: "int \<Rightarrow> bool" where
  "in_i64 z \<longleftrightarrow> - (2 ^ 63) \<le> z \<and> z < 2 ^ 63"

text \<open>Rust's \<open>v as i32\<close>: the low 32 bits read as two's complement.\<close>

definition as_i32 :: "int \<Rightarrow> int" where
  "as_i32 v = sint (word_of_int v :: 32 word)"

lemma as_i32_in_int4: "in_int4 (as_i32 v)"
proof -
  have "- (2 ^ (LENGTH(32) - 1)) \<le> sint (word_of_int v :: 32 word)"
    by (rule sint_ge)
  moreover have "sint (word_of_int v :: 32 word) < 2 ^ (LENGTH(32) - 1)"
    by (rule sint_lt)
  ultimately show ?thesis by (simp add: in_int4_def as_i32_def)
qed

lemma as_i32_id: "in_int4 v \<Longrightarrow> as_i32 v = v"
  by (simp add: as_i32_def in_int4_def sint_sbintrunc' signed_take_bit_int_eq_self)

lemma as_i32_cong: "as_i32 v mod 2 ^ 32 = v mod 2 ^ 32"
proof -
  have "take_bit 32 (as_i32 v) = take_bit 32 v"
    by (simp add: as_i32_def sint_sbintrunc' take_bit_signed_take_bit)
  then show ?thesis by (simp add: take_bit_eq_mod)
qed

lemma as_i32_eq_iff: "as_i32 v = v \<longleftrightarrow> in_int4 v"
  using as_i32_id as_i32_in_int4 by metis

section \<open>Text\<close>

definition char_code :: "char \<Rightarrow> nat" where
  "char_code c = of_char c"

definition is_ascii :: "char \<Rightarrow> bool" where
  "is_ascii c \<longleftrightarrow> char_code c < 128"

definition utf8_len :: "string \<Rightarrow> nat" where
  "utf8_len s = sum_list (map (\<lambda>c. if is_ascii c then 1 else 2) s)"

lemma utf8_len_simps [simp]:
  "utf8_len [] = 0"
  "utf8_len (c # s) = (if is_ascii c then 1 else 2) + utf8_len s"
  "utf8_len (s @ t) = utf8_len s + utf8_len t"
  by (simp_all add: utf8_len_def)

lemma utf8_len_ascii: "list_all is_ascii s \<Longrightarrow> utf8_len s = length s"
  by (induction s) auto

lemma length_le_utf8_len: "length s \<le> utf8_len s"
  by (induction s) auto

lemma utf8_len_le: "utf8_len s \<le> 2 * length s"
  by (induction s) auto

definition is_digit :: "char \<Rightarrow> bool" where
  "is_digit c \<longleftrightarrow> 48 \<le> char_code c \<and> char_code c \<le> 57"

definition digit_char :: "nat \<Rightarrow> char" where
  "digit_char n = ''0123456789abcdef'' ! n"

definition digit_val :: "char \<Rightarrow> nat" where
  "digit_val c =
     (if is_digit c then char_code c - 48
      else if 97 \<le> char_code c \<and> char_code c \<le> 102 then char_code c - 87
      else if 65 \<le> char_code c \<and> char_code c \<le> 70 then char_code c - 55
      else 99)"

lemma less_16_cases:
  fixes n :: nat
  assumes "n < 16"
  obtains "n = 0" | "n = 1" | "n = 2" | "n = 3" | "n = 4" | "n = 5" | "n = 6" | "n = 7"
    | "n = 8" | "n = 9" | "n = 10" | "n = 11" | "n = 12" | "n = 13" | "n = 14" | "n = 15"
proof -
  have "n \<in> {..<16}" using assms by simp
  then have "n \<in> {0, 1, 2, 3, 4, 5, 6, 7, 8, 9, 10, 11, 12, 13, 14, 15}"
    by (auto simp: lessThan_nat_numeral)
  then show ?thesis using that by blast
qed

lemma digit_val_digit_char [simp]: "n < 16 \<Longrightarrow> digit_val (digit_char n) = n"
  by (erule less_16_cases)
    (simp_all add: digit_char_def digit_val_def is_digit_def char_code_def)

lemma is_digit_digit_char: "n < 10 \<Longrightarrow> is_digit (digit_char n)"
  by (rule less_16_cases [of n])
    (simp_all add: digit_char_def digit_val_def is_digit_def char_code_def)

lemma is_ascii_digit_char: "n < 16 \<Longrightarrow> is_ascii (digit_char n)"
  by (erule less_16_cases)
    (simp_all add: digit_char_def is_ascii_def char_code_def)

text \<open>Decimal text of an integer, as \<open>i64::to_string\<close> and PostgreSQL's numeric output write it.\<close>

fun show_nat :: "nat \<Rightarrow> string" where
  "show_nat n = (if n < 10 then [digit_char n] else show_nat (n div 10) @ [digit_char (n mod 10)])"

declare show_nat.simps [simp del]

definition show_int :: "int \<Rightarrow> string" where
  "show_int z = (if z < 0 then CHR ''-'' # show_nat (nat (- z)) else show_nat (nat z))"

lemma show_nat_nonempty [simp]: "show_nat n \<noteq> []"
  by (subst show_nat.simps) simp

lemma show_nat_digits: "list_all is_digit (show_nat n)"
proof (induction n rule: show_nat.induct)
  case (1 n)
  show ?case
    by (cases "n < 10") (use 1 in \<open>simp_all add: show_nat.simps [of n] is_digit_digit_char\<close>)
qed

definition dec_val :: "string \<Rightarrow> nat" where
  "dec_val s = foldl (\<lambda>a c. 10 * a + digit_val c) 0 s"

lemma dec_val_simps [simp]:
  "dec_val [] = 0"
  "dec_val (s @ [c]) = 10 * dec_val s + digit_val c"
  by (simp_all add: dec_val_def)

lemma dec_val_show_nat [simp]: "dec_val (show_nat n) = n"
proof (induction n rule: show_nat.induct)
  case (1 n)
  show ?case
  proof (cases "n < 10")
    case True
    then show ?thesis by (simp add: show_nat.simps [of n] dec_val_def)
  next
    case False
    with 1 show ?thesis by (simp add: show_nat.simps [of n])
  qed
qed

section \<open>SQL data manipulation over a table\<close>

text \<open>
  A table is a list of rows; the order of the list is the storage order, which SQL leaves
  unspecified. \<open>UPDATE t SET .. WHERE p\<close> rewrites the rows that satisfy \<open>p\<close>, and its row
  count is \<open>sql_count\<close>; \<open>SELECT * INTO\<close> takes the first row or reports that none was found.
\<close>

definition sql_update :: "('r \<Rightarrow> bool) \<Rightarrow> ('r \<Rightarrow> 'r) \<Rightarrow> 'r list \<Rightarrow> 'r list" where
  "sql_update p f rows = map (\<lambda>r. if p r then f r else r) rows"

definition sql_update_res :: "('r \<Rightarrow> bool) \<Rightarrow> ('r \<Rightarrow> 'e + 'r) \<Rightarrow> 'r list \<Rightarrow> 'e + 'r list" where
  "sql_update_res p f rows = map_res (\<lambda>r. if p r then f r else Inr r) rows"

definition sql_delete :: "('r \<Rightarrow> bool) \<Rightarrow> 'r list \<Rightarrow> 'r list" where
  "sql_delete p rows = filter (\<lambda>r. \<not> p r) rows"

definition sql_count :: "('r \<Rightarrow> bool) \<Rightarrow> 'r list \<Rightarrow> nat" where
  "sql_count p rows = length (filter p rows)"

lemma set_sql_update: "set (sql_update p f rows) = (\<lambda>r. if p r then f r else r) ` set rows"
  by (simp add: sql_update_def)

lemma map_key_sql_update:
  "(\<And>r. r \<in> set rows \<Longrightarrow> p r \<Longrightarrow> k (f r) = k r) \<Longrightarrow> map k (sql_update p f rows) = map k rows"
  by (auto simp: sql_update_def)

lemma set_sql_delete [simp]: "set (sql_delete p rows) = {r \<in> set rows. \<not> p r}"
  by (auto simp: sql_delete_def)

lemma distinct_map_sql_delete: "distinct (map k rows) \<Longrightarrow> distinct (map k (sql_delete p rows))"
  by (simp add: sql_delete_def distinct_map_filter)

lemma sql_count_pos: "0 < sql_count p rows \<longleftrightarrow> (\<exists>r \<in> set rows. p r)"
  by (auto simp: sql_count_def filter_empty_conv)

lemma sql_update_id: "(\<And>r. r \<in> set rows \<Longrightarrow> \<not> p r) \<Longrightarrow> sql_update p f rows = rows"
  by (simp add: sql_update_def map_idI)

lemma sql_update_res_total:
  "(\<And>r. r \<in> set rows \<Longrightarrow> p r \<Longrightarrow> f r = Inr (g r)) \<Longrightarrow>
   sql_update_res p f rows = Inr (sql_update p g rows)"
  by (auto simp: sql_update_res_def sql_update_def intro: map_res_total)

lemma find_key_unique:
  assumes "distinct (map k rows)" "r \<in> set rows"
  shows "find (\<lambda>x. k x = k r) rows = Some r"
  using assms by (induction rows) (auto simp: image_iff)

lemma key_unique: "distinct (map k rows) \<Longrightarrow> r \<in> set rows \<Longrightarrow> s \<in> set rows \<Longrightarrow> k r = k s \<Longrightarrow> r = s"
  by (auto simp: distinct_map dest: inj_onD)

section \<open>The first rows of an ordered selection\<close>

lemma take_sorted_least:
  assumes "sorted (map k xs)" "a \<in> set (take n xs)" "b \<in> set (drop n xs)"
  shows "k a \<le> k b"
proof -
  have "sorted (map k (take n xs) @ map k (drop n xs))"
    using assms(1) by (simp flip: map_append)
  then show ?thesis using assms(2,3) by (auto simp: sorted_append)
qed

lemma take_sort_key_least:
  assumes "a \<in> set (take n (sort_key k xs))" "b \<in> set xs" "b \<notin> set (take n (sort_key k xs))"
  shows "k a \<le> k b"
proof (rule take_sorted_least [OF _ assms(1)])
  show "sorted (map k (sort_key k xs))" by simp
  have "set (take n (sort_key k xs)) \<union> set (drop n (sort_key k xs)) = set xs"
    by (metis append_take_drop_id set_append set_sort)
  then show "b \<in> set (drop n (sort_key k xs))" using assms(2,3) by blast
qed

end
