(* ===== verification/Json.thy ===== *)
theory Json
  imports Prelude "HOL-Library.Product_Lexorder"
begin

text \<open>
  JSON values as the two sides of the program see them: \<open>serde_json::Value\<close> (the options of
  \<open>boss.create_queue\<close> in src/src/lib.rs and the AST of the test DSL in src/dsltest/src/ast.rs)
  and \<open>jsonb\<close> (the options and payloads of the functions in src/src/schema.rs).

  A number is a decimal with an explicit scale, \<open>JNum m s\<close> for \<open>m * 10 ^ (- s)\<close>, as jsonb
  stores it; \<open>JNum m 0\<close> is an integer literal. An object is an association list with strictly
  increasing keys, which is what \<open>serde_json::Map\<close> (a \<open>BTreeMap\<close>) holds; \<open>obj_insert\<close> keeps
  the order and replaces an existing key.
\<close>

datatype json =
    JNull
  | JBool bool
  | JNum int nat
  | JStr string
  | JArr "json list"
  | JObj "(string \<times> json) list"

section \<open>Objects\<close>

fun obj_insert :: "string \<Rightarrow> json \<Rightarrow> (string \<times> json) list \<Rightarrow> (string \<times> json) list" where
  "obj_insert k v [] = [(k, v)]"
| "obj_insert k v ((k', v') # m) =
     (if k = k' then (k, v) # m
      else if k < k' then (k, v) # (k', v') # m
      else (k', v') # obj_insert k v m)"

definition obj_wf :: "(string \<times> json) list \<Rightarrow> bool" where
  "obj_wf m \<longleftrightarrow> sorted_wrt (<) (map fst m)"

lemma obj_wf_simps [simp]:
  "obj_wf []"
  "obj_wf ((k, v) # m) \<longleftrightarrow> (\<forall>k' \<in> fst ` set m. k < k') \<and> obj_wf m"
  by (auto simp: obj_wf_def)

lemma fst_set_obj_insert: "fst ` set (obj_insert k v m) = insert k (fst ` set m)"
  by (induction k v m rule: obj_insert.induct) auto

lemma obj_wf_insert: "obj_wf m \<Longrightarrow> obj_wf (obj_insert k v m)"
proof (induction k v m rule: obj_insert.induct)
  case (2 k v k' v' m)
  then show ?case
    by (auto simp: fst_set_obj_insert dest: less_trans)
qed simp

text \<open>\<open>Value::get(key)\<close>: the member of an object, nothing for any other value.\<close>

fun json_get :: "json \<Rightarrow> string \<Rightarrow> json option" where
  "json_get (JObj m) k = map_of m k"
| "json_get _ k = None"

lemma json_get_insert: "map_of (obj_insert k v m) k' = (if k' = k then Some v else map_of m k')"
  by (induction k v m rule: obj_insert.induct) auto

text \<open>\<open>Value::as_i64\<close>: integer numbers in the range of \<open>i64\<close> only.\<close>

fun as_i64 :: "json \<Rightarrow> int option" where
  "as_i64 (JNum m 0) = (if in_i64 m then Some m else None)"
| "as_i64 _ = None"

section \<open>Text of a jsonb value\<close>

definition hex2 :: "nat \<Rightarrow> string" where
  "hex2 n = [digit_char (n div 16), digit_char (n mod 16)]"

definition jsonb_escape_char :: "char \<Rightarrow> string" where
  "jsonb_escape_char c =
     (if c = CHR 0x22 then [CHR 0x5C, CHR 0x22]
      else if c = CHR 0x5C then [CHR 0x5C, CHR 0x5C]
      else if c = CHR 0x08 then [CHR 0x5C, CHR ''b'']
      else if c = CHR 0x0C then [CHR 0x5C, CHR ''f'']
      else if c = CHR 0x0A then [CHR 0x5C, CHR ''n'']
      else if c = CHR 0x0D then [CHR 0x5C, CHR ''r'']
      else if c = CHR 0x09 then [CHR 0x5C, CHR ''t'']
      else if char_code c < 32 then [CHR 0x5C] @ ''u00'' @ hex2 (char_code c)
      else [c])"

definition jsonb_quote :: "string \<Rightarrow> string" where
  "jsonb_quote s = [CHR 0x22] @ concat (map jsonb_escape_char s) @ [CHR 0x22]"

definition numeric_out :: "int \<Rightarrow> nat \<Rightarrow> string" where
  "numeric_out m s =
     (if s = 0 then show_int m
      else let ds = show_nat (nat \<bar>m\<bar>); ps = replicate (Suc s - length ds) CHR ''0'' @ ds
           in (if m < 0 then ''-'' else '''') @ take (length ps - s) ps @ ''.'' @ drop (length ps - s) ps)"

definition comma_sep :: "string list \<Rightarrow> string" where
  "comma_sep xs = (case xs of [] \<Rightarrow> [] | y # ys \<Rightarrow> y @ concat (map (\<lambda>s. '', '' @ s) ys))"

text \<open>jsonb prints the members of an object by length of the key first, then by its bytes.\<close>

fun jsonb_out :: "json \<Rightarrow> string"
  and jsonb_elems :: "json list \<Rightarrow> string list"
  and jsonb_fields :: "(string \<times> json) list \<Rightarrow> (string \<times> string) list" where
  "jsonb_out JNull = ''null''"
| "jsonb_out (JBool b) = (if b then ''true'' else ''false'')"
| "jsonb_out (JNum m s) = numeric_out m s"
| "jsonb_out (JStr s) = jsonb_quote s"
| "jsonb_out (JArr xs) = ''['' @ comma_sep (jsonb_elems xs) @ '']''"
| "jsonb_out (JObj m) =
     ''{'' @ comma_sep (map (\<lambda>(k, t). jsonb_quote k @ '': '' @ t)
               (sort_key (\<lambda>(k, t). (utf8_len k, k)) (jsonb_fields m))) @ ''}''"
| "jsonb_elems [] = []"
| "jsonb_elems (x # xs) = jsonb_out x # jsonb_elems xs"
| "jsonb_fields [] = []"
| "jsonb_fields ((k, v) # m) = (k, jsonb_out v) # jsonb_fields m"

text \<open>
  \<open>v ->> key\<close>: the member as text; SQL NULL when \<open>v\<close> is NULL or no object, when the key is
  missing, and when the member is JSON null. A string member is its own text.
\<close>

definition json_text :: "json \<Rightarrow> string option" where
  "json_text v = (case v of JNull \<Rightarrow> None | JStr s \<Rightarrow> Some s | _ \<Rightarrow> Some (jsonb_out v))"

definition arrow_text :: "json option \<Rightarrow> string \<Rightarrow> string option" where
  "arrow_text v k = Option.bind v (\<lambda>j. Option.bind (json_get j k) json_text)"

lemma arrow_text_simps [simp]:
  "arrow_text None k = None"
  "arrow_text (Some j) k = Option.bind (json_get j k) json_text"
  by (simp_all add: arrow_text_def)

lemma json_text_simps [simp]:
  "json_text JNull = None"
  "json_text (JStr s) = Some s"
  "json_text (JNum m 0) = Some (show_int m)"
  by (simp_all add: json_text_def numeric_out_def)

text \<open>
  \<open>a || b\<close>: two objects merge, the right one winning; otherwise an operand that is no array
  counts as an array of one element and the arrays are concatenated.
\<close>

definition as_elems :: "json \<Rightarrow> json list" where
  "as_elems v = (case v of JArr xs \<Rightarrow> xs | _ \<Rightarrow> [v])"

definition jsonb_concat :: "json \<Rightarrow> json \<Rightarrow> json" where
  "jsonb_concat a b =
     (case (a, b) of
        (JObj m, JObj n) \<Rightarrow> JObj (fold (\<lambda>(k, v) acc. obj_insert k v acc) n m)
      | _ \<Rightarrow> JArr (as_elems a @ as_elems b))"

lemma jsonb_concat_obj:
  "jsonb_concat (JObj m) (JObj [(k, v)]) = JObj (obj_insert k v m)"
  by (simp add: jsonb_concat_def)

end
