(* ===== verification/Pg_Values.thy ===== *)
theory Pg_Values
  imports Json
begin

text \<open>
  The PostgreSQL values the SQL of src/src/schema.rs computes with: errors, uuids and their
  text form, the casts \<open>text::int\<close> and \<open>text ~ '^[0-9]+$'\<close>, timestamps and
  \<open>n * interval '1 second'\<close>.

  A timestamp is an \<open>int\<close>, microseconds since the epoch; \<open>now()\<close> is an argument, fixed for a
  transaction. Three built-ins are parameters, the fields of \<open>pg\<close>: \<open>md5(text)\<close>, the cast
  \<open>text::timestamptz\<close> (which depends on the session's time zone and on \<open>now()\<close>), and the
  sort key that the database's collation gives a text in an \<open>ORDER BY\<close>.
\<close>

datatype pg_error =
    UndefinedObject string
  | InvalidText string
  | NumericOutOfRange
  | DatetimeError string
  | UniqueViolation
  | ForeignKeyViolation
  | ChannelNameEmpty
  | ChannelNameTooLong
  | PayloadTooLong
  | NegativeLimit
  | UndefinedFunction string

record pg =
  pg_md5 :: "string \<Rightarrow> string"
  pg_timestamptz :: "int \<Rightarrow> string \<Rightarrow> pg_error + int"
  pg_collkey :: "string \<Rightarrow> string"

text \<open>Documented behaviour of \<open>md5\<close>: 32 hexadecimal digits.\<close>

definition pg_md5_ok :: "pg \<Rightarrow> bool" where
  "pg_md5_ok P \<longleftrightarrow> (\<forall>s. length (pg_md5 P s) = 32 \<and> list_all is_ascii (pg_md5 P s))"

section \<open>Uuids\<close>

type_synonym uuid = "128 word"

fun hexn :: "nat \<Rightarrow> nat \<Rightarrow> string" where
  "hexn 0 n = []"
| "hexn (Suc k) n = hexn k (n div 16) @ [digit_char (n mod 16)]"

definition hex_val :: "string \<Rightarrow> nat" where
  "hex_val s = foldl (\<lambda>a c. 16 * a + digit_val c) 0 s"

definition uuid_out :: "uuid \<Rightarrow> string" where
  "uuid_out u =
     (let h = hexn 32 (unat u)
      in take 8 h @ ''-'' @ take 4 (drop 8 h) @ ''-'' @ take 4 (drop 12 h) @ ''-''
         @ take 4 (drop 16 h) @ ''-'' @ drop 20 h)"

text \<open>
  \<open>text::uuid\<close> on the canonical form (32 hexadecimal digits in groups of 8, 4, 4, 4, 12), the
  only one the code ever casts: every text it casts came from \<open>uuid::text\<close>.
\<close>

definition uuid_in :: "string \<Rightarrow> pg_error + uuid" where
  "uuid_in s =
     (let h = take 8 s @ take 4 (drop 9 s) @ take 4 (drop 14 s) @ take 4 (drop 19 s) @ drop 24 s
      in if length s = 36 \<and> list_all (\<lambda>i. s ! i = CHR ''-'') [8, 13, 18, 23]
            \<and> list_all (\<lambda>c. digit_val c < 16) h
         then Inr (of_nat (hex_val h)) else Inl (InvalidText s))"

lemma length_hexn [simp]: "length (hexn k n) = k"
  by (induction k arbitrary: n) auto

lemma hex_val_snoc: "hex_val (s @ [c]) = 16 * hex_val s + digit_val c"
  by (simp add: hex_val_def)

lemma hex_val_hexn: "hex_val (hexn k n) = n mod 16 ^ k"
proof (induction k arbitrary: n)
  case 0
  then show ?case by (simp add: hex_val_def)
next
  case (Suc k)
  have "n mod 16 ^ Suc k = 16 * (n div 16 mod 16 ^ k) + n mod 16"
    by (simp add: mod_mult2_eq)
  with Suc show ?case by (simp add: hex_val_snoc)
qed

lemma hexn_digits: "c \<in> set (hexn k n) \<Longrightarrow> digit_val c < 16 \<and> is_ascii c"
  by (induction k arbitrary: n) (auto simp: is_ascii_digit_char)

lemma regroup_hex:
  assumes "length h = 32"
  shows "take 8 h @ take 4 (drop 8 h) @ take 4 (drop 12 h) @ take 4 (drop 16 h) @ drop 20 h = h"
proof -
  have "take 4 (drop 16 h) @ drop 20 h = drop 16 h"
    using append_take_drop_id [of 4 "drop 16 h"] by simp
  moreover have "take 4 (drop 12 h) @ drop 16 h = drop 12 h"
    using append_take_drop_id [of 4 "drop 12 h"] by simp
  moreover have "take 4 (drop 8 h) @ drop 12 h = drop 8 h"
    using append_take_drop_id [of 4 "drop 8 h"] by simp
  ultimately show ?thesis by simp
qed

lemma length_uuid_out [simp]: "length (uuid_out u) = 36"
  by (simp add: uuid_out_def Let_def)

lemma uuid_out_ascii: "list_all is_ascii (uuid_out u)"
proof -
  have "list_all is_ascii (hexn 32 (unat u))"
    using hexn_digits by (auto simp: list_all_iff)
  then show ?thesis
    by (auto simp: uuid_out_def Let_def list_all_iff is_ascii_def [of "CHR ''-''"] char_code_def
        dest!: in_set_takeD in_set_dropD)
qed

lemma utf8_len_uuid_out [simp]: "utf8_len (uuid_out u) = 36"
  using utf8_len_ascii [OF uuid_out_ascii] by simp

lemma uuid_in_out: "uuid_in (uuid_out u) = Inr u"
proof -
  let ?h = "hexn 32 (unat u)"
  have "unat u < 16 ^ 32"
    using unsigned_less [of u] by simp
  then have v: "hex_val ?h = unat u" by (simp add: hex_val_hexn del: hexn.simps)
  have "list_all (\<lambda>c. digit_val c < 16) ?h"
    using hexn_digits by (auto simp: list_all_iff)
  then show ?thesis
    using regroup_hex [of ?h] v
    by (simp add: uuid_in_def uuid_out_def Let_def nth_append del: hexn.simps)
qed

lemma uuid_out_inj: "uuid_out u = uuid_out v \<longleftrightarrow> u = v"
  using uuid_in_out by (metis sum.inject(2))

section \<open>The cast text to int4\<close>

definition pg_space :: "char \<Rightarrow> bool" where
  "pg_space c \<longleftrightarrow> char_code c = 32 \<or> (9 \<le> char_code c \<and> char_code c \<le> 13)"

text \<open>
  The digit loop of the cast: an underscore is allowed between digits (after a radix prefix
  also first) when a digit follows; the value is bounded while it is read.
\<close>

fun scan_digits :: "nat \<Rightarrow> bool \<Rightarrow> nat \<Rightarrow> string \<Rightarrow> pg_error + (nat \<times> string)" where
  "scan_digits b us acc [] = Inr (acc, [])"
| "scan_digits b us acc (c # s) =
     (if digit_val c < b then
        (if acc > 2 ^ 31 div b then Inl NumericOutOfRange
         else scan_digits b True (acc * b + digit_val c) s)
      else if c = CHR ''_'' then
        (if us \<and> s \<noteq> [] \<and> digit_val (hd s) < b then scan_digits b True acc s
         else Inl (InvalidText (c # s)))
      else Inr (acc, c # s))"

definition split_sign :: "string \<Rightarrow> bool \<times> string" where
  "split_sign s =
     (case s of
        [] \<Rightarrow> (False, [])
      | c # r \<Rightarrow> if c = CHR ''-'' then (True, r) else if c = CHR ''+'' then (False, r) else (False, s))"

definition split_radix :: "string \<Rightarrow> nat \<times> string" where
  "split_radix s =
     (if length s \<ge> 2 \<and> hd s = CHR ''0'' then
        (let c = s ! 1 in
           if c = CHR ''x'' \<or> c = CHR ''X'' then (16, drop 2 s)
           else if c = CHR ''o'' \<or> c = CHR ''O'' then (8, drop 2 s)
           else if c = CHR ''b'' \<or> c = CHR ''B'' then (2, drop 2 s)
           else (10, s))
      else (10, s))"

definition int4_in :: "string \<Rightarrow> pg_error + int" where
  "int4_in s =
     (let (neg, u) = split_sign (dropWhile pg_space s); (b, v) = split_radix u
      in if v = [] \<or> \<not> (digit_val (hd v) < b \<or> b \<noteq> 10 \<and> hd v = CHR ''_'') then Inl (InvalidText s)
         else rbind (scan_digits b (b \<noteq> 10) 0 v) (\<lambda>(n, rest).
           if dropWhile pg_space rest \<noteq> [] then Inl (InvalidText s)
           else let z = (if neg then - int n else int n)
                in if in_int4 z then Inr z else Inl NumericOutOfRange))"

text \<open>The regular expression \<open>^[0-9]+$\<close>.\<close>

definition all_digits :: "string \<Rightarrow> bool" where
  "all_digits s \<longleftrightarrow> s \<noteq> [] \<and> list_all is_digit s"

lemma int4_in_int4: "int4_in s = Inr z \<Longrightarrow> in_int4 z"
  by (auto simp: int4_in_def Let_def split: prod.splits if_splits)

text \<open>\<open>(t)::int\<close> where \<open>t\<close> may be NULL, under \<open>COALESCE(.., d)\<close>.\<close>

definition int4_or :: "string option \<Rightarrow> int \<Rightarrow> pg_error + int" where
  "int4_or t d = (case t of None \<Rightarrow> Inr d | Some s \<Rightarrow> int4_in s)"

lemma int4_or_simps [simp]:
  "int4_or None d = Inr d"
  "int4_or (Some s) d = int4_in s"
  by (simp_all add: int4_or_def)

lemma int4_or_in_int4: "int4_or t d = Inr z \<Longrightarrow> in_int4 d \<Longrightarrow> in_int4 z"
  by (cases t) (auto dest: int4_in_int4)

text \<open>Integer addition on \<open>int4\<close>: out of range is an error, there is no wrap-around.\<close>

definition int4_add :: "int \<Rightarrow> int \<Rightarrow> pg_error + int" where
  "int4_add a b = (if in_int4 (a + b) then Inr (a + b) else Inl NumericOutOfRange)"

text \<open>\<open>n * interval '1 second'\<close> in microseconds.\<close>

definition seconds :: "int \<Rightarrow> int" where
  "seconds n = n * 1000000"

section \<open>Decimal text round trip\<close>

lemma is_digit_val: "is_digit c \<Longrightarrow> digit_val c < 10"
  unfolding is_digit_def digit_val_def by auto

lemma is_digit_not_special:
  "is_digit c \<Longrightarrow> \<not> pg_space c \<and> c \<noteq> CHR ''-'' \<and> c \<noteq> CHR ''+'' \<and> c \<noteq> CHR ''_''
     \<and> c \<noteq> CHR ''x'' \<and> c \<noteq> CHR ''X'' \<and> c \<noteq> CHR ''o'' \<and> c \<noteq> CHR ''O'' \<and> c \<noteq> CHR ''b'' \<and> c \<noteq> CHR ''B''"
  by (auto simp: is_digit_def pg_space_def char_code_def)

lemma foldl_dec_ge: "acc \<le> foldl (\<lambda>a c. 10 * a + digit_val c) (acc::nat) s"
proof (induction s arbitrary: acc)
  case (Cons c s)
  have "acc \<le> 10 * acc + digit_val c" by simp
  also have "\<dots> \<le> foldl (\<lambda>a c. 10 * a + digit_val c) (10 * acc + digit_val c) s" by (rule Cons)
  finally show ?case by simp
qed simp

lemma scan_digits_dec:
  assumes "list_all is_digit s" "foldl (\<lambda>a c. 10 * a + digit_val c) acc s \<le> 2 ^ 31"
  shows "scan_digits 10 us acc s = Inr (foldl (\<lambda>a c. 10 * a + digit_val c) acc s, [])"
  using assms
proof (induction s arbitrary: acc us)
  case (Cons c s)
  have "10 * acc + digit_val c \<le> 2 ^ 31"
    using foldl_dec_ge [of "10 * acc + digit_val c" s] Cons.prems(2) by simp
  then have "\<not> 2 ^ 31 div 10 < acc" by simp
  with Cons show ?case by (simp add: is_digit_val mult.commute)
qed simp

lemma scan_digits_over:
  assumes "list_all is_digit s" "2 ^ 31 < foldl (\<lambda>a c. 10 * a + digit_val c) acc s"
  shows "scan_digits 10 us acc s = Inl NumericOutOfRange \<or>
         scan_digits 10 us acc s = Inr (foldl (\<lambda>a c. 10 * a + digit_val c) acc s, [])"
  using assms by (induction s arbitrary: acc us) (auto simp: is_digit_val mult.commute)

lemma split_radix_digits:
  assumes "list_all is_digit s"
  shows "split_radix s = (10, s)"
proof -
  have "length s \<ge> 2 \<Longrightarrow> is_digit (s ! 1)"
    using assms by (auto simp: list_all_length)
  then show ?thesis
    by (auto simp: split_radix_def Let_def dest!: is_digit_not_special)
qed

lemma int4_in_digits:
  assumes "all_digits s"
  shows "int4_in s = (if int (dec_val s) < 2 ^ 31 then Inr (int (dec_val s)) else Inl NumericOutOfRange)"
proof -
  obtain c r where s: "s = c # r" and c: "is_digit c" and d: "list_all is_digit s"
    using assms by (cases s) (auto simp: all_digits_def)
  have sgn: "split_sign (dropWhile pg_space s) = (False, s)"
    using is_digit_not_special [OF c] by (simp add: s split_sign_def)
  have hd: "s \<noteq> []" "digit_val (hd s) < 10" using c by (simp_all add: s is_digit_val)
  note eval = int4_in_def sgn split_radix_digits [OF d] hd in_int4_def
  show ?thesis
  proof (cases "dec_val s \<le> 2 ^ 31")
    case True
    then have "scan_digits 10 False 0 s = Inr (dec_val s, [])"
      using scan_digits_dec [OF d, of 0 False] by (simp add: dec_val_def)
    then show ?thesis by (simp add: eval)
  next
    case False
    then consider "scan_digits 10 False 0 s = Inl NumericOutOfRange"
        | "scan_digits 10 False 0 s = Inr (dec_val s, [])"
      using scan_digits_over [OF d, of 0 False] by (auto simp: dec_val_def)
    then show ?thesis using False by cases (simp_all add: eval)
  qed
qed

lemma int4_in_negative:
  assumes "z < 0"
  shows "int4_in (show_int z) = (if in_int4 z then Inr z else Inl NumericOutOfRange)"
proof -
  let ?s = "show_nat (nat (- z))"
  have d: "list_all is_digit ?s" by (rule show_nat_digits)
  obtain c r where s: "?s = c # r" by (cases ?s) auto
  have c: "is_digit c" using d s by simp
  have sgn: "split_sign (dropWhile pg_space (show_int z)) = (True, ?s)"
    using assms by (simp add: show_int_def split_sign_def pg_space_def char_code_def)
  have hd: "digit_val (hd ?s) < 10" using c by (simp add: s is_digit_val)
  note eval = int4_in_def sgn split_radix_digits [OF d]
  show ?thesis
  proof (cases "dec_val ?s \<le> 2 ^ 31")
    case True
    then have "scan_digits 10 False 0 ?s = Inr (dec_val ?s, [])"
      using scan_digits_dec [OF d, of 0 False] by (simp add: dec_val_def)
    then show ?thesis using assms hd by (simp add: eval)
  next
    case False
    then consider "scan_digits 10 False 0 ?s = Inl NumericOutOfRange"
        | "scan_digits 10 False 0 ?s = Inr (dec_val ?s, [])"
      using scan_digits_over [OF d, of 0 False] by (auto simp: dec_val_def)
    moreover have "\<not> in_int4 z" using assms False by (simp add: in_int4_def)
    ultimately show ?thesis
    proof cases
      case 1
      with \<open>\<not> in_int4 z\<close> show ?thesis using hd by (simp add: eval)
    next
      case 2
      with \<open>\<not> in_int4 z\<close> show ?thesis using assms hd by (simp add: eval)
    qed
  qed
qed

lemma int4_in_integer: "int4_in (show_int z) = (if in_int4 z then Inr z else Inl NumericOutOfRange)"
proof (cases "z < 0")
  case False
  then show ?thesis
    using int4_in_digits [of "show_nat (nat z)"]
    by (simp add: show_int_def all_digits_def show_nat_digits in_int4_def)
qed (rule int4_in_negative)

lemma int4_in_show_int: "in_int4 z \<Longrightarrow> int4_in (show_int z) = Inr z"
  by (simp add: int4_in_integer)

lemma int4_in_show_int_over: "\<not> in_int4 z \<Longrightarrow> int4_in (show_int z) = Inl NumericOutOfRange"
  by (simp add: int4_in_integer)

end
