(* ===== verification/Schema.thy ===== *)
theory Schema
  imports Pg_Values
begin

text \<open>
  The tables and SQL functions of src/src/schema.rs: the queue registry \<open>boss.queue\<close>, the
  job table \<open>boss.job\<close>, and \<open>boss.channel\<close>, \<open>boss.send\<close>, \<open>boss.fetch\<close>, \<open>boss.complete\<close>,
  \<open>boss.fail\<close>, \<open>boss.get_queues\<close> and \<open>boss.maintain\<close>, one definition each.

  A call is one transaction: it takes the clock \<open>now\<close> and the database, and gives the
  result and the new database, or the error that aborts it (then the database stays as it
  was). Nullable columns and arguments are options. \<open>gen_random_uuid()\<close> is the argument
  \<open>new_id\<close> of \<open>send\<close>. Notifications are appended to \<open>notifies\<close> in the order the
  transactions commit.
\<close>

section \<open>Tables\<close>

datatype job_state = Created | Retry | Active | Completed | Cancelled | Failed

record queue =
  q_name :: string
  q_retry_limit :: int
  q_retry_delay :: int
  q_expire_seconds :: int
  q_retention_seconds :: int
  q_created_on :: int

record job =
  j_id :: uuid
  j_name :: string
  j_priority :: int
  j_data :: "json option"
  j_state :: job_state
  j_retry_limit :: int
  j_retry_count :: int
  j_retry_delay :: int
  j_expire_seconds :: int
  j_start_after :: int
  j_created_on :: int
  j_started_on :: "int option"
  j_completed_on :: "int option"
  j_keep_until :: int
  j_output :: "json option"

record db =
  queues :: "queue list"
  jobs :: "job list"
  notifies :: "(string \<times> string) list"

definition empty_db :: db where
  "empty_db = \<lparr>queues = [], jobs = [], notifies = []\<rparr>"

text \<open>The labels of the enum, for \<open>state::text\<close>.\<close>

fun state_text :: "job_state \<Rightarrow> string" where
  "state_text Created = ''created''"
| "state_text Retry = ''retry''"
| "state_text Active = ''active''"
| "state_text Completed = ''completed''"
| "state_text Cancelled = ''cancelled''"
| "state_text Failed = ''failed''"

lemma state_text_inj: "state_text s = state_text t \<longleftrightarrow> s = t"
  by (cases s; cases t) simp_all

text \<open>\<open>INSERT INTO boss.job\<close>: the primary key and the reference to \<open>boss.queue\<close> are checked.\<close>

definition insert_job :: "job \<Rightarrow> db \<Rightarrow> pg_error + db" where
  "insert_job r d =
     (if j_id r \<in> set (map j_id (jobs d)) then Inl UniqueViolation
      else if j_name r \<notin> set (map q_name (queues d)) then Inl ForeignKeyViolation
      else Inr (d\<lparr>jobs := jobs d @ [r]\<rparr>))"

section \<open>Channels and notifications\<close>

definition channel :: "pg \<Rightarrow> string \<Rightarrow> string" where
  "channel P queue_name =
     (if length (''boss_'' @ queue_name) \<le> 63 then ''boss_'' @ queue_name
      else ''boss_'' @ pg_md5 P queue_name)"

text \<open>
  \<open>pg_notify(channel, payload)\<close>: the channel must be an identifier, 1 to 63 bytes, and the
  payload shorter than 8000 bytes.
\<close>

definition pg_notify :: "string \<Rightarrow> string \<Rightarrow> db \<Rightarrow> pg_error + db" where
  "pg_notify ch payload d =
     (if utf8_len ch = 0 then Inl ChannelNameEmpty
      else if utf8_len ch \<ge> 64 then Inl ChannelNameTooLong
      else if utf8_len payload \<ge> 8000 then Inl PayloadTooLong
      else Inr (d\<lparr>notifies := notifies d @ [(ch, payload)]\<rparr>))"

section \<open>send\<close>

definition start_after_of :: "pg \<Rightarrow> int \<Rightarrow> string option \<Rightarrow> pg_error + int" where
  "start_after_of P now opt =
     (case opt of
        None \<Rightarrow> Inr now
      | Some t \<Rightarrow> if all_digits t then rbind (int4_in t) (\<lambda>n. Inr (now + seconds n))
                 else pg_timestamptz P now t)"

definition send ::
  "pg \<Rightarrow> int \<Rightarrow> uuid \<Rightarrow> string \<Rightarrow> json option \<Rightarrow> json option \<Rightarrow> db \<Rightarrow> pg_error + (uuid \<times> db)" where
  "send P now new_id queue_name data options d =
     (case find (\<lambda>q. q_name q = queue_name) (queues d) of
        None \<Rightarrow> Inl (UndefinedObject queue_name)
      | Some q \<Rightarrow>
          rbind (start_after_of P now (arrow_text options ''startAfter'')) (\<lambda>v_start_after.
          rbind (int4_or (arrow_text options ''priority'') 0) (\<lambda>priority.
          rbind (int4_or (arrow_text options ''retryLimit'') (q_retry_limit q)) (\<lambda>retry_limit.
          rbind (int4_or (arrow_text options ''retryDelay'') (q_retry_delay q)) (\<lambda>retry_delay.
          rbind (int4_or (arrow_text options ''expireInSeconds'') (q_expire_seconds q)) (\<lambda>expire_seconds.
          rbind (insert_job
            \<lparr>j_id = new_id, j_name = queue_name, j_priority = priority,
             j_data = Some (case data of None \<Rightarrow> JObj [] | Some v \<Rightarrow> v),
             j_state = Created, j_retry_limit = retry_limit, j_retry_count = 0,
             j_retry_delay = retry_delay, j_expire_seconds = expire_seconds,
             j_start_after = v_start_after, j_created_on = now, j_started_on = None,
             j_completed_on = None, j_keep_until = now + seconds (q_retention_seconds q),
             j_output = None\<rparr> d) (\<lambda>d1.
          rbind (pg_notify (channel P queue_name) (uuid_out new_id) d1) (\<lambda>d2.
          Inr (new_id, d2)))))))))"

section \<open>fetch\<close>

text \<open>The sort key \<open>priority DESC, created_on, id\<close>.\<close>

datatype fetch_key = Fetch_Key (fk_priority: int) (fk_created_on: int) (fk_id: uuid)

instantiation fetch_key :: linorder
begin

definition less_eq_fetch_key :: "fetch_key \<Rightarrow> fetch_key \<Rightarrow> bool" where
  "less_eq_fetch_key a b \<longleftrightarrow>
     fk_priority a > fk_priority b \<or>
     fk_priority a = fk_priority b \<and>
       (fk_created_on a < fk_created_on b \<or>
        fk_created_on a = fk_created_on b \<and> fk_id a \<le> fk_id b)"

definition less_fetch_key :: "fetch_key \<Rightarrow> fetch_key \<Rightarrow> bool" where
  "less_fetch_key a b \<longleftrightarrow> a \<le> b \<and> \<not> b \<le> (a :: fetch_key)"

instance
  by standard (auto simp: less_eq_fetch_key_def less_fetch_key_def intro: fetch_key.expand)

end

definition fetch_key :: "job \<Rightarrow> fetch_key" where
  "fetch_key j = Fetch_Key (j_priority j) (j_created_on j) (j_id j)"

definition fetchable :: "int \<Rightarrow> string \<Rightarrow> job \<Rightarrow> bool" where
  "fetchable now queue_name j \<longleftrightarrow>
     j_name j = queue_name \<and> (j_state j = Created \<or> j_state j = Retry) \<and> j_start_after j \<le> now"

definition claim :: "int \<Rightarrow> job \<Rightarrow> job" where
  "claim now j = j\<lparr>j_state := Active, j_started_on := Some now\<rparr>"

text \<open>
  The common table expression \<open>next\<close>: the fetchable rows that no other transaction has
  locked (\<open>FOR UPDATE SKIP LOCKED\<close>), in the order of the key, at most \<open>batch_size\<close> of them
  (all of them when \<open>batch_size\<close> is NULL).
\<close>

definition fetch_next :: "uuid list \<Rightarrow> int \<Rightarrow> string \<Rightarrow> int option \<Rightarrow> job list \<Rightarrow> job list" where
  "fetch_next locked now queue_name batch_size rows =
     (let ready = sort_key fetch_key
            (filter (\<lambda>j. fetchable now queue_name j \<and> j_id j \<notin> set locked) rows)
      in case batch_size of None \<Rightarrow> ready | Some n \<Rightarrow> take (nat n) ready)"

text \<open>
  The result is the set of claimed rows after the update; \<open>RETURNING\<close> gives no order, the
  model lists them in table order.
\<close>

definition fetch ::
  "uuid list \<Rightarrow> int \<Rightarrow> string \<Rightarrow> int option \<Rightarrow> db \<Rightarrow> pg_error + (job list \<times> db)" where
  "fetch locked now queue_name batch_size d =
     (if (case batch_size of None \<Rightarrow> False | Some n \<Rightarrow> n < 0) then Inl NegativeLimit
      else let ids = map j_id (fetch_next locked now queue_name batch_size (jobs d));
               rows = sql_update (\<lambda>j. j_id j \<in> set ids) (claim now) (jobs d)
           in Inr (filter (\<lambda>j. j_id j \<in> set ids) rows, d\<lparr>jobs := rows\<rparr>))"

section \<open>complete and fail\<close>

definition is_active :: "string \<Rightarrow> uuid \<Rightarrow> job \<Rightarrow> bool" where
  "is_active queue_name job_id j \<longleftrightarrow>
     j_name j = queue_name \<and> j_id j = job_id \<and> j_state j = Active"

definition complete :: "int \<Rightarrow> string \<Rightarrow> uuid \<Rightarrow> json option \<Rightarrow> db \<Rightarrow> bool \<times> db" where
  "complete now queue_name job_id out d =
     (let n = sql_count (is_active queue_name job_id) (jobs d);
          rows = sql_update (is_active queue_name job_id)
            (\<lambda>j. j\<lparr>j_state := Completed, j_completed_on := Some now, j_output := out\<rparr>) (jobs d)
      in (n > 0, d\<lparr>jobs := rows\<rparr>))"

definition retry_row :: "int \<Rightarrow> json option \<Rightarrow> job \<Rightarrow> pg_error + job" where
  "retry_row now out j =
     rbind (int4_add (j_retry_count j) 1) (\<lambda>c. Inr (j\<lparr>
       j_state := Retry,
       j_retry_count := c,
       j_start_after := now + seconds (j_retry_delay j),
       j_started_on := None,
       j_output := out\<rparr>))"

definition fail_row :: "int \<Rightarrow> json option \<Rightarrow> job \<Rightarrow> job" where
  "fail_row now out j = j\<lparr>
     j_state := Failed, j_completed_on := Some now, j_started_on := None, j_output := out\<rparr>"

definition fail ::
  "pg \<Rightarrow> int \<Rightarrow> string \<Rightarrow> uuid \<Rightarrow> json option \<Rightarrow> db \<Rightarrow> pg_error + (bool \<times> db)" where
  "fail P now queue_name job_id out d =
     (case find (is_active queue_name job_id) (jobs d) of
        None \<Rightarrow> Inr (False, d)
      | Some j \<Rightarrow>
          if j_retry_count j < j_retry_limit j then
            rbind (sql_update_res (\<lambda>r. j_id r = j_id j) (retry_row now out) (jobs d)) (\<lambda>rows.
            rbind (pg_notify (channel P queue_name) (uuid_out (j_id j)) (d\<lparr>jobs := rows\<rparr>)) (\<lambda>d1.
            Inr (True, d1)))
          else
            Inr (True, d\<lparr>jobs := sql_update (\<lambda>r. j_id r = j_id j) (fail_row now out) (jobs d)\<rparr>))"

section \<open>get_queues\<close>

definition get_queues :: "pg \<Rightarrow> db \<Rightarrow> queue list" where
  "get_queues P d = sort_key (\<lambda>q. pg_collkey P (q_name q)) (queues d)"

section \<open>maintain\<close>

definition expired :: "int \<Rightarrow> job \<Rightarrow> bool" where
  "expired now j \<longleftrightarrow>
     j_state j = Active \<and>
     (case j_started_on j of None \<Rightarrow> False | Some t \<Rightarrow> now - t > seconds (j_expire_seconds j))"

definition expire_row :: "int \<Rightarrow> job \<Rightarrow> pg_error + job" where
  "expire_row now j =
     (let retriable = j_retry_count j < j_retry_limit j in
      rbind (if retriable then int4_add (j_retry_count j) 1 else Inr (j_retry_count j)) (\<lambda>c.
      Inr (j\<lparr>
        j_state := (if retriable then Retry else Failed),
        j_retry_count := c,
        j_start_after := (if retriable then now + seconds (j_retry_delay j) else j_start_after j),
        j_completed_on := (if retriable then None else Some now),
        j_started_on := None,
        j_output := Some (jsonb_concat (case j_output j of None \<Rightarrow> JObj [] | Some v \<Rightarrow> v)
                            (JObj [(''__expired'', JBool True)]))\<rparr>)))"

definition purgeable :: "int \<Rightarrow> job \<Rightarrow> bool" where
  "purgeable now j \<longleftrightarrow>
     (j_state j = Completed \<or> j_state j = Failed \<or> j_state j = Cancelled) \<and> j_keep_until j < now"

definition maintain :: "int \<Rightarrow> db \<Rightarrow> pg_error + db" where
  "maintain now d =
     rbind (sql_update_res (expired now) (expire_row now) (jobs d)) (\<lambda>rows.
     Inr (d\<lparr>jobs := sql_delete (purgeable now) rows\<rparr>))"

end
