(* ===== verification/Control.thy ===== *)
theory Control
  imports Schema
begin

text \<open>
  The Rust side of the extension, src/src/lib.rs: \<open>boss.create_queue\<close> and
  \<open>boss.delete_queue\<close> over SPI, the registrations of \<open>_PG_init\<close>, and the loop of the
  maintenance background worker.
\<close>

section \<open>create_queue and delete_queue\<close>

text \<open>The closure \<open>as_i32\<close>: the option as \<open>i64\<close>, cut to \<open>i32\<close> by \<open>v as i32\<close>.\<close>

definition opt_i32 :: "json \<Rightarrow> string \<Rightarrow> int \<Rightarrow> int" where
  "opt_i32 o_json key dflt =
     (case Option.bind (json_get o_json key) as_i64 of None \<Rightarrow> dflt | Some v \<Rightarrow> as_i32 v)"

text \<open>\<open>INSERT INTO boss.queue .. ON CONFLICT (name) DO NOTHING\<close>.\<close>

definition insert_queue :: "queue \<Rightarrow> db \<Rightarrow> db" where
  "insert_queue r d =
     (if q_name r \<in> set (map q_name (queues d)) then d else d\<lparr>queues := queues d @ [r]\<rparr>)"

definition create_queue :: "int \<Rightarrow> string \<Rightarrow> json \<Rightarrow> db \<Rightarrow> bool \<times> db" where
  "create_queue now name options d =
     (let retry_limit = opt_i32 options ''retryLimit'' 2;
          retry_delay = opt_i32 options ''retryDelay'' 0;
          expire = opt_i32 options ''expireInSeconds'' 900;
          retention = opt_i32 options ''retentionSeconds'' (60 * 60 * 24 * 14)
      in (True, insert_queue
            \<lparr>q_name = name, q_retry_limit = retry_limit, q_retry_delay = retry_delay,
             q_expire_seconds = expire, q_retention_seconds = retention, q_created_on = now\<rparr> d))"

text \<open>\<open>DELETE FROM boss.queue\<close>; the jobs go by \<open>ON DELETE CASCADE\<close>.\<close>

definition delete_queue :: "string \<Rightarrow> db \<Rightarrow> bool \<times> db" where
  "delete_queue name d =
     (True, d\<lparr>queues := sql_delete (\<lambda>q. q_name q = name) (queues d),
              jobs := sql_delete (\<lambda>j. j_name j = name) (jobs d)\<rparr>)"

section \<open>Registration\<close>

datatype guc_context = Postmaster | Sighup

datatype guc =
    String_Guc string string guc_context       \<comment> \<open>name, default, context\<close>
  | Int_Guc string int int int guc_context     \<comment> \<open>name, default, minimum, maximum, context\<close>

record bgworker =
  bw_name :: string
  bw_function :: string
  bw_library :: string
  bw_restart_secs :: "nat option"
  bw_spi :: bool

record registry =
  gucs :: "guc list"
  bgworkers :: "bgworker list"

definition maintenance_db :: guc where
  "maintenance_db = String_Guc ''taskboss.database'' ''postgres'' Postmaster"

definition maintenance_interval :: guc where
  "maintenance_interval = Int_Guc ''taskboss.maintenance_interval'' 60 1 86400 Sighup"

definition pg_init :: "bool \<Rightarrow> registry \<Rightarrow> registry" where
  "pg_init preload r =
     (if \<not> preload then r
      else r\<lparr>gucs := gucs r @ [maintenance_db, maintenance_interval],
             bgworkers := bgworkers r @
               [\<lparr>bw_name = ''taskboss: queue maintenance'',
                 bw_function = ''background_worker_main'', bw_library = ''taskboss'',
                 bw_restart_secs = Some 5, bw_spi = True\<rparr>]\<rparr>)"

text \<open>The values PostgreSQL accepts for an integer setting.\<close>

fun guc_accepts :: "guc \<Rightarrow> int \<Rightarrow> bool" where
  "guc_accepts (Int_Guc n dflt lo hi c) v \<longleftrightarrow> lo \<le> v \<and> v \<le> hi"
| "guc_accepts (String_Guc n dflt c) v \<longleftrightarrow> False"

section \<open>The maintenance worker\<close>

text \<open>
  One return of \<open>wait_latch\<close>: whether it tells the worker to go on, the clock of the
  transaction that follows, and whether \<open>to_regproc('boss.maintain')\<close> finds the function.
\<close>

record wake =
  w_continue :: bool
  w_now :: int
  w_installed :: bool

text \<open>\<open>PERFORM boss.maintain()\<close> in a database with or without the extension.\<close>

definition perform_maintain :: "bool \<Rightarrow> int \<Rightarrow> db \<Rightarrow> pg_error + db" where
  "perform_maintain installed now d =
     (if installed then maintain now d else Inl (UndefinedFunction ''boss.maintain''))"

text \<open>The \<open>DO\<close> block: \<open>to_regproc\<close> guards the call.\<close>

definition worker_tick :: "wake \<Rightarrow> db \<Rightarrow> pg_error + db" where
  "worker_tick w d =
     (if w_installed w then perform_maintain (w_installed w) (w_now w) d else Inr d)"

text \<open>
  The loop over the successive returns of \<open>wait_latch\<close>, of which a run sees a finite list;
  an error of the transaction is the panic of \<open>expect\<close>. The loop is generic in the
  transaction it runs.
\<close>

fun worker_loop :: "(wake \<Rightarrow> 'd \<Rightarrow> 'e + 'd) \<Rightarrow> wake list \<Rightarrow> 'd \<Rightarrow> 'e + 'd" where
  "worker_loop tick [] d = Inr d"
| "worker_loop tick (w # ws) d =
     (if \<not> w_continue w then Inr d else rbind (tick w d) (worker_loop tick ws))"

text \<open>
  What the loop relies on: a transaction that always succeeds on a sound database and keeps
  it sound. Then the loop never panics, and it runs the transactions up to the first wake
  that tells it to stop.
\<close>

locale worker_store =
  fixes sound :: "'d \<Rightarrow> bool"
    and tick :: "wake \<Rightarrow> 'd \<Rightarrow> 'e + 'd"
  assumes tick_ok: "sound d \<Longrightarrow> \<exists>d'. tick w d = Inr d' \<and> sound d'"
begin

lemma loop_ok: "sound d \<Longrightarrow> \<exists>d'. worker_loop tick ws d = Inr d' \<and> sound d'"
proof (induction ws arbitrary: d)
  case (Cons w ws)
  obtain d' where "tick w d = Inr d'" "sound d'" using tick_ok [OF Cons.prems] by blast
  with Cons show ?case by auto
qed simp

lemma loop_stops: "worker_loop tick ws d = worker_loop tick (takeWhile w_continue ws) d"
  by (induction ws arbitrary: d) (auto simp: rbind_def split: sum.splits)

end

record worker_config =
  cfg_database :: "string option"
  cfg_interval :: int

definition worker_dbname :: "worker_config \<Rightarrow> string" where
  "worker_dbname c = (case cfg_database c of Some s \<Rightarrow> s | None \<Rightarrow> ''postgres'')"

definition worker_interval :: "worker_config \<Rightarrow> nat" where
  "worker_interval c = nat (max (cfg_interval c) 1)"

text \<open>The database it attaches to, the seconds it sleeps at most, and what its loop does.\<close>

definition background_worker_main ::
  "worker_config \<Rightarrow> wake list \<Rightarrow> db \<Rightarrow> string \<times> nat \<times> (pg_error + db)" where
  "background_worker_main c ws d =
     (worker_dbname c, worker_interval c, worker_loop worker_tick ws d)"

end
