(* ===== verification/Invariants.thy ===== *)
theory Invariants
  imports Control
begin

text \<open>
  The invariant of the database and its preservation by every operation of the extension.
  A row of \<open>boss.job\<close> is well formed (\<open>job_wf\<close>) when its counters fit their columns, the
  attempt counter is within the retry budget, and the two time stamps agree with the state;
  the database is well formed (\<open>db_inv\<close>) when moreover the keys are unique and every job
  belongs to a registered queue. Under the invariant no operation meets an integer
  overflow, so \<open>maintain\<close> never fails and \<open>fail\<close> fails only in \<open>pg_notify\<close>.
\<close>

section \<open>The invariant\<close>

definition job_wf :: "job \<Rightarrow> bool" where
  "job_wf j \<longleftrightarrow>
     in_int4 (j_priority j) \<and> in_int4 (j_retry_limit j) \<and> in_int4 (j_retry_delay j) \<and>
     in_int4 (j_expire_seconds j) \<and>
     0 \<le> j_retry_count j \<and> j_retry_count j \<le> max 0 (j_retry_limit j) \<and>
     (j_started_on j \<noteq> None \<longleftrightarrow> j_state j = Active \<or> j_state j = Completed) \<and>
     (j_completed_on j \<noteq> None \<longleftrightarrow> j_state j = Completed \<or> j_state j = Failed) \<and>
     j_state j \<noteq> Cancelled \<and>
     (j_state j = Created \<longrightarrow> j_retry_count j = 0 \<and> j_output j = None) \<and>
     (j_state j = Retry \<longrightarrow> 0 < j_retry_count j) \<and>
     j_data j \<noteq> None"

definition queue_wf :: "queue \<Rightarrow> bool" where
  "queue_wf q \<longleftrightarrow>
     in_int4 (q_retry_limit q) \<and> in_int4 (q_retry_delay q) \<and>
     in_int4 (q_expire_seconds q) \<and> in_int4 (q_retention_seconds q)"

definition db_inv :: "db \<Rightarrow> bool" where
  "db_inv d \<longleftrightarrow>
     distinct (map q_name (queues d)) \<and> distinct (map j_id (jobs d)) \<and>
     (\<forall>q \<in> set (queues d). queue_wf q) \<and>
     (\<forall>j \<in> set (jobs d). job_wf j \<and> j_name j \<in> q_name ` set (queues d))"

lemma db_inv_empty [inv_intros]: "db_inv empty_db"
  by (simp add: db_inv_def empty_db_def)

lemma db_inv_job: "db_inv d \<Longrightarrow> j \<in> set (jobs d) \<Longrightarrow> job_wf j"
  by (simp add: db_inv_def)

lemma db_inv_ids: "db_inv d \<Longrightarrow> distinct (map j_id (jobs d))"
  by (simp add: db_inv_def)

text \<open>An update that keeps ids and names and maps well-formed rows to well-formed rows.\<close>

lemma db_inv_update:
  assumes "db_inv d"
    and "\<And>j. j \<in> set (jobs d) \<Longrightarrow> p j \<Longrightarrow> j_id (f j) = j_id j \<and> j_name (f j) = j_name j"
    and "\<And>j. j \<in> set (jobs d) \<Longrightarrow> p j \<Longrightarrow> job_wf (f j)"
  shows "db_inv (d\<lparr>jobs := sql_update p f (jobs d)\<rparr>)"
proof -
  have "map j_id (sql_update p f (jobs d)) = map j_id (jobs d)"
    using assms(2) by (intro map_key_sql_update) blast
  moreover have "\<forall>j \<in> set (sql_update p f (jobs d)).
      job_wf j \<and> j_name j \<in> q_name ` set (queues d)"
    using assms by (auto simp: set_sql_update db_inv_def)
  ultimately show ?thesis using assms(1) by (simp add: db_inv_def)
qed

lemma db_inv_delete:
  "db_inv d \<Longrightarrow> db_inv (d\<lparr>jobs := sql_delete p (jobs d)\<rparr>)"
  by (simp add: db_inv_def distinct_map_sql_delete)

lemma db_inv_notifies [simp]: "db_inv (d\<lparr>notifies := n\<rparr>) = db_inv d"
  by (simp add: db_inv_def)

section \<open>Rows\<close>

lemma retry_count_bound: "job_wf j \<Longrightarrow> j_retry_count j < j_retry_limit j \<Longrightarrow> in_int4 (j_retry_count j + 1)"
  by (auto simp: job_wf_def in_int4_def)

lemma claim_fields [row_simps, simp]:
  "j_id (claim now j) = j_id j"
  "j_name (claim now j) = j_name j"
  "j_state (claim now j) = Active"
  "j_started_on (claim now j) = Some now"
  "j_retry_count (claim now j) = j_retry_count j"
  "j_retry_limit (claim now j) = j_retry_limit j"
  by (simp_all add: claim_def)

lemma claim_wf: "job_wf j \<Longrightarrow> fetchable t q j \<Longrightarrow> job_wf (claim now j)"
  by (auto simp: job_wf_def claim_def fetchable_def)

text \<open>The rows \<open>fail\<close> and \<open>maintain\<close> write, as total functions.\<close>

definition retried :: "int \<Rightarrow> json option \<Rightarrow> job \<Rightarrow> job" where
  "retried now out j = j\<lparr>j_state := Retry, j_retry_count := j_retry_count j + 1,
     j_start_after := now + seconds (j_retry_delay j), j_started_on := None, j_output := out\<rparr>"

lemma retry_row_eq:
  "job_wf j \<Longrightarrow> j_retry_count j < j_retry_limit j \<Longrightarrow> retry_row now out j = Inr (retried now out j)"
  by (simp add: retry_row_def retried_def int4_add_def retry_count_bound)

lemma retried_wf:
  "job_wf j \<Longrightarrow> j_state j = Active \<Longrightarrow> j_retry_count j < j_retry_limit j \<Longrightarrow>
   job_wf (retried now out j)"
  by (auto simp: job_wf_def retried_def)

lemma fail_row_wf: "job_wf j \<Longrightarrow> job_wf (fail_row now out j)"
  by (auto simp: job_wf_def fail_row_def)

lemma retried_fields [row_simps, simp]:
  "j_id (retried now out j) = j_id j"
  "j_name (retried now out j) = j_name j"
  "j_state (retried now out j) = Retry"
  "j_retry_count (retried now out j) = j_retry_count j + 1"
  "j_retry_limit (retried now out j) = j_retry_limit j"
  by (simp_all add: retried_def)

lemma fail_row_fields [row_simps, simp]:
  "j_id (fail_row now out j) = j_id j"
  "j_name (fail_row now out j) = j_name j"
  "j_state (fail_row now out j) = Failed"
  "j_retry_count (fail_row now out j) = j_retry_count j"
  "j_retry_limit (fail_row now out j) = j_retry_limit j"
  by (simp_all add: fail_row_def)

text \<open>The output an expired job gets: its previous output marked \<open>__expired\<close>.\<close>

definition expired_output :: "job \<Rightarrow> json option" where
  "expired_output j = Some (jsonb_concat (case j_output j of None \<Rightarrow> JObj [] | Some v \<Rightarrow> v)
     (JObj [(''__expired'', JBool True)]))"

definition expire_job :: "int \<Rightarrow> job \<Rightarrow> job" where
  "expire_job now j =
     (if j_retry_count j < j_retry_limit j then retried now (expired_output j) j
      else fail_row now (expired_output j) j)"

lemma expire_row_eq:
  assumes "job_wf j" "expired now j"
  shows "expire_row now j = Inr (expire_job now j)"
proof -
  have "j_completed_on j = None" using assms by (auto simp: job_wf_def expired_def)
  then show ?thesis
    using retry_count_bound [OF assms(1)]
    by (auto simp: expire_row_def expire_job_def retried_def fail_row_def expired_output_def
        int4_add_def Let_def)
qed

lemma expire_job_wf: "job_wf j \<Longrightarrow> expired now j \<Longrightarrow> job_wf (expire_job now j)"
  by (simp add: expire_job_def retried_wf fail_row_wf expired_def)

lemma expire_job_fields [row_simps, simp]:
  "j_id (expire_job now j) = j_id j"
  "j_name (expire_job now j) = j_name j"
  "j_retry_limit (expire_job now j) = j_retry_limit j"
  by (simp_all add: expire_job_def)

section \<open>Operations\<close>

lemma opt_i32_in_int4: "in_int4 dflt \<Longrightarrow> in_int4 (opt_i32 v k dflt)"
  by (auto simp: opt_i32_def as_i32_in_int4 split: option.splits)

lemma create_queue_inv [inv_intros]: "db_inv d \<Longrightarrow> db_inv (snd (create_queue now name options d))"
  by (auto simp: create_queue_def insert_queue_def db_inv_def queue_wf_def Let_def
      opt_i32_in_int4 in_int4_def [of 2] in_int4_def [of 0] in_int4_def [of 900]
      in_int4_def [of 1209600])

lemma delete_queue_inv [inv_intros]: "db_inv d \<Longrightarrow> db_inv (snd (delete_queue name d))"
  by (auto simp: delete_queue_def db_inv_def distinct_map_sql_delete)

lemma pg_notify_jobs: "pg_notify ch p d = Inr d' \<Longrightarrow> d' = d\<lparr>notifies := notifies d @ [(ch, p)]\<rparr>"
  by (auto simp: pg_notify_def split: if_splits)

text \<open>What a successful \<open>send\<close> did: it appended one row and one notification.\<close>

lemma send_elim:
  assumes "send P now new_id qn data options d = Inr (v, d')"
  obtains q j where
    "q \<in> set (queues d)" "q_name q = qn" "v = new_id" "new_id \<notin> j_id ` set (jobs d)"
    "d' = d\<lparr>jobs := jobs d @ [j], notifies := notifies d @ [(channel P qn, uuid_out new_id)]\<rparr>"
    "j_id j = new_id" "j_name j = qn" "j_state j = Created" "j_retry_count j = 0"
    "j_started_on j = None" "j_completed_on j = None" "j_output j = None" "j_created_on j = now"
    "j_data j = Some (case data of None \<Rightarrow> JObj [] | Some x \<Rightarrow> x)"
    "j_keep_until j = now + seconds (q_retention_seconds q)"
    "int4_or (arrow_text options ''priority'') 0 = Inr (j_priority j)"
    "int4_or (arrow_text options ''retryLimit'') (q_retry_limit q) = Inr (j_retry_limit j)"
    "int4_or (arrow_text options ''retryDelay'') (q_retry_delay q) = Inr (j_retry_delay j)"
    "int4_or (arrow_text options ''expireInSeconds'') (q_expire_seconds q) = Inr (j_expire_seconds j)"
    "start_after_of P now (arrow_text options ''startAfter'') = Inr (j_start_after j)"
proof -
  from assms obtain q where q: "find (\<lambda>q. q_name q = qn) (queues d) = Some q"
    by (auto simp: send_def split: option.splits)
  then have "q \<in> set (queues d)" "q_name q = qn"
    by (auto simp: find_Some_iff)
  with assms q show ?thesis
    by (auto simp: send_def insert_job_def image_iff split: if_splits
        dest!: pg_notify_jobs intro!: that)
qed

lemma send_inv [inv_intros]:
  assumes "db_inv d" "send P now new_id qn data options d = Inr (v, d')"
  shows "db_inv d'"
  using assms(2)
proof (rule send_elim)
  fix q j
  assume j: "q \<in> set (queues d)" "q_name q = qn" "v = new_id" "new_id \<notin> j_id ` set (jobs d)"
    "d' = d\<lparr>jobs := jobs d @ [j], notifies := notifies d @ [(channel P qn, uuid_out new_id)]\<rparr>"
    "j_id j = new_id" "j_name j = qn" "j_state j = Created" "j_retry_count j = 0"
    "j_started_on j = None" "j_completed_on j = None" "j_output j = None"
    "j_data j = Some (case data of None \<Rightarrow> JObj [] | Some x \<Rightarrow> x)"
    and opts: "int4_or (arrow_text options ''priority'') 0 = Inr (j_priority j)"
    "int4_or (arrow_text options ''retryLimit'') (q_retry_limit q) = Inr (j_retry_limit j)"
    "int4_or (arrow_text options ''retryDelay'') (q_retry_delay q) = Inr (j_retry_delay j)"
    "int4_or (arrow_text options ''expireInSeconds'') (q_expire_seconds q) = Inr (j_expire_seconds j)"
  have "queue_wf q" using assms(1) j(1) by (simp add: db_inv_def)
  then have "in_int4 (j_priority j)" "in_int4 (j_retry_limit j)" "in_int4 (j_retry_delay j)"
    "in_int4 (j_expire_seconds j)"
    using opts int4_or_in_int4 by (auto simp: queue_wf_def in_int4_def [of 0])
  then have "job_wf j" using j by (simp add: job_wf_def)
  then show "db_inv d'" using assms(1) j by (auto simp: db_inv_def)
qed

lemma fetch_next_sub: "set (fetch_next locked now qn n rows) \<subseteq>
    {j \<in> set rows. fetchable now qn j \<and> j_id j \<notin> set locked}"
  by (auto simp: fetch_next_def Let_def dest: in_set_takeD split: option.splits)

lemma fetch_next_id_iff:
  assumes "distinct (map j_id rows)" "j \<in> set rows"
  shows "j_id j \<in> j_id ` set (fetch_next locked now qn n rows) \<longleftrightarrow>
         j \<in> set (fetch_next locked now qn n rows)"
  using fetch_next_sub [of locked now qn n rows] key_unique [OF assms(1)] assms(2) by blast

lemma fetch_inv [inv_intros]:
  assumes "db_inv d" "fetch locked now qn n d = Inr (js, d')"
  shows "db_inv d'"
proof -
  let ?nx = "fetch_next locked now qn n (jobs d)"
  have "d' = d\<lparr>jobs := sql_update (\<lambda>j. j_id j \<in> set (map j_id ?nx)) (claim now) (jobs d)\<rparr>"
    using assms(2) by (auto simp: fetch_def Let_def split: if_splits)
  moreover have "job_wf (claim now j)" if "j \<in> set (jobs d)" "j_id j \<in> set (map j_id ?nx)" for j
    using that fetch_next_sub [of locked now qn n "jobs d"] fetch_next_id_iff [OF db_inv_ids [OF assms(1)] that(1)]
      claim_wf [of j now qn] db_inv_job [OF assms(1) that(1)] by auto
  ultimately show ?thesis
    using db_inv_update [OF assms(1), of "\<lambda>j. j_id j \<in> set (map j_id ?nx)" "claim now"] by simp
qed

lemma complete_inv [inv_intros]: "db_inv d \<Longrightarrow> db_inv (snd (complete now qn i out d))"
  unfolding complete_def Let_def snd_conv
  by (rule db_inv_update) (auto simp: is_active_def job_wf_def dest: db_inv_job)

text \<open>\<open>fail\<close> and \<open>maintain\<close> through the total row functions.\<close>

lemma find_active:
  assumes "db_inv d" "find (is_active qn i) (jobs d) = Some j"
  shows "j \<in> set (jobs d)" "j_id j = i" "j_name j = qn" "j_state j = Active"
  using assms(2) by (auto simp: find_Some_iff is_active_def)

lemma update_res_one:
  assumes "distinct (map j_id rows)" "j \<in> set rows" "f j = Inr (g j)"
  shows "sql_update_res (\<lambda>r. j_id r = j_id j) f rows = Inr (sql_update (\<lambda>r. j_id r = j_id j) g rows)"
  using key_unique [OF assms(1)] assms(2,3) by (intro sql_update_res_total) metis

lemma fail_eq:
  assumes "db_inv d"
  shows "fail P now qn i out d =
    (case find (is_active qn i) (jobs d) of
       None \<Rightarrow> Inr (False, d)
     | Some j \<Rightarrow>
         if j_retry_count j < j_retry_limit j then
           rbind (pg_notify (channel P qn) (uuid_out i)
                   (d\<lparr>jobs := sql_update (\<lambda>r. j_id r = i) (retried now out) (jobs d)\<rparr>)) (\<lambda>d1. Inr (True, d1))
         else Inr (True, d\<lparr>jobs := sql_update (\<lambda>r. j_id r = i) (fail_row now out) (jobs d)\<rparr>))"
proof (cases "find (is_active qn i) (jobs d)")
  case None
  then show ?thesis by (simp add: fail_def)
next
  case (Some j)
  note j = find_active [OF assms Some]
  have "j_retry_count j < j_retry_limit j \<Longrightarrow>
      sql_update_res (\<lambda>r. j_id r = j_id j) (retry_row now out) (jobs d) =
      Inr (sql_update (\<lambda>r. j_id r = j_id j) (retried now out) (jobs d))"
    using assms j retry_row_eq [of j now out]
    by (intro update_res_one) (auto dest: db_inv_job db_inv_ids)
  with Some j(2) show ?thesis by (simp add: fail_def)
qed

lemma fail_inv [inv_intros]:
  assumes "db_inv d" "fail P now qn i out d = Inr (b, d')"
  shows "db_inv d'"
proof (cases "find (is_active qn i) (jobs d)")
  case None
  with assms show ?thesis by (simp add: fail_def)
next
  case (Some j)
  note j = find_active [OF assms(1) Some]
  have uniq: "r = j" if "r \<in> set (jobs d)" "j_id r = i" for r
    using that j key_unique [OF db_inv_ids [OF assms(1)]] by metis
  have wf: "job_wf j" using assms(1) j(1) by (rule db_inv_job)
  have retry: "j_retry_count j < j_retry_limit j \<Longrightarrow>
      db_inv (d\<lparr>jobs := sql_update (\<lambda>r. j_id r = i) (retried now out) (jobs d)\<rparr>)"
    using assms(1) uniq retried_wf [OF wf j(4)] by (intro db_inv_update) auto
  have failed: "db_inv (d\<lparr>jobs := sql_update (\<lambda>r. j_id r = i) (fail_row now out) (jobs d)\<rparr>)"
    using assms(1) uniq fail_row_wf [OF wf] by (intro db_inv_update) auto
  show ?thesis
    using assms(2) retry failed
    by (auto simp: fail_eq [OF assms(1)] Some split: if_splits dest!: pg_notify_jobs)
qed

lemma maintain_eq:
  assumes "db_inv d"
  shows "maintain now d =
    Inr (d\<lparr>jobs := sql_delete (purgeable now) (sql_update (expired now) (expire_job now) (jobs d))\<rparr>)"
proof -
  have "sql_update_res (expired now) (expire_row now) (jobs d) =
      Inr (sql_update (expired now) (expire_job now) (jobs d))"
    using assms by (intro sql_update_res_total expire_row_eq) (auto dest: db_inv_job)
  then show ?thesis by (simp add: maintain_def)
qed

lemma maintain_inv [inv_intros]:
  assumes "db_inv d" "maintain now d = Inr d'"
  shows "db_inv d'"
proof -
  have "db_inv (d\<lparr>jobs := sql_update (expired now) (expire_job now) (jobs d)\<rparr>)"
    using assms(1) by (intro db_inv_update) (auto dest: db_inv_job intro: expire_job_wf)
  from db_inv_delete [OF this, of "purgeable now"] show ?thesis
    using assms(2) by (simp add: maintain_eq [OF assms(1)])
qed

section \<open>The worker\<close>

text \<open>The transaction of the maintenance worker meets the contract its loop relies on.\<close>

interpretation maint: worker_store db_inv worker_tick
proof unfold_locales
  fix d :: db and w
  assume d: "db_inv d"
  show "\<exists>d'. worker_tick w d = Inr d' \<and> db_inv d'"
    using d maintain_eq [OF d, of "w_now w"] maintain_inv [OF d, of "w_now w"]
    by (cases "w_installed w") (auto simp: worker_tick_def perform_maintain_def)
qed

end
