(* ===== verification/Rows.thy ===== *)
theory Rows
  imports Invariants
begin

text \<open>
  What each operation does to one job: \<open>row d i\<close> is the row with id \<open>i\<close>, and every
  operation of the extension is described by an equation that gives \<open>row\<close> of the new
  database from \<open>row\<close> of the old one.
\<close>

definition row :: "db \<Rightarrow> uuid \<Rightarrow> job option" where
  "row d i = find (\<lambda>j. j_id j = i) (jobs d)"

definition ids :: "db \<Rightarrow> uuid set" where
  "ids d = j_id ` set (jobs d)"

lemma row_Some_iff: "db_inv d \<Longrightarrow> row d i = Some j \<longleftrightarrow> j \<in> set (jobs d) \<and> j_id j = i"
  using find_key_unique [OF db_inv_ids, of d j]
  by (auto simp: row_def find_Some_iff dest: nth_mem)

lemma row_SomeD: "row d i = Some j \<Longrightarrow> j \<in> set (jobs d) \<and> j_id j = i"
  by (auto simp: row_def find_Some_iff)

lemma row_None_iff: "row d i = None \<longleftrightarrow> i \<notin> ids d"
  by (auto simp: row_def ids_def find_None_iff)

lemma row_job: "db_inv d \<Longrightarrow> j \<in> set (jobs d) \<Longrightarrow> row d (j_id j) = Some j"
  by (simp add: row_Some_iff)

lemma row_wf: "db_inv d \<Longrightarrow> row d i = Some j \<Longrightarrow> job_wf j"
  by (simp add: row_Some_iff db_inv_job)

lemma row_cong [simp]:
  "row (d\<lparr>queues := q\<rparr>) i = row d i"
  "row (d\<lparr>notifies := n\<rparr>) i = row d i"
  by (simp_all add: row_def)

lemma find_sql_update:
  "(\<And>j. j \<in> set rows \<Longrightarrow> p j \<Longrightarrow> j_id (f j) = j_id j) \<Longrightarrow>
   find (\<lambda>j. j_id j = i) (sql_update p f rows) =
   map_option (\<lambda>j. if p j then f j else j) (find (\<lambda>j. j_id j = i) rows)"
  by (induction rows) (auto simp: sql_update_def)

lemma row_update:
  "(\<And>j. j \<in> set (jobs d) \<Longrightarrow> p j \<Longrightarrow> j_id (f j) = j_id j) \<Longrightarrow>
   row (d\<lparr>jobs := sql_update p f (jobs d)\<rparr>) i = map_option (\<lambda>j. if p j then f j else j) (row d i)"
  by (simp add: row_def find_sql_update)

lemma find_sql_delete:
  "distinct (map j_id rows) \<Longrightarrow>
   find (\<lambda>j. j_id j = i) (sql_delete p rows) =
   (case find (\<lambda>j. j_id j = i) rows of None \<Rightarrow> None | Some j \<Rightarrow> if p j then None else Some j)"
proof (induction rows)
  case (Cons r rows)
  have "j_id r = i \<Longrightarrow> find (\<lambda>j. j_id j = i) rows = None"
    using Cons.prems by (auto simp: find_None_iff image_iff)
  with Cons show ?case by (auto simp: sql_delete_def)
qed (simp add: sql_delete_def)

lemma row_delete:
  "distinct (map j_id (jobs d)) \<Longrightarrow>
   row (d\<lparr>jobs := sql_delete p (jobs d)\<rparr>) i =
   (case row d i of None \<Rightarrow> None | Some j \<Rightarrow> if p j then None else Some j)"
  by (simp add: row_def find_sql_delete)

lemma row_append:
  "row (d\<lparr>jobs := jobs d @ [j]\<rparr>) i =
   (case row d i of Some x \<Rightarrow> Some x | None \<Rightarrow> if j_id j = i then Some j else None)"
proof -
  have "find p (xs @ [y]) = (case find p xs of Some x \<Rightarrow> Some x | None \<Rightarrow> if p y then Some y else None)"
    for p :: "job \<Rightarrow> bool" and xs y
    by (induction xs) auto
  then show ?thesis by (simp add: row_def)
qed

section \<open>The operations, row by row\<close>

lemma create_queue_row [row_simps]: "row (snd (create_queue now name options d)) i = row d i"
  by (simp add: create_queue_def insert_queue_def Let_def)

lemma delete_queue_row [row_simps]:
  assumes "db_inv d"
  shows "row (snd (delete_queue name d)) i =
    (case row d i of None \<Rightarrow> None | Some j \<Rightarrow> if j_name j = name then None else Some j)"
  using row_delete [OF db_inv_ids [OF assms], of "\<lambda>j. j_name j = name" i]
  by (simp add: delete_queue_def row_def)

lemma send_row:
  assumes "send P now new_id qn data options d = Inr (v, d')"
  shows "row d new_id = None"
    and "\<exists>j. row d' new_id = Some j \<and> j_state j = Created \<and> j_name j = qn \<and> j_retry_count j = 0"
    and "i \<noteq> new_id \<Longrightarrow> row d' i = row d i"
proof -
  from assms have *: "row d new_id = None \<and>
    (\<exists>j. row d' new_id = Some j \<and> j_state j = Created \<and> j_name j = qn \<and> j_retry_count j = 0) \<and>
    (i \<noteq> new_id \<longrightarrow> row d' i = row d i)"
  proof (rule send_elim)
    fix q j
    assume j: "new_id \<notin> j_id ` set (jobs d)"
      "d' = d\<lparr>jobs := jobs d @ [j], notifies := notifies d @ [(channel P qn, uuid_out new_id)]\<rparr>"
      "j_id j = new_id" "j_state j = Created" "j_name j = qn" "j_retry_count j = 0"
    then have "row d new_id = None" by (simp add: row_None_iff ids_def)
    moreover have "row d' k = (case row d k of Some x \<Rightarrow> Some x | None \<Rightarrow> if new_id = k then Some j else None)"
      for k using row_append [of d j k] j by (simp add: row_def)
    ultimately show ?thesis using j by (auto split: option.splits)
  qed
  from * show "row d new_id = None" by blast
  from * show "\<exists>j. row d' new_id = Some j \<and> j_state j = Created \<and> j_name j = qn \<and> j_retry_count j = 0"
    by blast
  from * show "i \<noteq> new_id \<Longrightarrow> row d' i = row d i" by blast
qed

definition claimed :: "uuid list \<Rightarrow> int \<Rightarrow> string \<Rightarrow> int option \<Rightarrow> db \<Rightarrow> uuid \<Rightarrow> bool" where
  "claimed locked now qn n d i \<longleftrightarrow> i \<in> j_id ` set (fetch_next locked now qn n (jobs d))"

lemma fetch_db:
  "fetch locked now qn n d = Inr (js, d') \<Longrightarrow>
   d' = d\<lparr>jobs := sql_update (\<lambda>j. claimed locked now qn n d (j_id j)) (claim now) (jobs d)\<rparr>"
  by (auto simp: fetch_def claimed_def Let_def split: if_splits)

lemma fetch_rows:
  "fetch locked now qn n d = Inr (js, d') \<Longrightarrow>
   js = filter (\<lambda>j. claimed locked now qn n d (j_id j)) (jobs d')"
  by (auto simp: fetch_def claimed_def Let_def split: if_splits)

lemma fetch_row [row_simps]:
  assumes "fetch locked now qn n d = Inr (js, d')"
  shows "row d' i = (if claimed locked now qn n d i then map_option (claim now) (row d i) else row d i)"
proof -
  have "row d' i = map_option (\<lambda>j. if claimed locked now qn n d (j_id j) then claim now j else j) (row d i)"
    unfolding fetch_db [OF assms] by (rule row_update) simp
  then show ?thesis by (cases "row d i") (auto dest: row_SomeD)
qed

lemma claimed_row:
  assumes "db_inv d" "claimed locked now qn n d i"
  obtains j where "row d i = Some j" "fetchable now qn j" "i \<notin> set locked"
  using assms fetch_next_sub [of locked now qn n "jobs d"]
  by (auto simp: claimed_def row_Some_iff)

lemma fetch_result:
  assumes "db_inv d" "fetch locked now qn n d = Inr (js, d')"
  shows "set js = {claim now j |j. row d (j_id j) = Some j \<and> claimed locked now qn n d (j_id j)}"
    (is "_ = ?R")
proof (rule set_eqI)
  fix x
  have "x \<in> set js \<longleftrightarrow> row d' (j_id x) = Some x \<and> claimed locked now qn n d (j_id x)"
    using fetch_rows [OF assms(2)] row_Some_iff [OF fetch_inv [OF assms], of "j_id x" x] by auto
  also have "\<dots> \<longleftrightarrow> (\<exists>j. row d (j_id x) = Some j \<and> x = claim now j \<and> claimed locked now qn n d (j_id x))"
    by (auto simp: fetch_row [OF assms(2)])
  also have "\<dots> \<longleftrightarrow> x \<in> ?R"
    by (auto dest: row_SomeD)
  finally show "x \<in> set js \<longleftrightarrow> x \<in> ?R" .
qed

lemma fetch_ids_iff:
  assumes "db_inv d" "fetch locked now qn n d = Inr (js, d')"
  shows "i \<in> j_id ` set js \<longleftrightarrow> claimed locked now qn n d i"
proof
  assume "i \<in> j_id ` set js"
  then show "claimed locked now qn n d i" unfolding fetch_result [OF assms] by auto
next
  assume c: "claimed locked now qn n d i"
  then obtain j where j: "row d i = Some j" by (rule claimed_row [OF assms(1)])
  then have "j_id j = i" by (auto dest: row_SomeD)
  then have "claim now j \<in> set js" using c j unfolding fetch_result [OF assms] by auto
  then show "i \<in> j_id ` set js" using \<open>j_id j = i\<close> by (metis claim_fields(1) imageI)
qed

lemma fetch_ids_distinct:
  assumes "db_inv d" "fetch locked now qn n d = Inr (js, d')"
  shows "distinct (map j_id js)"
  using fetch_rows [OF assms(2)] db_inv_ids [OF fetch_inv [OF assms]]
  by (simp add: distinct_map_filter)

definition completed :: "int \<Rightarrow> json option \<Rightarrow> job \<Rightarrow> job" where
  "completed now out j = j\<lparr>j_state := Completed, j_completed_on := Some now, j_output := out\<rparr>"

lemma completed_fields [row_simps, simp]:
  "j_id (completed now out j) = j_id j"
  "j_name (completed now out j) = j_name j"
  "j_state (completed now out j) = Completed"
  "j_retry_count (completed now out j) = j_retry_count j"
  "j_retry_limit (completed now out j) = j_retry_limit j"
  by (simp_all add: completed_def)

lemma complete_row [row_simps]:
  "row (snd (complete now qn i out d)) k =
   map_option (\<lambda>j. if is_active qn i j then completed now out j else j) (row d k)"
  unfolding complete_def Let_def snd_conv completed_def
  by (rule row_update) simp

lemma active_row:
  assumes "db_inv d"
  shows "find (is_active qn i) (jobs d) = Some j \<longleftrightarrow> row d i = Some j \<and> j_name j = qn \<and> j_state j = Active"
    (is "?L \<longleftrightarrow> ?R")
proof
  assume ?L
  from find_active [OF assms this] show ?R by (simp add: row_Some_iff assms)
next
  assume R: ?R
  then have j: "j \<in> set (jobs d)" "is_active qn i j"
    by (simp_all add: row_Some_iff assms is_active_def)
  then obtain k where k: "find (is_active qn i) (jobs d) = Some k"
    using find_None_iff [of "is_active qn i" "jobs d"]
    by (cases "find (is_active qn i) (jobs d)") auto
  from find_active [OF assms this] R show ?L
    using k by (simp add: row_Some_iff assms) (metis db_inv_ids key_unique [OF db_inv_ids] assms)
qed

lemma complete_result:
  assumes "db_inv d"
  shows "fst (complete now qn i out d) \<longleftrightarrow> (\<exists>j. row d i = Some j \<and> j_name j = qn \<and> j_state j = Active)"
  by (auto simp: complete_def Let_def sql_count_pos is_active_def row_Some_iff [OF assms])

text \<open>The three outcomes of a successful \<open>fail\<close>: no such active job, retry, failure.\<close>

lemma fail_elim:
  assumes "db_inv d" "fail P now qn i out d = Inr (b, d')"
  obtains (missing) "\<not> b" "d' = d" "\<And>j. row d i = Some j \<Longrightarrow> \<not> is_active qn i j"
    | (retry) j where "b" "row d i = Some j" "is_active qn i j" "j_retry_count j < j_retry_limit j"
        "d' = d\<lparr>jobs := sql_update (\<lambda>r. j_id r = i) (retried now out) (jobs d),
               notifies := notifies d @ [(channel P qn, uuid_out i)]\<rparr>"
    | (failed) j where "b" "row d i = Some j" "is_active qn i j" "\<not> j_retry_count j < j_retry_limit j"
        "d' = d\<lparr>jobs := sql_update (\<lambda>r. j_id r = i) (fail_row now out) (jobs d)\<rparr>"
proof (cases "find (is_active qn i) (jobs d)")
  case None
  then have "\<not> is_active qn i j" if "row d i = Some j" for j
    using that by (auto simp: find_None_iff dest: row_SomeD)
  with missing show ?thesis using assms(2) None by (simp add: fail_def)
next
  case (Some j)
  then have j: "row d i = Some j" "is_active qn i j"
    by (auto simp: active_row assms(1) is_active_def dest: row_SomeD)
  show ?thesis
  proof (cases "j_retry_count j < j_retry_limit j")
    case True
    then show ?thesis
      using assms(2) j retry by (auto simp: fail_eq [OF assms(1)] Some dest!: pg_notify_jobs)
  next
    case False
    then show ?thesis
      using assms(2) j failed by (simp add: fail_eq [OF assms(1)] Some)
  qed
qed

lemma row_update_one:
  "(\<And>j. j_id (g j) = j_id j) \<Longrightarrow> row (d\<lparr>jobs := sql_update (\<lambda>r. j_id r = i) g (jobs d)\<rparr>) k =
   (if k = i then map_option g (row d i) else row d k)"
  by (cases "row d k") (auto simp: row_update dest: row_SomeD)

definition failed :: "int \<Rightarrow> json option \<Rightarrow> job \<Rightarrow> job" where
  "failed now out j =
     (if j_retry_count j < j_retry_limit j then retried now out j else fail_row now out j)"

lemma failed_id [simp]: "j_id (failed now out j) = j_id j"
  by (simp add: failed_def)

lemma fail_row_db:
  assumes "db_inv d" "fail P now qn i out d = Inr (b, d')"
  shows "row d' k = map_option (\<lambda>j. if is_active qn i j then failed now out j else j) (row d k)"
    and "b \<longleftrightarrow> (\<exists>j. row d i = Some j \<and> j_name j = qn \<and> j_state j = Active)"
proof -
  have other: "is_active qn i j \<Longrightarrow> row d k = Some j \<Longrightarrow> k = i" for j
    by (auto simp: is_active_def dest: row_SomeD)
  show "row d' k = map_option (\<lambda>j. if is_active qn i j then failed now out j else j) (row d k)"
    using assms
  proof (cases rule: fail_elim)
    case missing
    then show ?thesis using other by (cases "row d k") auto
  next
    case (retry j)
    then show ?thesis
      using other row_update_one [where g = "retried now out" and d = d and i = i and k = k]
      by (cases "row d k") (auto simp: failed_def)
  next
    case (failed j)
    then show ?thesis
      using other row_update_one [where g = "fail_row now out" and d = d and i = i and k = k]
      by (cases "row d k") (auto simp: failed_def)
  qed
  show "b \<longleftrightarrow> (\<exists>j. row d i = Some j \<and> j_name j = qn \<and> j_state j = Active)"
    using assms by (cases rule: fail_elim) (auto simp: is_active_def dest: row_SomeD)
qed

definition maintained :: "int \<Rightarrow> job \<Rightarrow> job" where
  "maintained now j = (if expired now j then expire_job now j else j)"

lemma maintain_row:
  assumes "db_inv d" "maintain now d = Inr d'"
  shows "row d' i =
    (case row d i of
       None \<Rightarrow> None
     | Some j \<Rightarrow> if purgeable now (maintained now j) then None else Some (maintained now j))"
proof -
  let ?u = "d\<lparr>jobs := sql_update (expired now) (expire_job now) (jobs d)\<rparr>"
  have "db_inv ?u"
    using assms(1) by (intro db_inv_update) (auto dest: db_inv_job intro: expire_job_wf)
  from row_delete [OF db_inv_ids [OF this], of "purgeable now" i]
  have "row d' i = (case row ?u i of None \<Rightarrow> None | Some j \<Rightarrow> if purgeable now j then None else Some j)"
    using assms by (auto simp: maintain_eq row_def)
  moreover have "row ?u i = map_option (maintained now) (row d i)"
    unfolding maintained_def by (rule row_update) simp
  ultimately show ?thesis by (cases "row d i") auto
qed

end
