(* ===== verification/Operations.thy ===== *)
theory Operations
  imports Rows
begin

text \<open>
  The extension as a transition system: one constructor of \<open>op\<close> per SQL-callable function,
  \<open>exec_op\<close> runs one call as a transaction at a given time, \<open>run_ops\<close> a sequence of
  transactions, where an aborted one leaves the database as it was. Both run functions are
  generic in the transaction they run.

  Three interfaces follow, each a locale with the laws a store promises and what follows
  from them for every run: \<open>store\<close> (an invariant), \<open>claim_store\<close> (no claim is delivered
  twice) and \<open>budget_store\<close> (claims are paid from a budget). They are interpreted on the
  extension in Operations and Delivery.
\<close>

section \<open>Runs\<close>

fun run_ops :: "('o \<Rightarrow> 'd \<Rightarrow> 'e + ('r \<times> 'd)) \<Rightarrow> 'o list \<Rightarrow> 'd \<Rightarrow> 'd" where
  "run_ops exec [] d = d"
| "run_ops exec (x # xs) d =
     (case exec x d of Inl e \<Rightarrow> run_ops exec xs d | Inr (r, d') \<Rightarrow> run_ops exec xs d')"

fun run_replies :: "('o \<Rightarrow> 'd \<Rightarrow> 'e + ('r \<times> 'd)) \<Rightarrow> 'o list \<Rightarrow> 'd \<Rightarrow> 'r list" where
  "run_replies exec [] d = []"
| "run_replies exec (x # xs) d =
     (case exec x d of Inl e \<Rightarrow> run_replies exec xs d | Inr (r, d') \<Rightarrow> r # run_replies exec xs d')"

section \<open>Interfaces\<close>

locale store =
  fixes inv :: "'d \<Rightarrow> bool"
    and exec :: "'o \<Rightarrow> 'd \<Rightarrow> 'e + ('r \<times> 'd)"
  assumes exec_inv: "inv d \<Longrightarrow> exec x d = Inr (r, d') \<Longrightarrow> inv d'"
begin

lemma run_inv: "inv d \<Longrightarrow> inv (run_ops exec xs d)"
  by (induction xs arbitrary: d) (auto split: sum.splits dest: exec_inv)

end

text \<open>
  A store that hands out claims: \<open>given r\<close> lists the claims of a reply, \<open>spent d k\<close> says that
  claim \<open>k\<close> can no longer be handed out, and a claim belongs to an object (\<open>owner k\<close>) that is
  in the store while it is handed out and enters it only by an operation that creates it.
\<close>

locale claim_store = store inv exec
  for inv :: "'d \<Rightarrow> bool" and exec :: "'o \<Rightarrow> 'd \<Rightarrow> 'e + ('r \<times> 'd)" +
  fixes given :: "'r \<Rightarrow> 'k list"
    and spent :: "'d \<Rightarrow> 'k \<Rightarrow> bool"
    and owner :: "'k \<Rightarrow> 'i"
    and present :: "'d \<Rightarrow> 'i set"
    and creates :: "'o \<Rightarrow> 'i list"
  assumes given_unspent:
      "inv d \<Longrightarrow> exec x d = Inr (r, d') \<Longrightarrow> k \<in> set (given r) \<Longrightarrow> \<not> spent d k \<and> owner k \<in> present d"
    and given_spent: "inv d \<Longrightarrow> exec x d = Inr (r, d') \<Longrightarrow> k \<in> set (given r) \<Longrightarrow> spent d' k"
    and given_distinct: "inv d \<Longrightarrow> exec x d = Inr (r, d') \<Longrightarrow> distinct (given r)"
    and spent_stays: "inv d \<Longrightarrow> exec x d = Inr (r, d') \<Longrightarrow> owner k \<notin> set (creates x) \<Longrightarrow>
      spent d k \<Longrightarrow> spent d' k"
    and present_grows: "inv d \<Longrightarrow> exec x d = Inr (r, d') \<Longrightarrow> present d' \<subseteq> present d \<union> set (creates x)"
begin

lemma spent_not_given:
  "inv d \<Longrightarrow> spent d k \<Longrightarrow> owner k \<notin> set (concat (map creates xs)) \<Longrightarrow>
   k \<notin> set (concat (map given (run_replies exec xs d)))"
proof (induction xs arbitrary: d)
  case (Cons x xs)
  show ?case
  proof (cases "exec x d")
    case (Inr y)
    then obtain r d' where x: "exec x d = Inr (r, d')" by (cases y) auto
    with Cons.prems show ?thesis
      using Cons.IH [of d'] exec_inv [OF _ x] spent_stays [OF _ x] given_unspent [OF _ x] by auto
  qed (use Cons in simp)
qed simp

theorem given_once:
  assumes "inv d" "distinct (concat (map creates xs))"
    and "present d \<inter> set (concat (map creates xs)) = {}"
  shows "distinct (concat (map given (run_replies exec xs d)))"
  using assms
proof (induction xs arbitrary: d)
  case (Cons x xs)
  show ?case
  proof (cases "exec x d")
    case (Inr y)
    then obtain r d' where x: "exec x d = Inr (r, d')" by (cases y) auto
    have d': "inv d'" using Cons.prems(1) x by (rule exec_inv)
    have "present d' \<inter> set (concat (map creates xs)) = {}"
      using Cons.prems(2,3) present_grows [OF Cons.prems(1) x] by fastforce
    then have "distinct (concat (map given (run_replies exec xs d')))"
      using Cons.prems(2) d' by (intro Cons.IH) auto
    moreover have "k \<notin> set (concat (map given (run_replies exec xs d')))" if "k \<in> set (given r)" for k
      using that d' given_spent [OF Cons.prems(1) x] given_unspent [OF Cons.prems(1) x] Cons.prems(3)
      by (intro spent_not_given) auto
    ultimately show ?thesis
      using x given_distinct [OF Cons.prems(1) x] by auto
  qed (use Cons in \<open>auto simp: Int_Un_distrib\<close>)
qed simp

end

text \<open>A store where every claim of an object is paid from a budget the object was created with.\<close>

locale budget_store = store inv exec
  for inv :: "'d \<Rightarrow> bool" and exec :: "'o \<Rightarrow> 'd \<Rightarrow> 'e + ('r \<times> 'd)" +
  fixes budget :: "'d \<Rightarrow> 'i \<Rightarrow> nat"
    and cost :: "'r \<Rightarrow> 'i \<Rightarrow> nat"
    and creates :: "'o \<Rightarrow> 'i list"
  assumes pays: "inv d \<Longrightarrow> exec x d = Inr (r, d') \<Longrightarrow> i \<notin> set (creates x) \<Longrightarrow>
      budget d' i + cost r i \<le> budget d i"
begin

theorem total_cost:
  assumes "inv d" "i \<notin> set (concat (map creates xs))"
  shows "budget (run_ops exec xs d) i + sum_list (map (\<lambda>r. cost r i) (run_replies exec xs d)) \<le> budget d i"
  using assms
proof (induction xs arbitrary: d)
  case (Cons x xs)
  show ?case
  proof (cases "exec x d")
    case (Inr y)
    then obtain r d' where x: "exec x d = Inr (r, d')" by (cases y) auto
    have "budget d' i + cost r i \<le> budget d i"
      using Cons.prems x by (intro pays) auto
    moreover have "budget (run_ops exec xs d') i
        + sum_list (map (\<lambda>r. cost r i) (run_replies exec xs d')) \<le> budget d' i"
      using Cons.prems exec_inv [OF Cons.prems(1) x] by (intro Cons.IH) auto
    ultimately show ?thesis using x by simp
  qed (use Cons in simp)
qed simp

end

section \<open>The operations of the extension\<close>

datatype op =
    OpCreateQueue string json
  | OpDeleteQueue string
  | OpSend uuid string "json option" "json option"
  | OpFetch "uuid list" string "int option"
  | OpComplete string uuid "json option"
  | OpFail string uuid "json option"
  | OpGetQueues
  | OpMaintain

datatype reply =
    RBool bool
  | RUuid uuid
  | RJobs "job list"
  | RQueues "queue list"
  | RUnit

fun exec_op :: "pg \<Rightarrow> int \<times> op \<Rightarrow> db \<Rightarrow> pg_error + (reply \<times> db)" where
  "exec_op P (now, OpCreateQueue name options) d =
     (let (b, d') = create_queue now name options d in Inr (RBool b, d'))"
| "exec_op P (now, OpDeleteQueue name) d = (let (b, d') = delete_queue name d in Inr (RBool b, d'))"
| "exec_op P (now, OpSend i qn data options) d =
     rbind (send P now i qn data options d) (\<lambda>(v, d'). Inr (RUuid v, d'))"
| "exec_op P (now, OpFetch locked qn n) d =
     rbind (fetch locked now qn n d) (\<lambda>(js, d'). Inr (RJobs js, d'))"
| "exec_op P (now, OpComplete qn i out) d =
     (let (b, d') = complete now qn i out d in Inr (RBool b, d'))"
| "exec_op P (now, OpFail qn i out) d =
     rbind (fail P now qn i out d) (\<lambda>(b, d'). Inr (RBool b, d'))"
| "exec_op P (now, OpGetQueues) d = Inr (RQueues (get_queues P d), d)"
| "exec_op P (now, OpMaintain) d = rbind (maintain now d) (\<lambda>d'. Inr (RUnit, d'))"

fun op_creates :: "int \<times> op \<Rightarrow> uuid list" where
  "op_creates (now, OpSend i qn data options) = [i]"
| "op_creates (now, _) = []"

fun reply_jobs :: "reply \<Rightarrow> job list" where
  "reply_jobs (RJobs js) = js"
| "reply_jobs _ = []"

text \<open>The successful outcomes of a call, one rule per operation.\<close>

lemma exec_op_cases:
  assumes "exec_op P x d = Inr (r, d')"
  obtains (create) now name options where "x = (now, OpCreateQueue name options)"
      "r = RBool (fst (create_queue now name options d))" "d' = snd (create_queue now name options d)"
    | (delete) now name where "x = (now, OpDeleteQueue name)"
      "r = RBool True" "d' = snd (delete_queue name d)"
    | (send) now i qn data options v where "x = (now, OpSend i qn data options)"
      "send P now i qn data options d = Inr (v, d')" "r = RUuid v"
    | (fetch) now locked qn n js where "x = (now, OpFetch locked qn n)"
      "fetch locked now qn n d = Inr (js, d')" "r = RJobs js"
    | (complete) now qn i out where "x = (now, OpComplete qn i out)"
      "r = RBool (fst (complete now qn i out d))" "d' = snd (complete now qn i out d)"
    | (fail) now qn i out b where "x = (now, OpFail qn i out)"
      "fail P now qn i out d = Inr (b, d')" "r = RBool b"
    | (queues) now where "x = (now, OpGetQueues)" "r = RQueues (get_queues P d)" "d' = d"
    | (maintain) now where "x = (now, OpMaintain)" "maintain now d = Inr d'" "r = RUnit"
proof -
  obtain now y where x: "x = (now, y)" by (cases x)
  note y = assms [unfolded x]
  show ?thesis
  proof (cases y)
    case (OpCreateQueue name options)
    with y show ?thesis by (intro create [OF x [unfolded OpCreateQueue]]) (simp_all split: prod.splits)
  next
    case (OpDeleteQueue name)
    with y show ?thesis
      by (intro delete [OF x [unfolded OpDeleteQueue]]) (simp_all add: delete_queue_def)
  next
    case (OpSend i qn data options)
    with y obtain v where "send P now i qn data options d = Inr (v, d')" "r = RUuid v" by auto
    then show ?thesis by (rule send [OF x [unfolded OpSend]])
  next
    case (OpFetch locked qn n)
    with y obtain js where "fetch locked now qn n d = Inr (js, d')" "r = RJobs js" by auto
    then show ?thesis by (rule fetch [OF x [unfolded OpFetch]])
  next
    case (OpComplete qn i out)
    with y show ?thesis by (intro complete [OF x [unfolded OpComplete]]) (simp_all split: prod.splits)
  next
    case (OpFail qn i out)
    with y obtain b where "fail P now qn i out d = Inr (b, d')" "r = RBool b" by auto
    then show ?thesis by (rule fail [OF x [unfolded OpFail]])
  next
    case OpGetQueues
    with y show ?thesis by (intro queues [OF x [unfolded OpGetQueues]]) auto
  next
    case OpMaintain
    with y show ?thesis by (intro maintain [OF x [unfolded OpMaintain]]) simp_all
  qed
qed

lemma exec_op_inv:
  assumes "db_inv d" "exec_op P x d = Inr (r, d')"
  shows "db_inv d'"
  using assms(2)
  by (cases rule: exec_op_cases) (use assms(1) in \<open>auto intro: inv_intros\<close>)

interpretation ext: store db_inv "exec_op P" for P
  by unfold_locales (rule exec_op_inv)

end
