(* ===== verification/Lifecycle.thy ===== *)
theory Lifecycle
  imports Operations
begin

text \<open>
  The life of one job, as the comment on \<open>boss.job_state\<close> in src/src/schema.rs promises it
  (\<open>created -> active -> (completed | retry | failed)\<close>): an abstract machine without clocks,
  queues or payloads, and the refinement of every operation of the extension to it.

  The state counts the retries that are left, so that the machine itself says how often a
  job can be claimed (\<open>tries\<close>).
\<close>

datatype ajob = Absent | Waiting nat | Running nat | Succeeded | Exhausted

datatype action = Enqueue nat | Claim | Finish | Reschedule | Give_Up | Purge | Drop

fun astep :: "action \<Rightarrow> ajob \<Rightarrow> ajob option" where
  "astep (Enqueue n) Absent = Some (Waiting n)"
| "astep Claim (Waiting n) = Some (Running n)"
| "astep Finish (Running n) = Some Succeeded"
| "astep Reschedule (Running (Suc n)) = Some (Waiting n)"
| "astep Give_Up (Running 0) = Some Exhausted"
| "astep Purge Succeeded = Some Absent"
| "astep Purge Exhausted = Some Absent"
| "astep Drop a = Some Absent"
| "astep _ _ = None"

fun arun :: "action list \<Rightarrow> ajob \<Rightarrow> ajob option" where
  "arun [] a = Some a"
| "arun (x # xs) a = Option.bind (astep x a) (arun xs)"

lemma arun_append: "arun (xs @ ys) a = Option.bind (arun xs a) (arun ys)"
  by (induction xs arbitrary: a) (auto split: Option.bind_splits)

fun tries :: "ajob \<Rightarrow> nat" where
  "tries Absent = 0"
| "tries (Waiting n) = Suc n"
| "tries (Running n) = n"
| "tries Succeeded = 0"
| "tries Exhausted = 0"

fun enqueues :: "action \<Rightarrow> bool" where
  "enqueues (Enqueue n) = True"
| "enqueues _ = False"

lemma astep_tries:
  "astep x a = Some b \<Longrightarrow> \<not> enqueues x \<Longrightarrow> tries b + (if x = Claim then 1 else 0) \<le> tries a"
  by (induction x a rule: astep.induct) auto

lemma arun_tries:
  "arun xs a = Some b \<Longrightarrow> \<not> list_ex enqueues xs \<Longrightarrow> tries b + count_list xs Claim \<le> tries a"
proof (induction xs arbitrary: a)
  case (Cons x xs)
  then obtain c where c: "astep x a = Some c" "arun xs c = Some b"
    by (auto simp: Option.bind_eq_Some_conv)
  have "\<not> enqueues x" "\<not> list_ex enqueues xs" using Cons.prems(2) by auto
  with astep_tries [OF c(1)] Cons.IH [OF c(2)]
  have "tries c + (if x = Claim then 1 else 0) \<le> tries a" "tries b + count_list xs Claim \<le> tries c"
    by blast+
  then show ?case by auto
qed simp

section \<open>The abstraction\<close>

definition retries_left :: "job \<Rightarrow> nat" where
  "retries_left j = nat (j_retry_limit j - j_retry_count j)"

definition abs_job :: "job option \<Rightarrow> ajob" where
  "abs_job r =
     (case r of
        None \<Rightarrow> Absent
      | Some j \<Rightarrow>
          (case j_state j of
             Created \<Rightarrow> Waiting (retries_left j)
           | Retry \<Rightarrow> Waiting (retries_left j)
           | Active \<Rightarrow> Running (retries_left j)
           | Completed \<Rightarrow> Succeeded
           | Cancelled \<Rightarrow> Exhausted
           | Failed \<Rightarrow> Exhausted))"

lemma abs_job_None [simp]: "abs_job None = Absent"
  by (simp add: abs_job_def)

lemma abs_claim: "fetchable t q j \<Longrightarrow> arun [Claim] (abs_job (Some j)) = Some (abs_job (Some (claim now j)))"
  by (auto simp: abs_job_def fetchable_def retries_left_def)

lemma abs_completed:
  "j_state j = Active \<Longrightarrow> arun [Finish] (abs_job (Some j)) = Some (abs_job (Some (completed now out j)))"
  by (simp add: abs_job_def)

definition failure :: "job \<Rightarrow> action" where
  "failure j = (if j_retry_count j < j_retry_limit j then Reschedule else Give_Up)"

lemma abs_failed:
  assumes "j_state j = Active"
  shows "arun [failure j] (abs_job (Some j)) = Some (abs_job (Some (failed now out j)))"
proof (cases "j_retry_count j < j_retry_limit j")
  case True
  then have "retries_left j = Suc (nat (j_retry_limit j - (j_retry_count j + 1)))"
    by (simp add: retries_left_def)
  with True assms show ?thesis
    by (simp add: abs_job_def failure_def failed_def) (simp add: retries_left_def)
next
  case False
  then have "retries_left j = 0" by (simp add: retries_left_def)
  with False assms show ?thesis by (simp add: abs_job_def failure_def failed_def)
qed

lemma expire_job_failed: "expire_job now j = failed now (expired_output j) j"
  by (simp add: expire_job_def failed_def)

lemma abs_purge: "purgeable now j \<Longrightarrow> arun [Purge] (abs_job (Some j)) = Some Absent"
  by (auto simp: purgeable_def abs_job_def)

lemma abs_maintained:
  "arun (if expired now j then [failure j] else []) (abs_job (Some j)) = Some (abs_job (Some (maintained now j)))"
  using abs_failed [of j now "expired_output j"]
  by (simp add: maintained_def expire_job_failed expired_def)

section \<open>Refinement\<close>

text \<open>The actions an operation may cause on a job.\<close>

fun allowed :: "op \<Rightarrow> action \<Rightarrow> bool" where
  "allowed (OpSend i qn data options) x = enqueues x"
| "allowed (OpFetch locked qn n) x = (x = Claim)"
| "allowed (OpComplete qn i out) x = (x = Finish)"
| "allowed (OpFail qn i out) x = (x = Reschedule \<or> x = Give_Up)"
| "allowed OpMaintain x = (x = Reschedule \<or> x = Give_Up \<or> x = Purge)"
| "allowed (OpDeleteQueue name) x = (x = Drop)"
| "allowed (OpCreateQueue name options) x = False"
| "allowed OpGetQueues x = False"

definition delivered_to :: "reply \<Rightarrow> uuid \<Rightarrow> nat" where
  "delivered_to r i = length (filter (\<lambda>j. j_id j = i) (reply_jobs r))"

lemma delivered_to_simps [simp]:
  "delivered_to (RBool b) i = 0"
  "delivered_to (RUuid u) i = 0"
  "delivered_to (RQueues q) i = 0"
  "delivered_to RUnit i = 0"
  by (simp_all add: delivered_to_def)

lemma length_filter_key:
  "distinct (map k xs) \<Longrightarrow> length (filter (\<lambda>x. k x = i) xs) = (if i \<in> k ` set xs then 1 else 0)"
  by (induction xs) (auto simp: filter_empty_conv)

lemma fetch_delivered:
  assumes "db_inv d" "fetch locked now qn n d = Inr (js, d')"
  shows "delivered_to (RJobs js) i = (if claimed locked now qn n d i then 1 else 0)"
  using length_filter_key [OF fetch_ids_distinct [OF assms], of i]
  by (simp add: delivered_to_def fetch_ids_iff [OF assms])

definition refines :: "op \<Rightarrow> nat \<Rightarrow> job option \<Rightarrow> job option \<Rightarrow> bool" where
  "refines y n a b \<longleftrightarrow>
     (\<exists>as. arun as (abs_job a) = Some (abs_job b) \<and> list_all (allowed y) as \<and> count_list as Claim = n)"

lemma refinesI:
  "arun as (abs_job a) = Some (abs_job b) \<Longrightarrow> list_all (allowed y) as \<Longrightarrow> count_list as Claim = n \<Longrightarrow>
   refines y n a b"
  by (auto simp: refines_def)

lemma refines_same: "refines y 0 a a"
  by (rule refinesI [of "[]"]) simp_all

lemma exec_op_refines:
  assumes "db_inv d" "exec_op P x d = Inr (r, d')"
  shows "refines (snd x) (delivered_to r i) (row d i) (row d' i)"
  using assms(2)
proof (cases rule: exec_op_cases)
  case create
  then show ?thesis by (simp add: create_queue_row refines_same)
next
  case (delete now name)
  then show ?thesis
    using refinesI [of "[Drop]" "row d i" None "snd x" 0]
    by (auto simp: delete_queue_row [OF assms(1)] refines_same split: option.splits)
next
  case (send now k qn data options v)
  show ?thesis
  proof (cases "i = k")
    case True
    from send_row [OF send(2)] obtain j where
      "row d k = None" "row d' k = Some j" "j_state j = Created" by blast
    then show ?thesis
      using send True
      by (intro refinesI [of "[Enqueue (retries_left j)]"]) (simp_all add: abs_job_def)
  next
    case False
    with send send_row(3) [OF send(2), of i] show ?thesis by (simp add: refines_same)
  qed
next
  case (fetch now locked qn n js)
  show ?thesis
  proof (cases "claimed locked now qn n d i")
    case True
    then obtain j where "row d i = Some j" "fetchable now qn j"
      using claimed_row [OF assms(1)] by blast
    then show ?thesis
      using fetch True abs_claim [of now qn j now]
      by (intro refinesI [of "[Claim]"])
        (simp_all add: fetch_row [OF fetch(2)] fetch_delivered [OF assms(1) fetch(2)])
  next
    case False
    then show ?thesis
      using fetch by (simp add: fetch_row [OF fetch(2)] fetch_delivered [OF assms(1) fetch(2)] refines_same)
  qed
next
  case (complete now qn k out)
  then show ?thesis
    using abs_completed [of _ now out]
    by (cases "row d i")
      (auto simp: complete_row refines_same is_active_def intro!: refinesI [of "[Finish]"])
next
  case (fail now qn k out b)
  note row' = fail_row_db(1) [OF assms(1) fail(2), of i]
  show ?thesis
  proof (cases "\<exists>j. row d i = Some j \<and> is_active qn k j")
    case True
    then obtain j where j: "row d i = Some j" "is_active qn k j" by blast
    then have "arun [failure j] (abs_job (row d i)) = Some (abs_job (row d' i))"
      using abs_failed [of j now out] by (simp add: row' is_active_def)
    then show ?thesis
      by (rule refinesI) (simp_all add: fail failure_def)
  next
    case False
    then have "row d' i = row d i" using row' by (cases "row d i") auto
    then show ?thesis using fail by (simp add: refines_same)
  qed
next
  case queues
  then show ?thesis by (simp add: refines_same)
next
  case (maintain now)
  show ?thesis
  proof (cases "row d i")
    case None
    then show ?thesis using maintain by (simp add: maintain_row [OF assms(1) maintain(2)] refines_same)
  next
    case (Some j)
    let ?e = "if expired now j then [failure j] else []"
    let ?p = "if purgeable now (maintained now j) then [Purge] else []"
    have "arun (?e @ ?p) (abs_job (row d i)) = Some (abs_job (row d' i))"
      using Some abs_maintained [of now j] abs_purge [of now "maintained now j"]
      by (simp add: arun_append maintain_row [OF assms(1) maintain(2)])
    then show ?thesis
      using maintain by (intro refinesI [of "?e @ ?p"]) (auto simp: failure_def)
  qed
qed

end
