(* ===== verification/Delivery.thy ===== *)
theory Delivery
  imports Lifecycle
begin

text \<open>
  Delivery guarantees over whole runs: no attempt of a job is delivered twice, and a job is
  delivered at most once more than it may be retried. The two interfaces of Operations are
  interpreted on the extension; a claim is the pair of the job's id and its attempt number
  (\<open>retry_count\<close>), its budget is \<open>tries\<close> of the abstract job.
\<close>

definition claims :: "reply \<Rightarrow> (uuid \<times> int) list" where
  "claims r = map (\<lambda>j. (j_id j, j_retry_count j)) (reply_jobs r)"

definition waiting :: "job \<Rightarrow> bool" where
  "waiting j \<longleftrightarrow> j_state j = Created \<or> j_state j = Retry"

definition spent :: "db \<Rightarrow> uuid \<times> int \<Rightarrow> bool" where
  "spent d k =
     (case row d (fst k) of
        None \<Rightarrow> True
      | Some j \<Rightarrow> snd k < j_retry_count j \<or> snd k = j_retry_count j \<and> \<not> waiting j)"

lemma claims_simps [simp]:
  "claims (RBool b) = []"
  "claims (RUuid u) = []"
  "claims (RQueues q) = []"
  "claims RUnit = []"
  "claims (RJobs js) = map (\<lambda>j. (j_id j, j_retry_count j)) js"
  by (simp_all add: claims_def)

lemma claims_fetch:
  assumes "exec_op P x d = Inr (r, d')" "k \<in> set (claims r)"
  obtains now locked qn n js where "x = (now, OpFetch locked qn n)"
    "fetch locked now qn n d = Inr (js, d')" "r = RJobs js" "k \<in> set (claims (RJobs js))"
  using assms by (cases rule: exec_op_cases) auto

lemma fetch_claim_row:
  assumes "db_inv d" "fetch locked now qn n d = Inr (js, d')" "k \<in> set (claims (RJobs js))"
  obtains j where "row d (fst k) = Some j" "waiting j" "snd k = j_retry_count j"
    "row d' (fst k) = Some (claim now j)"
proof -
  from assms(3) obtain x where x: "x \<in> set js" "k = (j_id x, j_retry_count x)" by auto
  then obtain j where j: "x = claim now j" "row d (j_id j) = Some j" "claimed locked now qn n d (j_id j)"
    unfolding fetch_result [OF assms(1,2)] by auto
  moreover obtain j' where "row d (j_id j) = Some j'" "fetchable now qn j'"
    using claimed_row [OF assms(1) j(3)] by blast
  ultimately show ?thesis
    using x by (intro that [of j]) (auto simp: fetch_row [OF assms(2)] fetchable_def waiting_def)
qed

lemma fetch_claims_distinct:
  assumes "db_inv d" "fetch locked now qn n d = Inr (js, d')"
  shows "distinct (claims (RJobs js))"
proof -
  have "distinct (map fst (claims (RJobs js)))"
    using fetch_ids_distinct [OF assms] by (simp add: comp_def)
  then show ?thesis unfolding distinct_map by blast
qed

text \<open>An operation never makes a spent claim available again, unless it creates the job.\<close>


lemma exec_op_spent:
  assumes "db_inv d" "exec_op P x d = Inr (r, d')" "fst k \<notin> set (op_creates x)" "spent d k"
  shows "spent d' k"
  using assms(2)
proof (cases rule: exec_op_cases)
  case create
  with assms(4) show ?thesis by (simp add: spent_def create_queue_row)
next
  case delete
  with assms(4) show ?thesis
    by (auto simp: spent_def delete_queue_row [OF assms(1)] split: option.splits)
next
  case (send now i qn data options v)
  with assms(3,4) send_row(3) [OF send(2)] show ?thesis by (simp add: spent_def)
next
  case (fetch now locked qn n js)
  with assms(4) show ?thesis
    by (auto simp: spent_def fetch_row [OF fetch(2)] waiting_def split: option.splits)
next
  case complete
  with assms(4) show ?thesis
    by (auto simp: spent_def complete_row waiting_def split: option.splits)
next
  case (fail now qn i out b)
  with assms(4) show ?thesis
    by (auto simp: spent_def fail_row_db(1) [OF assms(1) fail(2)] waiting_def failed_def is_active_def
        split: option.splits)
next
  case queues
  with assms(4) show ?thesis by simp
next
  case (maintain now)
  with assms(4) show ?thesis
    by (auto simp: spent_def maintain_row [OF assms(1) maintain(2)] waiting_def maintained_def
        expire_job_failed failed_def expired_def split: option.splits)
qed

lemma exec_op_ids:
  assumes "db_inv d" "exec_op P x d = Inr (r, d')"
  shows "ids d' \<subseteq> ids d \<union> set (op_creates x)"
proof
  fix i
  assume "i \<in> ids d'"
  then have new: "row d' i \<noteq> None" by (simp add: row_None_iff)
  from assms(2) have "row d i \<noteq> None \<or> i \<in> set (op_creates x)"
  proof (cases rule: exec_op_cases)
    case (send now k qn data options v)
    then show ?thesis using new send_row(3) [OF send(2), of i] by (cases "i = k") simp_all
  next
    case (fetch now locked qn n js)
    then show ?thesis using new by (auto simp: fetch_row [OF fetch(2)] split: if_splits)
  next
    case (fail now qn k out b)
    then show ?thesis using new by (auto simp: fail_row_db(1) [OF assms(1) fail(2)])
  next
    case (maintain now)
    then show ?thesis
      using new by (auto simp: maintain_row [OF assms(1) maintain(2)] split: option.splits)
  qed (use new in \<open>auto simp: create_queue_row delete_queue_row [OF assms(1)] complete_row
        split: option.splits\<close>)
  then show "i \<in> ids d \<union> set (op_creates x)" by (auto simp: row_None_iff)
qed

interpretation ext_claims: claim_store db_inv "exec_op P" claims spent fst ids op_creates for P
proof unfold_locales
  fix x d r d' k
  assume inv: "db_inv d" and ex: "exec_op P x d = Inr (r, d')"
  show "distinct (claims r)"
    using ex by (cases rule: exec_op_cases)
      (simp_all del: claims_simps(5) add: fetch_claims_distinct [OF inv])
  show "ids d' \<subseteq> ids d \<union> set (op_creates x)" by (rule exec_op_ids [OF inv ex])
  assume k: "k \<in> set (claims r)"
  then obtain now locked qn n js where f: "fetch locked now qn n d = Inr (js, d')"
    "k \<in> set (claims (RJobs js))" by (rule claims_fetch [OF ex])
  then obtain j where j: "row d (fst k) = Some j" "waiting j" "snd k = j_retry_count j"
    "row d' (fst k) = Some (claim now j)"
    by (rule fetch_claim_row [OF inv])
  then show "\<not> spent d k \<and> fst k \<in> ids d"
    using row_None_iff [of d "fst k"] by (auto simp: spent_def)
  show "spent d' k" using j by (simp add: spent_def waiting_def)
qed (rule exec_op_spent)

lemma exec_op_pays:
  assumes "db_inv d" "exec_op P x d = Inr (r, d')" "i \<notin> set (op_creates x)"
  shows "tries (abs_job (row d' i)) + delivered_to r i \<le> tries (abs_job (row d i))"
proof (cases "\<exists>now k qn data options. x = (now, OpSend k qn data options)")
  case True
  then obtain now k qn data options where x: "x = (now, OpSend k qn data options)" by blast
  with assms(2) obtain v where "send P now k qn data options d = Inr (v, d')" "r = RUuid v"
    by auto
  then show ?thesis using send_row(3) assms(3) x by simp
next
  case False
  obtain as where as: "arun as (abs_job (row d i)) = Some (abs_job (row d' i))"
    "list_all (allowed (snd x)) as" "count_list as Claim = delivered_to r i"
    using exec_op_refines [OF assms(1,2), of i] by (auto simp: refines_def)
  have "\<not> enqueues a" if "allowed (snd x) a" for a
    using that False by (cases x; cases "snd x") auto
  then have "\<not> list_ex enqueues as" using as(2) by (auto simp: list_all_iff list_ex_iff)
  from arun_tries [OF as(1) this] as(3) show ?thesis by simp
qed

interpretation ext_budget: budget_store db_inv "exec_op P" "\<lambda>d i. tries (abs_job (row d i))"
    delivered_to op_creates for P
  by unfold_locales (rule exec_op_pays)

end
