(* ===== verification/Skip_Locked.thy ===== *)
theory Skip_Locked
  imports Delivery
begin

text \<open>
  Competing consumers. \<open>boss.fetch\<close> of src/src/schema.rs is here not one atomic step: a
  session takes a snapshot of the fetchable rows in key order, then visits them one by one,
  and any other session may act in between. A visited row that another transaction has
  locked is skipped (\<open>SKIP LOCKED\<close>); otherwise the row is locked and its current version is
  checked against the \<open>WHERE\<close> clause again, as \<open>FOR UPDATE\<close> does under read committed. The
  update becomes visible, and the locks go, when the transaction ends.

  All other operations are atomic transactions that wait for the locks of the rows they
  change: the step is possible only while these rows are unlocked.

  \<open>handed_out\<close> is a ghost field, the claims of all committed fetches.
\<close>

type_synonym sid = nat

datatype session =
    Idle
  | Scan string int "nat option" "uuid list" "uuid list"
      \<comment> \<open>queue, clock, rows still wanted, ids to visit, ids claimed\<close>

record csys =
  committed :: db
  locks :: "uuid \<Rightarrow> sid option"
  sessions :: "sid \<Rightarrow> session"
  handed_out :: "(uuid \<times> int) list"

definition snapshot_ids :: "int \<Rightarrow> string \<Rightarrow> db \<Rightarrow> uuid list" where
  "snapshot_ids now qn d = map j_id (fetch_next [] now qn None (jobs d))"

fun wants :: "nat option \<Rightarrow> bool" where
  "wants None = True"
| "wants (Some n) = (n > 0)"

definition dec_want :: "nat option \<Rightarrow> nat option" where
  "dec_want w = map_option (\<lambda>n. n - 1) w"

definition claim_db :: "int \<Rightarrow> uuid list \<Rightarrow> db \<Rightarrow> db" where
  "claim_db now taken d = d\<lparr>jobs := sql_update (\<lambda>j. j_id j \<in> set taken) (claim now) (jobs d)\<rparr>"

definition claims_of :: "uuid list \<Rightarrow> db \<Rightarrow> (uuid \<times> int) list" where
  "claims_of taken d =
     map (\<lambda>j. (j_id j, j_retry_count j)) (filter (\<lambda>j. j_id j \<in> set taken) (jobs d))"

definition release :: "sid \<Rightarrow> (uuid \<Rightarrow> sid option) \<Rightarrow> uuid \<Rightarrow> sid option" where
  "release s L i = (if L i = Some s then None else L i)"

fun is_fetch :: "op \<Rightarrow> bool" where
  "is_fetch (OpFetch locked qn n) = True"
| "is_fetch _ = False"

inductive cstep :: "pg \<Rightarrow> csys \<Rightarrow> csys \<Rightarrow> bool" for P where
  begin_fetch: "sessions c s = Idle \<Longrightarrow>
    cstep P c (c\<lparr>sessions := (sessions c)(s := Scan qn now want (snapshot_ids now qn (committed c)) [])\<rparr>)"
| skip_locked: "sessions c s = Scan qn now want (i # todo) taken \<Longrightarrow> wants want \<Longrightarrow>
    locks c i = Some t \<Longrightarrow> t \<noteq> s \<Longrightarrow>
    cstep P c (c\<lparr>sessions := (sessions c)(s := Scan qn now want todo taken)\<rparr>)"
| skip_gone: "sessions c s = Scan qn now want (i # todo) taken \<Longrightarrow> wants want \<Longrightarrow>
    row (committed c) i = None \<Longrightarrow>
    cstep P c (c\<lparr>sessions := (sessions c)(s := Scan qn now want todo taken)\<rparr>)"
| recheck_fails: "sessions c s = Scan qn now want (i # todo) taken \<Longrightarrow> wants want \<Longrightarrow>
    locks c i = None \<or> locks c i = Some s \<Longrightarrow>
    row (committed c) i = Some j \<Longrightarrow> \<not> fetchable now qn j \<Longrightarrow>
    cstep P c (c\<lparr>locks := (locks c)(i := Some s),
                sessions := (sessions c)(s := Scan qn now want todo taken)\<rparr>)"
| take_row: "sessions c s = Scan qn now want (i # todo) taken \<Longrightarrow> wants want \<Longrightarrow>
    locks c i = None \<or> locks c i = Some s \<Longrightarrow>
    row (committed c) i = Some j \<Longrightarrow> fetchable now qn j \<Longrightarrow>
    cstep P c (c\<lparr>locks := (locks c)(i := Some s),
                sessions := (sessions c)(s := Scan qn now (dec_want want) todo (taken @ [i]))\<rparr>)"
| commit_fetch: "sessions c s = Scan qn now want todo taken \<Longrightarrow> \<not> wants want \<or> todo = [] \<Longrightarrow>
    cstep P c (c\<lparr>committed := claim_db now taken (committed c),
                locks := release s (locks c),
                sessions := (sessions c)(s := Idle),
                handed_out := handed_out c @ claims_of taken (committed c)\<rparr>)"
| abort_fetch: "sessions c s = Scan qn now want todo taken \<Longrightarrow>
    cstep P c (c\<lparr>locks := release s (locks c), sessions := (sessions c)(s := Idle)\<rparr>)"
| transaction: "exec_op P x (committed c) = Inr (r, d') \<Longrightarrow> \<not> is_fetch (snd x) \<Longrightarrow>
    (\<And>i. row (committed c) i \<noteq> row d' i \<Longrightarrow> locks c i = None) \<Longrightarrow>
    set (op_creates x) \<inter> fst ` set (handed_out c) = {} \<Longrightarrow>
    cstep P c (c\<lparr>committed := d'\<rparr>)"

inductive_cases cstepE: "cstep P c c'"

definition cinit :: "db \<Rightarrow> csys" where
  "cinit d = \<lparr>committed = d, locks = (\<lambda>_. None), sessions = (\<lambda>_. Idle), handed_out = []\<rparr>"

inductive creach :: "pg \<Rightarrow> csys \<Rightarrow> bool" for P where
  start: "db_inv d \<Longrightarrow> creach P (cinit d)"
| step: "creach P c \<Longrightarrow> cstep P c c' \<Longrightarrow> creach P c'"

section \<open>The invariant\<close>

definition holds :: "csys \<Rightarrow> sid \<Rightarrow> int \<Rightarrow> string \<Rightarrow> uuid \<Rightarrow> bool" where
  "holds c s now qn i \<longleftrightarrow>
     locks c i = Some s \<and> (\<exists>j. row (committed c) i = Some j \<and> fetchable now qn j)"

fun session_inv :: "csys \<Rightarrow> sid \<Rightarrow> session \<Rightarrow> bool" where
  "session_inv c s Idle = True"
| "session_inv c s (Scan qn now want todo taken) =
     (distinct (taken @ todo) \<and> (\<forall>i \<in> set taken. holds c s now qn i))"

definition cinv :: "csys \<Rightarrow> bool" where
  "cinv c \<longleftrightarrow>
     db_inv (committed c) \<and>
     (\<forall>s. session_inv c s (sessions c s)) \<and>
     distinct (handed_out c) \<and> (\<forall>k \<in> set (handed_out c). spent (committed c) k)"

lemma cinv_init: "db_inv d \<Longrightarrow> cinv (cinit d)"
  by (simp add: cinv_def cinit_def)

text \<open>A session's part of the invariant depends only on the rows and locks it holds.\<close>

lemma session_inv_mono:
  assumes "session_inv c s x"
    and "\<And>i. locks c i = Some s \<Longrightarrow> locks c' i = Some s \<and> row (committed c') i = row (committed c) i"
  shows "session_inv c' s x"
  using assms by (cases x) (auto simp: holds_def)

lemma snapshot_distinct: "db_inv d \<Longrightarrow> distinct (snapshot_ids now qn d)"
  by (auto simp: snapshot_ids_def fetch_next_def Let_def distinct_map db_inv_def
      intro: inj_on_subset)

lemma claim_db_row: "row (claim_db now taken d) i = (if i \<in> set taken then map_option (claim now) (row d i) else row d i)"
proof -
  have "row (claim_db now taken d) i = map_option (\<lambda>j. if j_id j \<in> set taken then claim now j else j) (row d i)"
    unfolding claim_db_def by (rule row_update) simp
  then show ?thesis by (cases "row d i") (auto dest: row_SomeD)
qed

lemma claim_db_inv:
  assumes "db_inv d" "\<And>i. i \<in> set taken \<Longrightarrow> \<exists>j. row d i = Some j \<and> fetchable now qn j"
  shows "db_inv (claim_db now taken d)"
  unfolding claim_db_def
proof (rule db_inv_update [OF assms(1)])
  fix j
  assume j: "j \<in> set (jobs d)" "j_id j \<in> set taken"
  then have "fetchable now qn j"
    using assms(2) [OF j(2)] row_job [OF assms(1) j(1)] by auto
  then show "job_wf (claim now j)" using claim_wf db_inv_job [OF assms(1) j(1)] by blast
qed simp

lemma claims_of_row:
  assumes "db_inv d"
  shows "k \<in> set (claims_of taken d) \<longleftrightarrow>
    fst k \<in> set taken \<and> (\<exists>j. row d (fst k) = Some j \<and> snd k = j_retry_count j)"
  by (cases k) (auto simp: claims_of_def row_Some_iff [OF assms])

lemma claims_of_distinct: "db_inv d \<Longrightarrow> distinct (claims_of taken d)"
proof -
  assume "db_inv d"
  then have "distinct (map fst (claims_of taken d))"
    by (simp add: claims_of_def comp_def distinct_map_filter db_inv_def)
  then show ?thesis unfolding distinct_map by blast
qed

lemma commit_inv:
  assumes inv: "cinv c" and s: "sessions c s = Scan qn now want todo taken"
  shows "cinv (c\<lparr>committed := claim_db now taken (committed c), locks := release s (locks c),
      sessions := (sessions c)(s := Idle),
      handed_out := handed_out c @ claims_of taken (committed c)\<rparr>)"
    (is "cinv ?c'")
proof -
  let ?d = "committed c"
  have d: "db_inv ?d" using inv by (simp add: cinv_def)
  have "session_inv c s (sessions c s)" using inv by (simp add: cinv_def)
  then have held: "locks c i = Some s \<and> (\<exists>j. row ?d i = Some j \<and> fetchable now qn j)"
    if "i \<in> set taken" for i
    using that s by (auto simp: holds_def)
  have "db_inv (claim_db now taken ?d)" by (rule claim_db_inv [OF d, where now = now and qn = qn]) (use held in blast)
  moreover have "session_inv ?c' t (sessions ?c' t)" for t
  proof (cases "t = s")
    case False
    have "session_inv c t (sessions c t)" using inv by (simp add: cinv_def)
    then have "session_inv ?c' t (sessions c t)"
    proof (rule session_inv_mono)
      fix i
      assume "locks c i = Some t"
      with False held show "locks ?c' i = Some t \<and> row (committed ?c') i = row ?d i"
        by (auto simp: release_def claim_db_row)
    qed
    with False show ?thesis by simp
  qed simp
  moreover have "spent (claim_db now taken ?d) k" if "spent ?d k" for k
    using that by (auto simp: spent_def claim_db_row waiting_def split: option.splits)
  moreover have new: "\<not> spent ?d k \<and> spent (claim_db now taken ?d) k"
    if "k \<in> set (claims_of taken ?d)" for k
    using that held [of "fst k"]
    by (auto simp: claims_of_row [OF d] spent_def claim_db_row waiting_def fetchable_def)
  moreover have "set (handed_out c) \<inter> set (claims_of taken ?d) = {}"
    using inv new by (auto simp: cinv_def)
  ultimately show ?thesis
    using inv claims_of_distinct [OF d] by (auto simp: cinv_def)
qed

lemma session_update_inv:
  assumes inv: "cinv c" and self: "session_inv (c\<lparr>locks := L\<rparr>) s x"
    and others: "\<And>t i. t \<noteq> s \<Longrightarrow> locks c i = Some t \<Longrightarrow> L i = Some t"
  shows "cinv (c\<lparr>locks := L, sessions := (sessions c)(s := x)\<rparr>)" (is "cinv ?c'")
proof -
  have "session_inv ?c' t (sessions ?c' t)" for t
  proof (cases "t = s")
    case True
    have "session_inv ?c' s x" using self by (cases x) (auto simp: holds_def)
    with True show ?thesis by simp
  next
    case False
    have "session_inv c t (sessions c t)" using inv by (simp add: cinv_def)
    then have "session_inv ?c' t (sessions c t)"
      by (rule session_inv_mono) (use False others in auto)
    with False show ?thesis by simp
  qed
  with inv show ?thesis by (simp add: cinv_def)
qed

lemma session_update_inv_same:
  assumes "cinv c" "session_inv c s x"
  shows "cinv (c\<lparr>sessions := (sessions c)(s := x)\<rparr>)"
  using session_update_inv [OF assms(1), of "locks c" s x] assms(2) by simp

lemma transaction_inv:
  assumes inv: "cinv c" and ex: "exec_op P x (committed c) = Inr (r, d')"
    and unlocked: "\<And>i. row (committed c) i \<noteq> row d' i \<Longrightarrow> locks c i = None"
    and fresh: "set (op_creates x) \<inter> fst ` set (handed_out c) = {}"
  shows "cinv (c\<lparr>committed := d'\<rparr>)"
proof -
  have d: "db_inv (committed c)" using inv by (simp add: cinv_def)
  have "session_inv (c\<lparr>committed := d'\<rparr>) t (sessions c t)" for t
  proof (rule session_inv_mono)
    show "session_inv c t (sessions c t)" using inv by (simp add: cinv_def)
    show "locks (c\<lparr>committed := d'\<rparr>) i = Some t \<and>
        row (committed (c\<lparr>committed := d'\<rparr>)) i = row (committed c) i"
      if "locks c i = Some t" for i
      using that unlocked [of i] by (cases "row (committed c) i = row d' i") simp_all
  qed
  moreover have "spent d' k" if "k \<in> set (handed_out c)" for k
    using that inv fresh by (intro exec_op_spent [OF d ex]) (auto simp: cinv_def)
  ultimately show ?thesis
    using inv exec_op_inv [OF d ex] by (simp add: cinv_def)
qed

lemma cstep_inv:
  assumes "cstep P c c'" "cinv c"
  shows "cinv c'"
proof -
  have sess: "session_inv c s (sessions c s)" for s using assms(2) by (simp add: cinv_def)
  show ?thesis
    using assms(1)
  proof cases
    case (begin_fetch s qn now want)
    then show ?thesis
      using assms(2) snapshot_distinct [of "committed c" now qn]
      by (simp add: session_update_inv_same cinv_def [of c])
  next
    case (skip_locked s qn now want i todo taken t)
    then show ?thesis using sess [of s] by (simp add: session_update_inv_same [OF assms(2)])
  next
    case (skip_gone s qn now want i todo taken)
    then show ?thesis using sess [of s] by (simp add: session_update_inv_same [OF assms(2)])
  next
    case (recheck_fails s qn now want i todo taken j)
    then show ?thesis
      using sess [of s]
      by (simp only:) (intro session_update_inv [OF assms(2)]; auto simp: holds_def)
  next
    case (take_row s qn now want i todo taken j)
    then show ?thesis
      using sess [of s]
      by (simp only:) (intro session_update_inv [OF assms(2)]; auto simp: holds_def)
  next
    case (commit_fetch s qn now want todo taken)
    then show ?thesis using commit_inv [OF assms(2)] by simp
  next
    case (abort_fetch s qn now want todo taken)
    then show ?thesis
      by (simp only:) (intro session_update_inv [OF assms(2)]; auto simp: release_def)
  next
    case (transaction x r d')
    then show ?thesis using transaction_inv [OF assms(2)] by simp
  qed
qed

lemma creach_inv: "creach P c \<Longrightarrow> cinv c"
  by (induction rule: creach.induct) (auto intro: cinv_init cstep_inv)

section \<open>A scan nobody disturbs\<close>

text \<open>
  The visit of a list of ids against fixed rows and locks, as a function; a scan without
  interference claims exactly the rows of the atomic \<open>fetch\<close>, with the rows locked by other
  sessions as its \<open>locked\<close> argument.
\<close>

fun scan_ids :: "(uuid \<Rightarrow> bool) \<Rightarrow> nat option \<Rightarrow> uuid list \<Rightarrow> uuid list" where
  "scan_ids blocked want [] = []"
| "scan_ids blocked want (i # todo) =
     (if \<not> wants want then []
      else if blocked i then scan_ids blocked want todo
      else i # scan_ids blocked (dec_want want) todo)"

lemma scan_ids_eq:
  "scan_ids blocked want todo =
   (case want of None \<Rightarrow> filter (\<lambda>i. \<not> blocked i) todo
    | Some n \<Rightarrow> take n (filter (\<lambda>i. \<not> blocked i) todo))"
proof (induction todo arbitrary: want)
  case (Cons i todo)
  then show ?case
    by (cases want) (auto simp: dec_want_def take_Cons' split: option.splits)
qed (simp split: option.splits)

lemma scan_eq_fetch_next:
  "scan_ids (\<lambda>i. i \<in> set locked) want (snapshot_ids now qn d) =
   map j_id (fetch_next locked now qn (map_option int want) (jobs d))"
proof -
  have "filter (\<lambda>i. i \<notin> set locked) (snapshot_ids now qn d) =
      map j_id (fetch_next locked now qn None (jobs d))"
    by (simp add: snapshot_ids_def fetch_next_def filter_map comp_def filter_sort)
  then show ?thesis
    by (cases want) (simp_all add: scan_ids_eq fetch_next_def Let_def take_map)
qed

end
