(* ===== verification/Examples.thy ===== *)
theory Examples
  imports Skip_Locked
begin

text \<open>
  Concrete inputs the witnesses of the properties are evaluated on: a PostgreSQL whose
  \<open>md5\<close> is a constant of 32 digits, a queue \<open>orders\<close> with the defaults, and jobs in it.
\<close>

definition pg0 :: pg where
  "pg0 = \<lparr>pg_md5 = (\<lambda>s. replicate 32 CHR ''a''), pg_timestamptz = (\<lambda>now t. Inl (DatetimeError t)),
          pg_collkey = (\<lambda>s. s)\<rparr>"

definition orders :: queue where
  "orders = \<lparr>q_name = ''orders'', q_retry_limit = 2, q_retry_delay = 0, q_expire_seconds = 900,
             q_retention_seconds = 1209600, q_created_on = 0\<rparr>"

definition job_at :: "uuid \<Rightarrow> int \<Rightarrow> job_state \<Rightarrow> int \<Rightarrow> int option \<Rightarrow> int option \<Rightarrow> job" where
  "job_at i pri st cnt started done =
     \<lparr>j_id = i, j_name = ''orders'', j_priority = pri, j_data = Some (JObj []), j_state = st,
      j_retry_limit = 2, j_retry_count = cnt, j_retry_delay = 0, j_expire_seconds = 900,
      j_start_after = 0, j_created_on = 0, j_started_on = started, j_completed_on = done,
      j_keep_until = 1209600000000, j_output = None\<rparr>"

definition orders_db :: "job list \<Rightarrow> db" where
  "orders_db js = \<lparr>queues = [orders], jobs = js, notifies = []\<rparr>"

lemmas example_defs = pg0_def orders_def job_at_def orders_db_def

lemma pg0_md5_ok: "pg_md5_ok pg0"
  by (simp add: pg_md5_ok_def pg0_def list_all_iff is_ascii_def char_code_def)

lemma orders_db_inv:
  "db_inv (orders_db js) \<longleftrightarrow>
   distinct (map j_id js) \<and> (\<forall>j \<in> set js. job_wf j \<and> j_name j = ''orders'')"
  by (auto simp: orders_db_def db_inv_def queue_wf_def orders_def in_int4_def)

lemma job_at_wf:
  "job_wf (job_at i pri st cnt started done) \<longleftrightarrow>
     in_int4 pri \<and> 0 \<le> cnt \<and> cnt \<le> 2 \<and> (started \<noteq> None \<longleftrightarrow> st = Active \<or> st = Completed) \<and>
     (done \<noteq> None \<longleftrightarrow> st = Completed \<or> st = Failed) \<and> st \<noteq> Cancelled \<and>
     (st = Created \<longrightarrow> cnt = 0) \<and> (st = Retry \<longrightarrow> 0 < cnt)"
  by (auto simp: job_wf_def job_at_def in_int4_def)

lemma job_at_fields:
  "j_name (job_at i pri st cnt started done) = ''orders''"
  "j_id (job_at i pri st cnt started done) = i"
  by (simp_all add: job_at_def)

lemmas example_inv = orders_db_inv job_at_wf job_at_fields in_int4_def

end
