(* ===== verification/Queue_Props.thy ===== *)
theory Queue_Props
  imports Examples
begin

text \<open>
  The properties of the extension (src/src/schema.rs and src/src/lib.rs): what each
  operation does on every branch, and the guarantees over whole runs and over interleaved
  sessions. Each property is followed by a witness at a concrete input.
\<close>

section \<open>Delivery\<close>

text \<open>
  C1: no attempt of a job is delivered twice. In any sequence of calls on a fresh database,
  in which \<open>gen_random_uuid\<close> does not repeat an id, the pairs (job id, attempt number) of all
  jobs returned by all calls of \<open>boss.fetch\<close> are distinct.
\<close>

theorem exactly_once:
  assumes "distinct (concat (map op_creates xs))"
  shows "distinct (concat (map claims (run_replies (exec_op P) xs empty_db)))"
  using ext_claims.given_once [OF db_inv_empty assms, of P] by (simp add: ids_def empty_db_def)

theorem exactly_once_witness:
  "distinct (concat (map claims (run_replies (exec_op pg0)
     [(0, OpCreateQueue ''orders'' (JObj [])), (1, OpSend 7 ''orders'' None None),
      (2, OpFetch [] ''orders'' (Some 1)), (3, OpFail ''orders'' 7 None),
      (4, OpFetch [] ''orders'' (Some 1))] empty_db)))"
  by (rule exactly_once) simp

text \<open>
  C2: competing consumers. In every state that interleaved sessions can reach, each visiting
  and locking rows on its own, no two open fetches hold the same job, and no (job id, attempt)
  has been handed out twice by the committed ones.
\<close>

theorem competing_consumers:
  assumes "creach P c"
  shows "distinct (handed_out c) \<and>
    (\<forall>s t qn now w todo taken qn' now' w' todo' taken'.
       s \<noteq> t \<and> sessions c s = Scan qn now w todo taken \<and> sessions c t = Scan qn' now' w' todo' taken' \<longrightarrow>
       set taken \<inter> set taken' = {})"
proof -
  have inv: "cinv c" using assms by (rule creach_inv)
  have "set taken \<inter> set taken' = {}"
    if "s \<noteq> t" "sessions c s = Scan qn now w todo taken" "sessions c t = Scan qn' now' w' todo' taken'"
    for s t qn now w todo taken qn' now' w' todo' taken'
  proof -
    have "session_inv c s (sessions c s)" "session_inv c t (sessions c t)"
      using inv by (simp_all add: cinv_def)
    then have "locks c i = Some s" "i \<in> set taken' \<Longrightarrow> locks c i = Some t" if "i \<in> set taken" for i
      using \<open>sessions c s = _\<close> \<open>sessions c t = _\<close> that by (auto simp: holds_def)
    then show ?thesis using \<open>s \<noteq> t\<close> by fastforce
  qed
  then show ?thesis using inv unfolding cinv_def by blast
qed

theorem competing_consumers_witness:
  "distinct (handed_out (cinit (orders_db [job_at 7 0 Created 0 None None])))"
proof -
  have "creach pg0 (cinit (orders_db [job_at 7 0 Created 0 None None]))"
    by (rule creach.start) (simp add: example_inv)
  then show ?thesis using competing_consumers by blast
qed

text \<open>
  C13: bounded attempts. From any reachable database on, a job is delivered at most once more
  than it has retries left while it waits, at most as often as it has retries left while it is
  active, and never again once it is terminal, whatever calls follow.
\<close>

theorem attempts_bounded:
  assumes "db_inv d" "row d i = Some j" "i \<notin> set (concat (map op_creates xs))"
  shows "length (filter (\<lambda>k. fst k = i) (concat (map claims (run_replies (exec_op P) xs d))))
    \<le> (if waiting j then nat (j_retry_limit j - j_retry_count j) + 1
        else if j_state j = Active then nat (j_retry_limit j - j_retry_count j) else 0)"
proof -
  have "length (filter (\<lambda>k. fst k = i) (concat (map claims rs))) = sum_list (map (\<lambda>r. delivered_to r i) rs)" for rs
    by (induction rs) (auto simp: claims_def delivered_to_def filter_map comp_def)
  moreover have "tries (abs_job (row d i)) \<le>
    (if waiting j then nat (j_retry_limit j - j_retry_count j) + 1
     else if j_state j = Active then nat (j_retry_limit j - j_retry_count j) else 0)"
    using assms(2) by (cases "j_state j") (simp_all add: abs_job_def waiting_def retries_left_def)
  ultimately show ?thesis using ext_budget.total_cost [OF assms(1,3), of P] by simp
qed

theorem attempts_bounded_witness:
  "length (filter (\<lambda>k. fst k = 7) (concat (map claims (run_replies (exec_op pg0)
     [(2, OpFetch [] ''orders'' (Some 1)), (3, OpFail ''orders'' 7 None)]
     (orders_db [job_at 7 0 Created 0 None None])))))  \<le> 3"
  using attempts_bounded [of "orders_db [job_at 7 0 Created 0 None None]" 7
      "job_at 7 0 Created 0 None None" "[(2, OpFetch [] ''orders'' (Some 1)), (3, OpFail ''orders'' 7 None)]" pg0]
  by (simp add: example_inv row_def) (simp add: orders_db_def job_at_def waiting_def)

text \<open>
  C4: the life cycle. Every successful call moves every job along the documented life cycle:
  the abstract job (waiting, running, succeeded, exhausted, with the retries it has left)
  takes the steps of the abstract machine that the call is allowed to cause, and it is claimed
  exactly as often as the call returned it.
\<close>

theorem lifecycle_refinement:
  assumes "db_inv d" "exec_op P x d = Inr (r, d')"
  shows "\<exists>as. arun as (abs_job (row d i)) = Some (abs_job (row d' i)) \<and>
    list_all (allowed (snd x)) as \<and> count_list as Claim = delivered_to r i"
  using exec_op_refines [OF assms, of i] unfolding refines_def .

theorem lifecycle_refinement_witness:
  "\<exists>as. arun as (Running 2) = Some Succeeded \<and> list_all (allowed (OpComplete ''orders'' 7 None)) as
     \<and> count_list as Claim = 0"
proof -
  let ?d = "orders_db [job_at 7 0 Active 0 (Some 5) None]"
  have inv: "db_inv ?d" by (simp add: example_inv)
  have ex: "exec_op pg0 (9, OpComplete ''orders'' 7 None) ?d =
      Inr (RBool True, orders_db [job_at 7 0 Completed 0 (Some 5) (Some 9)])"
    by (simp add: complete_def Let_def sql_count_def sql_update_def is_active_def orders_db_def job_at_def)
  show ?thesis
    using lifecycle_refinement [OF inv ex, of 7]
    by (simp add: row_def orders_db_def abs_job_def job_at_def retries_left_def)
qed

text \<open>
  C12: the invariant. Every database the extension can reach from an empty one by any calls,
  failing ones included, is well formed: keys are unique, every job has its queue, attempt
  counters are within the retry budget, time stamps agree with the state, no job is cancelled.
\<close>

theorem reachable_wf: "db_inv (run_ops (exec_op P) xs empty_db)"
  by (rule ext.run_inv [OF db_inv_empty])

section \<open>fetch\<close>

text \<open>
  C20: \<open>boss.fetch\<close> takes the best jobs: if a job that is ready in the queue and not locked was
  left behind while another was taken, the taken one has a higher priority, or the same
  priority and was created earlier, or at the same time and has the smaller id.
\<close>

theorem fetch_order:
  assumes "db_inv d" "fetch locked now qn n d = Inr (js, d')" "a \<in> set js"
    and "b \<in> set (jobs d)" "fetchable now qn b" "j_id b \<notin> set locked" "j_id b \<notin> j_id ` set js"
  shows "j_priority a > j_priority b \<or>
    j_priority a = j_priority b \<and>
      (j_created_on a < j_created_on b \<or> j_created_on a = j_created_on b \<and> j_id a < j_id b)"
proof -
  let ?nx = "fetch_next locked now qn n (jobs d)"
  obtain a0 where a0: "a = claim now a0" "row d (j_id a0) = Some a0" "claimed locked now qn n d (j_id a0)"
    using assms(3) unfolding fetch_result [OF assms(1,2)] by auto
  have a_in: "a0 \<in> set ?nx"
    using a0 fetch_next_id_iff [OF db_inv_ids [OF assms(1)], of a0] row_SomeD [OF a0(2)]
    by (simp add: claimed_def)
  have b_out: "b \<notin> set ?nx"
  proof
    assume "b \<in> set ?nx"
    then have "claim now b \<in> set js"
      using row_job [OF assms(1,4)] unfolding fetch_result [OF assms(1,2)] claimed_def by blast
    with assms(7) show False by (metis claim_fields(1) imageI)
  qed
  have "fetch_key a0 \<le> fetch_key b"
  proof (cases n)
    case None
    with b_out assms(4-6) show ?thesis by (simp add: fetch_next_def)
  next
    case (Some k)
    with a_in b_out assms(4-6) show ?thesis
      by (intro take_sort_key_least [of a0 "nat k"]) (auto simp: fetch_next_def Let_def)
  qed
  moreover have "j_id a0 \<noteq> j_id b"
    using a0 assms(3,7) by (metis claim_fields(1) imageI)
  ultimately show ?thesis
    using a0(1) by (auto simp: fetch_key_def less_eq_fetch_key_def claim_def)
qed

theorem fetch_order_witness:
  "\<exists>js d'. fetch [] 9 ''orders'' (Some 1) (orders_db [job_at 7 1 Created 0 None None, job_at 8 10 Created 0 None None])
       = Inr (js, d') \<and> map j_id js = [8] \<and> j_priority (hd js) > 1"
proof -
  let ?a = "job_at 7 1 Created 0 None None" and ?b = "job_at 8 10 Created 0 None None"
  let ?d = "orders_db [?a, ?b]"
  have inv: "db_inv ?d" by (simp add: example_inv)
  have f: "fetch [] 9 ''orders'' (Some 1) ?d = Inr ([claim 9 ?b], orders_db [?a, claim 9 ?b])"
    by (simp add: fetch_def fetch_next_def Let_def sql_update_def orders_db_def job_at_def fetchable_def
        fetch_key_def less_eq_fetch_key_def claim_def)
  have "j_priority (claim 9 ?b) > j_priority ?a \<or>
    j_priority (claim 9 ?b) = j_priority ?a \<and>
      (j_created_on (claim 9 ?b) < j_created_on ?a \<or>
       j_created_on (claim 9 ?b) = j_created_on ?a \<and> j_id (claim 9 ?b) < j_id ?a)"
    by (rule fetch_order [OF inv f]) (simp_all add: orders_db_def job_at_def fetchable_def)
  then show ?thesis using f by (simp add: job_at_def claim_def)
qed

text \<open>
  C27: \<open>boss.fetch\<close> returns as many jobs as it can: the smaller of \<open>batch_size\<close> and the number
  of ready jobs of the queue that no other transaction has locked, all of them when
  \<open>batch_size\<close> is NULL; a negative \<open>batch_size\<close> is an error.
\<close>

theorem fetch_count:
  assumes "db_inv d"
  shows "case n of
      None \<Rightarrow> \<exists>js d'. fetch locked now qn n d = Inr (js, d') \<and>
        length js = sql_count (\<lambda>j. fetchable now qn j \<and> j_id j \<notin> set locked) (jobs d)
    | Some k \<Rightarrow>
        if k < 0 then fetch locked now qn n d = Inl NegativeLimit
        else \<exists>js d'. fetch locked now qn n d = Inr (js, d') \<and>
          length js = min (nat k) (sql_count (\<lambda>j. fetchable now qn j \<and> j_id j \<notin> set locked) (jobs d))"
proof -
  let ?nx = "fetch_next locked now qn n (jobs d)"
  have len: "length js = length ?nx" if f: "fetch locked now qn n d = Inr (js, d')" for js d'
  proof -
    have "distinct (map j_id ?nx)"
    proof -
      have "distinct (map j_id (filter (\<lambda>j. fetchable now qn j \<and> j_id j \<notin> set locked) (jobs d)))"
        using db_inv_ids [OF assms] by (rule distinct_map_filter)
      then have "distinct (map j_id (sort_key fetch_key (filter (\<lambda>j. fetchable now qn j \<and> j_id j \<notin> set locked) (jobs d))))"
        by (simp add: distinct_map)
      then show ?thesis
        by (cases n) (simp_all add: fetch_next_def Let_def flip: take_map)
    qed
    moreover have "set (map j_id js) = set (map j_id ?nx)"
      using fetch_ids_iff [OF assms f] by (auto simp: claimed_def)
    ultimately show ?thesis
      using fetch_ids_distinct [OF assms f] by (metis distinct_card length_map)
  qed
  have ok: "\<exists>js d'. fetch locked now qn n d = Inr (js, d')" if "\<And>k. n = Some k \<Longrightarrow> \<not> k < 0"
    using that by (cases n) (auto simp: fetch_def Let_def)
  show ?thesis
  proof (cases n)
    case None
    with ok len show ?thesis by (fastforce simp: fetch_next_def sql_count_def)
  next
    case (Some k)
    with ok len show ?thesis
      by (cases "k < 0") (fastforce simp: fetch_def fetch_next_def sql_count_def Let_def min.commute)+
  qed
qed

theorem fetch_count_witness:
  "\<exists>js d'. fetch [] 9 ''orders'' None (orders_db [job_at 7 1 Created 0 None None]) = Inr (js, d') \<and> length js = 1"
proof -
  have "db_inv (orders_db [job_at 7 1 Created 0 None None])"
    by (simp add: example_inv)
  from fetch_count [OF this, where n = None and locked = "[]" and now = 9 and qn = "''orders''"] show ?thesis
    by (simp add: sql_count_def orders_db_def job_at_def fetchable_def)
qed

text \<open>
  C28: what \<open>boss.fetch\<close> returns and changes: the returned rows are jobs of the queue that were
  created or in retry, whose start time had come and which nobody had locked, now active and
  started; exactly their rows change, in nothing but \<open>state\<close> and \<open>started_on\<close>.
\<close>

theorem fetch_effect:
  assumes "db_inv d" "fetch locked now qn n d = Inr (js, d')"
  shows "(\<forall>a \<in> set js. \<exists>j. row d (j_id a) = Some j \<and> a = j\<lparr>j_state := Active, j_started_on := Some now\<rparr> \<and>
      j_name j = qn \<and> (j_state j = Created \<or> j_state j = Retry) \<and> j_start_after j \<le> now \<and> j_id j \<notin> set locked) \<and>
    (\<forall>a \<in> set js. row d' (j_id a) = Some a) \<and>
    (\<forall>i. i \<notin> j_id ` set js \<longrightarrow> row d' i = row d i) \<and>
    queues d' = queues d \<and> notifies d' = notifies d"
proof -
  have "\<exists>j. row d (j_id a) = Some j \<and> a = j\<lparr>j_state := Active, j_started_on := Some now\<rparr> \<and>
      j_name j = qn \<and> (j_state j = Created \<or> j_state j = Retry) \<and> j_start_after j \<le> now \<and> j_id j \<notin> set locked"
    if a: "a \<in> set js" for a
  proof -
    obtain j where j: "a = claim now j" "row d (j_id j) = Some j" "claimed locked now qn n d (j_id j)"
      using a unfolding fetch_result [OF assms] by blast
    then obtain j' where "row d (j_id j) = Some j'" "fetchable now qn j'" "j_id j \<notin> set locked"
      using claimed_row [OF assms(1)] by blast
    with j show ?thesis by (auto simp: claim_def fetchable_def)
  qed
  moreover have "row d' (j_id a) = Some a" if "a \<in> set js" for a
    using that fetch_rows [OF assms(2)] row_job [OF fetch_inv [OF assms]] by simp
  moreover have "row d' i = row d i" if "i \<notin> j_id ` set js" for i
    using that fetch_row [OF assms(2), of i] by (simp add: fetch_ids_iff [OF assms])
  ultimately show ?thesis using fetch_db [OF assms(2)] by simp
qed

theorem fetch_effect_witness:
  "\<exists>d'. fetch [7] 9 ''orders'' None (orders_db [job_at 7 1 Created 0 None None]) = Inr ([], d') \<and>
     row d' 7 = Some (job_at 7 1 Created 0 None None)"
proof -
  let ?d = "orders_db [job_at 7 1 Created 0 None None]"
  have inv: "db_inv ?d" by (simp add: example_inv)
  have f: "fetch [7] 9 ''orders'' None ?d = Inr ([], ?d)"
    by (simp add: fetch_def fetch_next_def sql_update_def orders_db_def job_at_def)
  show ?thesis using fetch_effect [OF inv f] f by (simp add: row_def orders_db_def job_at_def)
qed

section \<open>complete and fail\<close>

text \<open>
  C25: \<open>boss.complete\<close> returns true exactly when the job is active in the named queue; then the
  job is completed with the given output, and otherwise nothing changes. No other job changes
  in either case.
\<close>

theorem complete_spec:
  assumes "db_inv d"
  shows "\<exists>b d'. complete now qn i out d = (b, d') \<and>
    (b \<longleftrightarrow> (\<exists>j. row d i = Some j \<and> j_name j = qn \<and> j_state j = Active)) \<and>
    (\<not> b \<longrightarrow> (\<forall>k. row d' k = row d k)) \<and>
    (b \<longrightarrow> row d' i = map_option (\<lambda>j. j\<lparr>j_state := Completed, j_completed_on := Some now, j_output := out\<rparr>) (row d i)) \<and>
    (\<forall>k. k \<noteq> i \<longrightarrow> row d' k = row d k) \<and> queues d' = queues d \<and> notifies d' = notifies d"
proof -
  obtain b d' where c: "complete now qn i out d = (b, d')" by fastforce
  then have b: "b \<longleftrightarrow> (\<exists>j. row d i = Some j \<and> j_name j = qn \<and> j_state j = Active)"
    using complete_result [OF assms, of now qn i out] by simp
  have r: "row d' k = map_option (\<lambda>j. if is_active qn i j then completed now out j else j) (row d k)" for k
    using complete_row [of now qn i out d k] c by simp
  have other: "row d' k = row d k" if "k \<noteq> i" for k
    using that by (cases "row d k") (auto simp: r is_active_def dest: row_SomeD)
  have self: "row d' i = (if b then map_option (completed now out) (row d i) else row d i)"
    using b row_SomeD [of d i] by (cases "row d i") (auto simp: r is_active_def)
  have "row d' k = row d k" if "\<not> b" for k
    using that other self by (cases "k = i") simp_all
  moreover have "b \<Longrightarrow> row d' i = map_option (\<lambda>j. j\<lparr>j_state := Completed, j_completed_on := Some now, j_output := out\<rparr>) (row d i)"
    using self by (simp add: completed_def cong: map_option_cong)
  moreover have "queues d' = queues d" "notifies d' = notifies d"
    using c by (auto simp: complete_def Let_def)
  ultimately show ?thesis using c b other by blast
qed

theorem complete_spec_witness:
  "\<exists>d'. complete 9 ''orders'' 7 None (orders_db [job_at 7 0 Active 0 (Some 5) None]) = (True, d')"
proof -
  have "db_inv (orders_db [job_at 7 0 Active 0 (Some 5) None])" by (simp add: example_inv)
  from complete_spec [OF this, of 9 "''orders''" 7 None] show ?thesis
    by (auto simp: row_def orders_db_def job_at_def)
qed

lemma fail_active:
  assumes "db_inv d" "row d i = Some j" "j_name j = qn" "j_state j = Active"
    and "utf8_len (channel P qn) \<in> {1..63}"
  shows "\<exists>d'. fail P now qn i out d = Inr (True, d') \<and>
    row d' i = Some
      (if j_retry_count j < j_retry_limit j then
         j\<lparr>j_state := Retry, j_retry_count := j_retry_count j + 1,
           j_start_after := now + seconds (j_retry_delay j), j_started_on := None, j_output := out\<rparr>
       else j\<lparr>j_state := Failed, j_completed_on := Some now, j_started_on := None, j_output := out\<rparr>) \<and>
    (\<forall>k. k \<noteq> i \<longrightarrow> row d' k = row d k) \<and>
    notifies d' = notifies d @
      (if j_retry_count j < j_retry_limit j then [(channel P qn, uuid_out i)] else [])"
proof -
  have f: "find (is_active qn i) (jobs d) = Some j"
    using assms by (simp add: active_row)
  have ok: "pg_notify (channel P qn) (uuid_out i) x =
      Inr (x\<lparr>notifies := notifies x @ [(channel P qn, uuid_out i)]\<rparr>)" for x
    using assms(5) by (simp add: pg_notify_def)
  show ?thesis
  proof (cases "j_retry_count j < j_retry_limit j")
    case True
    then show ?thesis
      using assms(2) row_update_one [where g = "retried now out" and d = d and i = i]
      by (simp add: fail_eq [OF assms(1)] f ok) (simp add: retried_def)
  next
    case False
    then show ?thesis
      using assms(2) row_update_one [where g = "fail_row now out" and d = d and i = i]
      by (simp add: fail_eq [OF assms(1)] f) (simp add: fail_row_def)
  qed
qed

lemma fail_not_active:
  assumes "db_inv d" "\<And>j. row d i = Some j \<Longrightarrow> j_name j \<noteq> qn \<or> j_state j \<noteq> Active"
  shows "fail P now qn i out d = Inr (False, d)"
proof (cases "find (is_active qn i) (jobs d)")
  case None
  then show ?thesis by (simp add: fail_def)
next
  case (Some j)
  with assms show ?thesis by (auto simp: active_row)
qed

text \<open>
  C21: \<open>boss.fail\<close>, on a queue with a valid channel. On an active job of the queue it returns true: with
  attempts left the job goes to retry, its counter one higher, to start again after the retry
  delay, and the queue's listeners are notified; otherwise it is failed and nobody is notified. On anything else (a
  finished or waiting job, the wrong queue, an unknown id) it returns false and changes nothing.
\<close>

theorem fail_spec:
  assumes "db_inv d" "utf8_len (channel P qn) \<in> {1..63}"
  shows "\<exists>b d'. fail P now qn i out d = Inr (b, d') \<and>
    (b \<longleftrightarrow> (\<exists>j. row d i = Some j \<and> j_name j = qn \<and> j_state j = Active)) \<and> (\<not> b \<longrightarrow> d' = d) \<and>
    (b \<longrightarrow> row d' i = map_option (\<lambda>j.
      if j_retry_count j < j_retry_limit j then
         j\<lparr>j_state := Retry, j_retry_count := j_retry_count j + 1,
           j_start_after := now + seconds (j_retry_delay j), j_started_on := None, j_output := out\<rparr>
       else j\<lparr>j_state := Failed, j_completed_on := Some now, j_started_on := None, j_output := out\<rparr>) (row d i) \<and>
      notifies d' = notifies d @ (case row d i of
        Some j \<Rightarrow> if j_retry_count j < j_retry_limit j then [(channel P qn, uuid_out i)] else []
      | None \<Rightarrow> [])) \<and>
    (\<forall>k. k \<noteq> i \<longrightarrow> row d' k = row d k)"
proof (cases "\<exists>j. row d i = Some j \<and> j_name j = qn \<and> j_state j = Active")
  case True
  then obtain j where j: "row d i = Some j" "j_name j = qn" "j_state j = Active" by blast
  obtain d' where d': "fail P now qn i out d = Inr (True, d')"
    "row d' i = Some
      (if j_retry_count j < j_retry_limit j then
         j\<lparr>j_state := Retry, j_retry_count := j_retry_count j + 1,
           j_start_after := now + seconds (j_retry_delay j), j_started_on := None, j_output := out\<rparr>
       else j\<lparr>j_state := Failed, j_completed_on := Some now, j_started_on := None, j_output := out\<rparr>)"
    "\<forall>k. k \<noteq> i \<longrightarrow> row d' k = row d k"
    "notifies d' = notifies d @ (if j_retry_count j < j_retry_limit j then [(channel P qn, uuid_out i)] else [])"
    using fail_active [OF assms(1) j assms(2)] by blast
  show ?thesis
    by (rule exI [of _ True], rule exI [of _ d']) (use d' j in simp)
next
  case False
  then have "fail P now qn i out d = Inr (False, d)"
    by (intro fail_not_active [OF assms(1)]) auto
  then show ?thesis using False by auto
qed

theorem fail_spec_witness:
  "\<exists>d'. fail pg0 9 ''orders'' 7 None (orders_db [job_at 7 0 Active 2 (Some 5) None]) = Inr (True, d') \<and>
     map_option j_state (row d' 7) = Some Failed"
proof -
  let ?j = "job_at 7 0 Active 2 (Some 5) None"
  have inv: "db_inv (orders_db [?j])" by (simp add: example_inv)
  have r: "row (orders_db [?j]) 7 = Some ?j" by (simp add: row_def orders_db_def job_at_def)
  have c: "utf8_len (channel pg0 ''orders'') \<in> {1..63}"
    by (simp add: channel_def is_ascii_def char_code_def)
  have "j_name ?j = ''orders''" "j_state ?j = Active" by (simp_all add: job_at_def)
  with fail_spec [OF inv c, of 9 7 None] r show ?thesis by (auto simp: job_at_def)
qed

text \<open>
  C29: a failed job is not handed out again before its retry delay has passed: after a
  \<open>boss.fail\<close> at time \<open>t\<close> that sent the job to retry, no \<open>boss.fetch\<close> at a time before \<open>t\<close> plus
  the delay returns it.
\<close>

theorem retry_delay_respected:
  assumes "db_inv d" "row d i = Some j" "j_state j = Active" "j_retry_count j < j_retry_limit j"
    and "fail P t (j_name j) i out d = Inr (b, d')"
    and "now < t + seconds (j_retry_delay j)" "fetch locked now qn n d' = Inr (js, d'')"
  shows "i \<notin> j_id ` set js"
proof
  assume "i \<in> j_id ` set js"
  then have c: "claimed locked now qn n d' i"
    using fetch_ids_iff [OF fail_inv [OF assms(1,5)] assms(7)] by simp
  then obtain k where k: "row d' i = Some k" "fetchable now qn k"
    by (rule claimed_row [OF fail_inv [OF assms(1,5)]])
  have "row d' i = Some (retried t out j)"
    using assms(2-4) row_SomeD [OF assms(2)]
    by (simp add: fail_row_db(1) [OF assms(1,5)] is_active_def failed_def)
  with k assms(6) show False by (auto simp: fetchable_def retried_def)
qed

theorem retry_delay_respected_witness:
  "\<exists>b d'. fail pg0 9 ''orders'' 7 None (orders_db [(job_at 7 0 Active 0 (Some 5) None)\<lparr>j_retry_delay := 1\<rparr>])
       = Inr (b, d') \<and> (\<forall>js d''. fetch [] 10 ''orders'' (Some 1) d' = Inr (js, d'') \<longrightarrow> 7 \<notin> j_id ` set js)"
proof -
  let ?j = "(job_at 7 0 Active 0 (Some 5) None)\<lparr>j_retry_delay := 1\<rparr>"
  have inv: "db_inv (orders_db [?j])"
    by (simp add: orders_db_inv job_wf_def job_at_def in_int4_def)
  have r: "row (orders_db [?j]) 7 = Some ?j" by (simp add: row_def orders_db_def job_at_def)
  have c: "utf8_len (channel pg0 ''orders'') \<in> {1..63}"
    by (simp add: channel_def is_ascii_def char_code_def)
  have s: "j_name ?j = ''orders''" "j_state ?j = Active" "j_retry_count ?j < j_retry_limit ?j"
    "(10::int) < 9 + seconds (j_retry_delay ?j)"
    by (simp_all add: job_at_def seconds_def)
  obtain d' where f: "fail pg0 9 ''orders'' 7 None (orders_db [?j]) = Inr (True, d')"
  proof -
    have "\<exists>d'. fail pg0 9 ''orders'' 7 None (orders_db [?j]) = Inr (True, d')"
      unfolding fail_eq [OF inv]
      using c by (simp add: orders_db_def is_active_def job_at_def pg_notify_def)
    then show ?thesis using that by blast
  qed
  show ?thesis
    using retry_delay_respected [OF inv r s(2,3) _ s(4), of pg0 None True d'] f s(1)
    by (intro exI [of _ True] exI [of _ d']) metis
qed

section \<open>maintain and the worker\<close>

text \<open>
  C22: \<open>boss.maintain\<close> never fails on a reachable database, and it does to each job exactly
  this: a job that is active for longer than its expiry goes to retry or to failed, its output
  marked; a terminal job past its retention is removed, one that has just failed included;
  every other job stays as it is. Queues and notifications stay.
\<close>

theorem maintain_spec:
  assumes "db_inv d"
  shows "\<exists>d'. maintain now d = Inr d' \<and> queues d' = queues d \<and> notifies d' = notifies d \<and>
    (\<forall>i. row d' i =
      (case row d i of
         None \<Rightarrow> None
       | Some j \<Rightarrow>
           if j_state j = Active \<and> (\<exists>t. j_started_on j = Some t \<and> now - t > seconds (j_expire_seconds j)) then
             if j_retry_count j < j_retry_limit j then
               Some (j\<lparr>j_state := Retry, j_retry_count := j_retry_count j + 1,
                       j_start_after := now + seconds (j_retry_delay j), j_started_on := None,
                       j_output := expired_output j\<rparr>)
             else if j_keep_until j < now then None
             else Some (j\<lparr>j_state := Failed, j_completed_on := Some now, j_started_on := None,
                          j_output := expired_output j\<rparr>)
           else if (j_state j = Completed \<or> j_state j = Failed) \<and> j_keep_until j < now then None
           else Some j))"
proof -
  obtain d' where m: "maintain now d = Inr d'" using maintain_eq [OF assms] by blast
  then have d': "queues d' = queues d" "notifies d' = notifies d"
    by (auto simp: maintain_eq [OF assms])
  have e: "expired now j \<longleftrightarrow>
      j_state j = Active \<and> (\<exists>t. j_started_on j = Some t \<and> now - t > seconds (j_expire_seconds j))" for j
    by (auto simp: expired_def split: option.splits)
  have "row d' i = (case row d i of
         None \<Rightarrow> None
       | Some j \<Rightarrow>
           if expired now j then
             if j_retry_count j < j_retry_limit j then Some (retried now (expired_output j) j)
             else if j_keep_until j < now then None
             else Some (fail_row now (expired_output j) j)
           else if (j_state j = Completed \<or> j_state j = Failed) \<and> j_keep_until j < now then None
           else Some j)" for i
    using row_wf [OF assms, of i]
    by (cases "row d i")
      (auto simp: maintain_row [OF assms m] maintained_def purgeable_def expire_job_def fail_row_def job_wf_def)
  with m d' show ?thesis unfolding e retried_def fail_row_def by blast
qed

theorem maintain_spec_witness:
  "\<exists>d'. maintain 900000006 (orders_db [job_at 7 0 Active 0 (Some 5) None]) = Inr d' \<and>
     map_option j_state (row d' 7) = Some Retry"
proof -
  have "db_inv (orders_db [job_at 7 0 Active 0 (Some 5) None])" by (simp add: example_inv)
  from maintain_spec [OF this, of 900000006] show ?thesis
    by (auto simp: row_def orders_db_def job_at_def seconds_def)
qed

text \<open>Maintenance is idempotent: a second run at the same time changes nothing.\<close>

theorem maintain_idempotent:
  assumes "db_inv d" "maintain now d = Inr d'"
  shows "maintain now d' = Inr d'"
proof -
  have inv: "db_inv d'" using assms by (rule maintain_inv)
  have j: "\<not> expired now j \<and> \<not> purgeable now j" if "j \<in> set (jobs d')" for j
  proof -
    have "row d' (j_id j) = Some j" using inv that by (rule row_job)
    then obtain j0 where "j = maintained now j0" "\<not> purgeable now j"
      by (auto simp: maintain_row [OF assms] split: option.splits if_splits)
    then show ?thesis
      by (auto simp: maintained_def expired_def expire_job_def split: if_splits)
  qed
  then have "sql_update (expired now) (expire_job now) (jobs d') = jobs d'"
    by (intro sql_update_id) blast
  moreover have "sql_delete (purgeable now) (jobs d') = jobs d'"
    using j by (simp add: sql_delete_def)
  ultimately show ?thesis by (simp add: maintain_eq [OF inv])
qed

theorem maintain_idempotent_witness:
  "\<exists>d'. maintain 900000006 (orders_db [job_at 7 0 Active 0 (Some 5) None]) = Inr d' \<and> maintain 900000006 d' = Inr d'"
proof -
  have inv: "db_inv (orders_db [job_at 7 0 Active 0 (Some 5) None])" by (simp add: example_inv)
  then obtain d' where "maintain 900000006 (orders_db [job_at 7 0 Active 0 (Some 5) None]) = Inr d'"
    using maintain_eq by blast
  then show ?thesis using maintain_idempotent [OF inv] by blast
qed

text \<open>
  Expiry marks the output: the output of an expired job that had none, or an object, is an
  object that says \<open>__expired: true\<close> and keeps all other members.
\<close>

lemma expiry_marks_output:
  assumes "job_wf j" "expired now j" "j_output j = None \<or> j_output j = Some (JObj m)"
  shows "\<exists>j' v. expire_row now j = Inr j' \<and> j_output j' = Some v \<and>
    json_get v ''__expired'' = Some (JBool True) \<and>
    (\<forall>k. k \<noteq> ''__expired'' \<longrightarrow> json_get v k = Option.bind (j_output j) (\<lambda>x. json_get x k))"
proof -
  have "j_output (expire_job now j) = expired_output j"
    by (simp add: expire_job_def retried_def fail_row_def)
  then show ?thesis
    using assms(3)
    by (auto simp: expire_row_eq [OF assms(1,2)] expired_output_def jsonb_concat_obj json_get_insert)
qed

end
