(* ===== verification/Control_Props.thy ===== *)
theory Control_Props
  imports Examples
begin

text \<open>
  The properties of queue creation and deletion, of enqueueing with its options and channel,
  and of the background worker (src/src/lib.rs and the producer side of src/src/schema.rs).
\<close>

section \<open>send\<close>

text \<open>The value of an integer option, or the default when it is absent.\<close>

definition int_option :: "json \<Rightarrow> string \<Rightarrow> int \<Rightarrow> int" where
  "int_option v k dflt = (case json_get v k of Some (JNum n 0) \<Rightarrow> n | _ \<Rightarrow> dflt)"

definition int_or_absent :: "json \<Rightarrow> string \<Rightarrow> bool" where
  "int_or_absent v k \<longleftrightarrow> json_get v k = None \<or> (\<exists>n. json_get v k = Some (JNum n 0) \<and> in_int4 n)"

lemma int4_or_option:
  "int_or_absent v k \<Longrightarrow> int4_or (arrow_text (Some v) k) dflt = Inr (int_option v k dflt)"
  by (auto simp: int_or_absent_def int_option_def int4_in_show_int)

lemma all_digits_show_int: "all_digits (show_int n) \<longleftrightarrow> 0 \<le> n"
  by (simp add: all_digits_def show_int_def show_nat_digits is_digit_def char_code_def)

lemma start_after_option:
  assumes "int_or_absent v ''startAfter''" "0 \<le> int_option v ''startAfter'' 0"
  shows "start_after_of P now (arrow_text (Some v) ''startAfter'') =
    Inr (now + seconds (int_option v ''startAfter'' 0))"
  using assms
  by (auto simp: int_or_absent_def int_option_def start_after_of_def all_digits_show_int
      int4_in_show_int seconds_def)

definition int_options :: "json \<Rightarrow> bool" where
  "int_options v \<longleftrightarrow>
     (\<forall>k \<in> {''priority'', ''startAfter'', ''retryLimit'', ''retryDelay'', ''expireInSeconds''}. int_or_absent v k) \<and>
     0 \<le> int_option v ''startAfter'' 0"

definition sent_job :: "int \<Rightarrow> uuid \<Rightarrow> queue \<Rightarrow> json option \<Rightarrow> json \<Rightarrow> job" where
  "sent_job now new_id q data v =
     \<lparr>j_id = new_id, j_name = q_name q, j_priority = int_option v ''priority'' 0,
      j_data = Some (case data of None \<Rightarrow> JObj [] | Some x \<Rightarrow> x), j_state = Created,
      j_retry_limit = int_option v ''retryLimit'' (q_retry_limit q), j_retry_count = 0,
      j_retry_delay = int_option v ''retryDelay'' (q_retry_delay q),
      j_expire_seconds = int_option v ''expireInSeconds'' (q_expire_seconds q),
      j_start_after = now + seconds (int_option v ''startAfter'' 0), j_created_on = now,
      j_started_on = None, j_completed_on = None,
      j_keep_until = now + seconds (q_retention_seconds q), j_output = None\<rparr>"

lemma send_int_options:
  assumes "db_inv d" "q \<in> set (queues d)" "new_id \<notin> ids d" "int_options v"
  shows "send P now new_id (q_name q) data (Some v) d =
    rbind (pg_notify (channel P (q_name q)) (uuid_out new_id) (d\<lparr>jobs := jobs d @ [sent_job now new_id q data v]\<rparr>))
      (\<lambda>d'. Inr (new_id, d'))"
proof -
  have f: "find (\<lambda>x. q_name x = q_name q) (queues d) = Some q"
    using assms(1,2) by (intro find_key_unique) (simp_all add: db_inv_def)
  have i: "insert_job (sent_job now new_id q data v) d =
      Inr (d\<lparr>jobs := jobs d @ [sent_job now new_id q data v]\<rparr>)"
    using assms(2,3) by (simp add: insert_job_def ids_def sent_job_def)
  have p: "int4_or (arrow_text (Some v) ''priority'') x = Inr (int_option v ''priority'' x)"
    and l: "int4_or (arrow_text (Some v) ''retryLimit'') x = Inr (int_option v ''retryLimit'' x)"
    and y: "int4_or (arrow_text (Some v) ''retryDelay'') x = Inr (int_option v ''retryDelay'' x)"
    and e: "int4_or (arrow_text (Some v) ''expireInSeconds'') x = Inr (int_option v ''expireInSeconds'' x)" for x
    using assms(4) int4_or_option by (simp_all add: int_options_def del: arrow_text_simps)
  have "start_after_of P now (arrow_text (Some v) ''startAfter'') = Inr (now + seconds (int_option v ''startAfter'' 0))"
    using assms(4) by (intro start_after_option) (simp_all add: int_options_def)
  then show ?thesis
    unfolding send_def f option.case p l y e rbind_simps i [unfolded sent_job_def] sent_job_def
    by (simp only: rbind_simps i [unfolded sent_job_def])
qed

text \<open>
  C26: what \<open>boss.send\<close> enqueues. On a registered queue with a valid channel and with integer
  options, it returns the new id, appends one created job and notifies the queue's channel once;
  each setting of the job is the option if it is given and otherwise the queue's default, the
  start is \<open>startAfter\<close> seconds from now, and a NULL payload becomes the empty object.
\<close>

theorem send_spec:
  assumes "db_inv d" "q \<in> set (queues d)" "new_id \<notin> ids d"
    and "utf8_len (channel P (q_name q)) \<in> {1..63}"
    and "int_options v"
  shows "send P now new_id (q_name q) data (Some v) d = Inr (new_id,
    d\<lparr>jobs := jobs d @
        [\<lparr>j_id = new_id, j_name = q_name q, j_priority = int_option v ''priority'' 0,
          j_data = Some (case data of None \<Rightarrow> JObj [] | Some x \<Rightarrow> x), j_state = Created,
          j_retry_limit = int_option v ''retryLimit'' (q_retry_limit q), j_retry_count = 0,
          j_retry_delay = int_option v ''retryDelay'' (q_retry_delay q),
          j_expire_seconds = int_option v ''expireInSeconds'' (q_expire_seconds q),
          j_start_after = now + seconds (int_option v ''startAfter'' 0), j_created_on = now,
          j_started_on = None, j_completed_on = None,
          j_keep_until = now + seconds (q_retention_seconds q), j_output = None\<rparr>],
      notifies := notifies d @ [(channel P (q_name q), uuid_out new_id)]\<rparr>)"
  using assms(4) by (simp add: send_int_options [OF assms(1-3,5)] pg_notify_def sent_job_def)

theorem send_spec_witness:
  "\<exists>d'. send pg0 5 7 ''orders'' None (Some (JObj [(''priority'', JNum 4 0)])) (orders_db []) = Inr (7, d') \<and>
     map j_priority (jobs d') = [4] \<and> map j_retry_limit (jobs d') = [2]"
proof -
  have "db_inv (orders_db [])" "orders \<in> set (queues (orders_db []))" "7 \<notin> ids (orders_db [])"
    by (simp_all add: example_inv) (simp_all add: orders_db_def ids_def)
  moreover have "utf8_len (channel pg0 (q_name orders)) \<in> {1..63}"
    by (simp add: channel_def is_ascii_def char_code_def orders_def)
  moreover have "int_options (JObj [(''priority'', JNum 4 0)])"
    by (simp add: int_options_def int_or_absent_def int_option_def in_int4_def)
  ultimately show ?thesis
    using send_spec [of "orders_db []" orders 7 pg0 "JObj [(''priority'', JNum 4 0)]" 5 None]
    by (simp add: int_option_def orders_def orders_db_def)
qed

text \<open>
  \<open>boss.send\<close> to a queue that is not registered fails with the name of the queue, and it is
  the only way to get that error from a call with integer options.
\<close>

lemma send_unknown_queue:
  assumes "db_inv d" "new_id \<notin> ids d" "int_options v"
  shows "send P now new_id qn data (Some v) d = Inl (UndefinedObject qn) \<longleftrightarrow> qn \<notin> q_name ` set (queues d)"
proof (cases "qn \<in> q_name ` set (queues d)")
  case False
  then have "find (\<lambda>x. q_name x = qn) (queues d) = None" by (auto simp: find_None_iff)
  with False show ?thesis by (simp add: send_def)
next
  case True
  then obtain q where "q \<in> set (queues d)" "qn = q_name q" by blast
  with True send_int_options [OF assms(1) _ assms(2,3), of q P now data] show ?thesis
    by (simp add: pg_notify_def)
qed

text \<open>A negative integer as \<open>startAfter\<close> is no delay: it is cast to \<open>timestamptz\<close> instead.\<close>

lemma negative_start_after:
  assumes "json_get v ''startAfter'' = Some (JNum n 0)" "n < 0"
  shows "start_after_of P now (arrow_text (Some v) ''startAfter'') = pg_timestamptz P now (show_int n)"
  using assms by (simp add: start_after_of_def all_digits_show_int)

section \<open>Channels\<close>

text \<open>
  For a queue name of ASCII characters, of any length, the channel is a valid identifier of
  5 to 63 bytes, so the notification of \<open>boss.send\<close> and \<open>boss.fail\<close> never fails on it.
\<close>

lemma ascii_channel_valid:
  assumes "pg_md5_ok P" "list_all is_ascii qn"
  shows "utf8_len (channel P qn) \<in> {5..63}"
proof -
  have b: "list_all is_ascii ''boss_''" by (simp add: is_ascii_def char_code_def)
  have "utf8_len (''boss_'' @ qn) = length (''boss_'' @ qn)"
    using assms(2) b by (intro utf8_len_ascii) simp
  moreover have "utf8_len (''boss_'' @ pg_md5 P qn) = 37"
    using assms(1) b utf8_len_ascii [of "''boss_'' @ pg_md5 P qn"] by (simp add: pg_md5_ok_def)
  ultimately show ?thesis unfolding channel_def by (auto simp del: utf8_len_simps)
qed

text \<open>
  C32: a defect. The limit of 63 is one of bytes, but \<open>boss.channel\<close> compares the length in
  characters: a queue whose name has at most 58 characters and more than 58 bytes can be
  created, but no job can ever be sent to it.
\<close>

theorem multibyte_queue_unusable:
  assumes "length qn \<le> 58" "58 < utf8_len qn"
  shows "send P now new_id qn data options d \<noteq> Inr r"
proof
  assume s: "send P now new_id qn data options d = Inr r"
  have "utf8_len (''boss_'' @ qn) = 5 + utf8_len qn" by (simp add: is_ascii_def char_code_def)
  then have "64 \<le> utf8_len (channel P qn)"
    using assms unfolding channel_def by (simp del: utf8_len_simps)
  then have "pg_notify (channel P qn) p x = Inl ChannelNameTooLong" for p x
    by (simp add: pg_notify_def)
  with s show False
    by (auto simp: send_def split: option.splits)
qed

theorem multibyte_queue_unusable_witness:
  "\<forall>d r. send pg0 5 7 (replicate 40 (CHR 0xE9)) None None d \<noteq> Inr r"
proof (intro allI multibyte_queue_unusable)
  show "58 < utf8_len (replicate 40 (CHR 0xE9))"
    by (simp add: utf8_len_def is_ascii_def char_code_def sum_list_replicate)
qed simp

section \<open>create_queue and delete_queue\<close>

lemma create_queue_idempotent:
  "fst (create_queue now name options d)"
  "name \<in> q_name ` set (queues d) \<Longrightarrow> snd (create_queue now name options d) = d"
  "q_name ` set (queues (snd (create_queue now name options d))) = insert name (q_name ` set (queues d))"
  by (auto simp: create_queue_def insert_queue_def Let_def)

text \<open>The column that an option of \<open>boss.create_queue\<close> sets.\<close>

definition queue_setting :: "string \<Rightarrow> queue \<Rightarrow> int" where
  "queue_setting k q =
     (if k = ''retryLimit'' then q_retry_limit q
      else if k = ''retryDelay'' then q_retry_delay q
      else if k = ''expireInSeconds'' then q_expire_seconds q
      else q_retention_seconds q)"

lemma created_setting:
  assumes "name \<notin> q_name ` set (queues d)" "k \<in> {''retryLimit'', ''retryDelay'', ''expireInSeconds'', ''retentionSeconds''}"
    and "json_get options k = Some (JNum n 0)" "in_i64 n"
  shows "\<exists>q. queues (snd (create_queue now name options d)) = queues d @ [q] \<and> queue_setting k q = as_i32 n"
proof -
  let ?q = "\<lparr>q_name = name, q_retry_limit = opt_i32 options ''retryLimit'' 2, q_retry_delay = opt_i32 options ''retryDelay'' 0,
    q_expire_seconds = opt_i32 options ''expireInSeconds'' 900,
    q_retention_seconds = opt_i32 options ''retentionSeconds'' (60 * 60 * 24 * 14), q_created_on = now\<rparr>"
  have "queues (snd (create_queue now name options d)) = queues d @ [?q]"
    using assms(1) by (simp add: create_queue_def insert_queue_def Let_def)
  moreover have "opt_i32 options k x = as_i32 n" for x
    using assms(3,4) by (simp add: opt_i32_def)
  then have "queue_setting k ?q = as_i32 n"
    using assms(2) by (elim insertE) (simp_all add: queue_setting_def)
  ultimately show ?thesis by blast
qed

lemma int4_option_error:
  assumes "json_get v k = Some (JNum n 0)" "\<not> in_int4 n"
  shows "int4_or (arrow_text (Some v) k) dflt = Inl NumericOutOfRange"
  using assms by (simp add: int4_in_show_int_over)

text \<open>Options for \<open>boss.send\<close> that are integers of any size, the start not negative.\<close>

definition integer_keys :: "json \<Rightarrow> bool" where
  "integer_keys v \<longleftrightarrow>
     (\<forall>k \<in> {''priority'', ''startAfter'', ''retryLimit'', ''retryDelay'', ''expireInSeconds''}.
        json_get v k = None \<or> (\<exists>m. json_get v k = Some (JNum m 0))) \<and>
     0 \<le> int_option v ''startAfter'' 0"

lemma integer_key_value:
  "json_get v k = None \<or> (\<exists>m. json_get v k = Some (JNum m 0)) \<Longrightarrow>
   (\<exists>z. int4_or (arrow_text (Some v) k) dflt = Inr z) \<or> int4_or (arrow_text (Some v) k) dflt = Inl NumericOutOfRange"
  by (auto simp: int4_in_integer split: if_splits)

lemma integer_start:
  assumes "integer_keys v"
  shows "(\<exists>z. start_after_of P now (arrow_text (Some v) ''startAfter'') = Inr z) \<or>
    start_after_of P now (arrow_text (Some v) ''startAfter'') = Inl NumericOutOfRange"
  using assms
  by (auto simp: integer_keys_def int_option_def start_after_of_def all_digits_show_int int4_in_integer split: if_splits)

lemma send_rejects:
  assumes "k \<in> {''retryLimit'', ''retryDelay'', ''expireInSeconds''}" "json_get v k = Some (JNum n 0)" "\<not> in_int4 n"
  shows "send P now i qn data (Some v) d \<noteq> Inr r"
    and "qn \<in> q_name ` set (queues d) \<Longrightarrow> integer_keys v \<Longrightarrow> send P now i qn data (Some v) d = Inl NumericOutOfRange"
proof -
  have k: "int4_or (arrow_text (Some v) ''retryLimit'') a = Inl NumericOutOfRange \<or>
      int4_or (arrow_text (Some v) ''retryDelay'') b = Inl NumericOutOfRange \<or>
      int4_or (arrow_text (Some v) ''expireInSeconds'') c = Inl NumericOutOfRange" for a b c
    using assms(1) int4_option_error [OF assms(2,3)] by blast
  show "send P now i qn data (Some v) d \<noteq> Inr r"
  proof (cases "find (\<lambda>x. q_name x = qn) (queues d)")
    case (Some q)
    show ?thesis
      using k [of "q_retry_limit q" "q_retry_delay q" "q_expire_seconds q"]
      by (auto simp: send_def Some rbind_eq_Inr simp del: arrow_text_simps)
  qed (simp add: send_def)
  assume q: "qn \<in> q_name ` set (queues d)" and v: "integer_keys v"
  then obtain q where f: "find (\<lambda>q. q_name q = qn) (queues d) = Some q"
    by (metis (mono_tags, lifting) find_None_iff imageE option.exhaust)
  have key: "(\<exists>z. int4_or (arrow_text (Some v) k) a = Inr z) \<or> int4_or (arrow_text (Some v) k) a = Inl NumericOutOfRange"
    if "k \<in> {''priority'', ''retryLimit'', ''retryDelay'', ''expireInSeconds''}" for k a
    using v that by (intro integer_key_value) (auto simp: integer_keys_def)
  show "send P now i qn data (Some v) d = Inl NumericOutOfRange"
    unfolding send_def f option.case
    using integer_start [OF v, of P now] key [of "''priority''" 0] key [of "''retryLimit''" "q_retry_limit q"]
      key [of "''retryDelay''" "q_retry_delay q"] key [of "''expireInSeconds''" "q_expire_seconds q"]
      k [of "q_retry_limit q" "q_retry_delay q" "q_expire_seconds q"]
    by (auto simp del: arrow_text_simps)
qed

text \<open>
  C39: the integer options of a queue. \<open>boss.create_queue\<close> stores each of its four options modulo \<open>2 ^ 32\<close>: the stored
  value is in the range of \<open>int4\<close>, agrees with the given one modulo \<open>2 ^ 32\<close>, and is the given
  one exactly when that is in range. A value out of range is never accepted by \<open>boss.send\<close> for any of the
  three options the two share, on any database: on a registered queue and with integer options the call fails with
  \<open>numeric_value_out_of_range\<close>.
\<close>

theorem integer_options_wrap:
  assumes "name \<notin> q_name ` set (queues d)"
    and "k \<in> {''retryLimit'', ''retryDelay'', ''expireInSeconds'', ''retentionSeconds''}"
    and "json_get options k = Some (JNum n 0)" "in_i64 n"
  shows "(\<exists>q. queues (snd (create_queue now name options d)) = queues d @ [q] \<and>
      in_int4 (queue_setting k q) \<and> queue_setting k q mod 2 ^ 32 = n mod 2 ^ 32 \<and>
      (queue_setting k q = n \<longleftrightarrow> in_int4 n)) \<and>
    (k \<noteq> ''retentionSeconds'' \<and> \<not> in_int4 n \<longrightarrow>
      (\<forall>r. send P now1 i qn data (Some options) d1 \<noteq> Inr r) \<and>
      (qn \<in> q_name ` set (queues d1) \<and> integer_keys options \<longrightarrow>
        send P now1 i qn data (Some options) d1 = Inl NumericOutOfRange))"
proof -
  have sk: "k \<in> {''retryLimit'', ''retryDelay'', ''expireInSeconds''}" if "k \<noteq> ''retentionSeconds''"
    using assms(2) that by auto
  obtain q where "queues (snd (create_queue now name options d)) = queues d @ [q]" "queue_setting k q = as_i32 n"
    using created_setting [OF assms, of now] by blast
  moreover have "in_int4 (as_i32 n) \<and> as_i32 n mod 2 ^ 32 = n mod 2 ^ 32 \<and> (as_i32 n = n \<longleftrightarrow> in_int4 n)"
    using as_i32_in_int4 [of n] as_i32_cong [of n] as_i32_eq_iff [of n] by blast
  ultimately show ?thesis
    using send_rejects [OF sk assms(3), where P = P and now = now1 and i = i and qn = qn and data = data and d = d1]
    by metis
qed

theorem integer_options_wrap_witness:
  "\<exists>q. queues (snd (create_queue 0 ''q'' (JObj [(''retryDelay'', JNum 4294967297 0)]) empty_db)) = [q] \<and>
     q_retry_delay q \<noteq> 4294967297 \<and> in_int4 (q_retry_delay q) \<and>
     send pg0 5 7 ''orders'' None (Some (JObj [(''retryDelay'', JNum 4294967297 0)])) (orders_db []) = Inl NumericOutOfRange"
proof -
  let ?v = "JObj [(''retryDelay'', JNum 4294967297 0)]"
  have "''q'' \<notin> q_name ` set (queues empty_db)" "''retryDelay'' \<in> {''retryLimit'', ''retryDelay'', ''expireInSeconds'', ''retentionSeconds''}"
    "json_get ?v ''retryDelay'' = Some (JNum 4294967297 0)"
    "in_i64 4294967297" by (simp_all add: empty_db_def in_i64_def)
  note w = integer_options_wrap [OF this, of 0 pg0 5 7 "''orders''" None "orders_db []"]
  have "integer_keys ?v" "''orders'' \<in> q_name ` set (queues (orders_db []))"
    by (simp_all add: integer_keys_def int_option_def orders_db_def orders_def)
  moreover have "\<not> in_int4 4294967297" by (simp add: in_int4_def)
  ultimately show ?thesis using w by (auto simp: empty_db_def queue_setting_def)
qed


text \<open>
  \<open>boss.delete_queue\<close> removes the queue and exactly its jobs: every other queue stays, in
  its place, and every job of another queue stays as it is.
\<close>

lemma delete_queue_cascades:
  assumes "db_inv d"
  shows "\<exists>d'. delete_queue name d = (True, d') \<and>
    queues d' = filter (\<lambda>q. q_name q \<noteq> name) (queues d) \<and> notifies d' = notifies d \<and>
    (\<forall>i. row d' i = (case row d i of None \<Rightarrow> None | Some j \<Rightarrow> if j_name j = name then None else Some j))"
  using delete_queue_row [OF assms, of name]
  by (simp add: delete_queue_def sql_delete_def)

lemma get_queues_spec:
  assumes "db_inv d"
  shows "set (get_queues P d) = set (queues d)" "distinct (map q_name (get_queues P d))"
    "sorted (map (\<lambda>q. pg_collkey P (q_name q)) (get_queues P d))"
  using assms by (simp_all add: get_queues_def distinct_map db_inv_def)

text \<open>
  C40: the registered queues. \<open>boss.create_queue\<close> always returns true and adds the name; on a registered name it
  changes nothing, whatever its options. \<open>boss.get_queues\<close> then lists every queue exactly
  once, in the order of the database's collation: the names before and the new one after \<open>create_queue\<close>, and the
  names before without the deleted one after \<open>boss.delete_queue\<close>.
\<close>

theorem queue_registry:
  assumes "db_inv d"
  shows "fst (create_queue now name options d) \<and>
    (name \<in> q_name ` set (queues d) \<longrightarrow> snd (create_queue now name options d) = d) \<and>
    q_name ` set (get_queues P (snd (create_queue now name options d))) = insert name (q_name ` set (queues d)) \<and>
    q_name ` set (get_queues P (snd (delete_queue name d))) = q_name ` set (queues d) - {name} \<and>
    (\<forall>d1 \<in> {snd (create_queue now name options d), snd (delete_queue name d)}.
       distinct (map q_name (get_queues P d1)) \<and> sorted (map (\<lambda>q. pg_collkey P (q_name q)) (get_queues P d1)))"
proof -
  have inv: "db_inv (snd (create_queue now name options d))" "db_inv (snd (delete_queue name d))"
    using create_queue_inv delete_queue_inv assms by auto
  have "q_name ` set (queues (snd (delete_queue name d))) = q_name ` set (queues d) - {name}"
    by (auto simp: delete_queue_def sql_delete_def)
  then show ?thesis
    using create_queue_idempotent get_queues_spec [OF inv(1)] get_queues_spec [OF inv(2)] by simp
qed

theorem queue_registry_witness:
  "set (map q_name (get_queues pg0 (snd (create_queue 9 ''mail'' (JObj [(''retryLimit'', JNum 8 0)]) (orders_db []))))) =
    {''orders'', ''mail''}"
proof -
  have "db_inv (orders_db [])" by (simp add: example_inv)
  from queue_registry [OF this, of 9 "''mail''" "JObj [(''retryLimit'', JNum 8 0)]" pg0] show ?thesis
    by (auto simp: orders_db_def orders_def)
qed

section \<open>The background worker\<close>

text \<open>The calls of \<open>boss.maintain\<close> the worker makes.\<close>

definition maintain_calls :: "wake list \<Rightarrow> (int \<times> op) list" where
  "maintain_calls ws = map (\<lambda>w. (w_now w, OpMaintain)) (filter w_installed (takeWhile w_continue ws))"

lemma worker_runs_maintain:
  "db_inv d \<Longrightarrow> worker_loop worker_tick ws d = Inr (run_ops (exec_op P) (maintain_calls ws) d)"
proof (induction ws arbitrary: d)
  case (Cons w ws)
  obtain d1 where d1: "maintain (w_now w) d = Inr d1" "db_inv d1"
    using maintain_eq [OF Cons.prems, of "w_now w"] maintain_inv [OF Cons.prems, of "w_now w"] by auto
  show ?case
    using Cons.IH [OF d1(2)] Cons.IH [OF Cons.prems] d1(1)
    by (simp add: maintain_calls_def worker_tick_def perform_maintain_def)
qed (simp add: maintain_calls_def)

text \<open>
  C30: the maintenance worker never panics: whatever the sequence of its wake-ups, and whether the extension is installed
  at each of them or not (where it is not, a call of \<open>boss.maintain\<close> would be an error), on a
  well-formed database every transaction of its loop succeeds. The result is that of one call of \<open>boss.maintain\<close> at each wake-up that
  finds the extension, up to the first that tells the worker to stop. The worker sleeps
  at least one second between runs, and exactly the configured seconds for every value the
  setting accepts.
\<close>

theorem worker_never_panics:
  assumes "db_inv d"
  shows "\<exists>db secs d'. background_worker_main c ws d = (db, secs, Inr d') \<and> db_inv d' \<and>
    d' = run_ops (exec_op P)
      (map (\<lambda>w. (w_now w, OpMaintain)) (filter w_installed (takeWhile w_continue ws))) d \<and>
    1 \<le> secs \<and> (guc_accepts maintenance_interval (cfg_interval c) \<longrightarrow> int secs = cfg_interval c)"
  using maint.loop_ok [OF assms, of ws] worker_runs_maintain [OF assms, of ws P]
  by (auto simp: background_worker_main_def worker_interval_def maintenance_interval_def maintain_calls_def)

theorem worker_never_panics_witness:
  "\<exists>db secs d'. background_worker_main \<lparr>cfg_database = None, cfg_interval = 60\<rparr>
      [\<lparr>w_continue = True, w_now = 7, w_installed = False\<rparr>, \<lparr>w_continue = True, w_now = 900000006, w_installed = True\<rparr>]
      (orders_db [job_at 7 0 Active 0 (Some 5) None]) = (db, secs, Inr d') \<and> int secs = 60 \<and>
      maintain 900000006 (orders_db [job_at 7 0 Active 0 (Some 5) None]) = Inr d'"
proof -
  let ?d = "orders_db [job_at 7 0 Active 0 (Some 5) None]"
  have inv: "db_inv ?d" by (simp add: example_inv)
  obtain d1 where "maintain 900000006 ?d = Inr d1" using maintain_eq [OF inv, of 900000006] by blast
  then show ?thesis
    using worker_never_panics [OF inv, of "\<lparr>cfg_database = None, cfg_interval = 60\<rparr>"
      "[\<lparr>w_continue = True, w_now = 7, w_installed = False\<rparr>, \<lparr>w_continue = True, w_now = 900000006, w_installed = True\<rparr>]" pg0]
    by (auto simp: maintenance_interval_def)
qed

text \<open>
  The worker stops at the first wake-up that says so: the wake-ups after it are without
  effect, and so are all when the extension is not installed.
\<close>

lemma worker_stops:
  "worker_loop worker_tick ws d = worker_loop worker_tick (takeWhile w_continue ws) d \<and>
   worker_loop worker_tick (map (\<lambda>w. w\<lparr>w_installed := False\<rparr>) ws) d = Inr d"
proof -
  have "worker_loop worker_tick (map (\<lambda>w. w\<lparr>w_installed := False\<rparr>) ws) d = Inr d"
    by (induction ws) (auto simp: worker_tick_def)
  then show ?thesis using maint.loop_stops by blast
qed

end
