(* ===== verification/Serial.thy ===== *)
theory Serial
  imports Skip_Locked
begin

text \<open>
  Atomic fetches and the sessions of Skip_Locked (\<open>boss.fetch\<close> in src/src/schema.rs): the claims of a committed session
  are those of an atomic fetch, and every atomic fetch is the run of one session.
\<close>

lemma claims_of_claimed:
  "claims (RJobs (filter (\<lambda>j. j_id j \<in> set taken) (sql_update p (claim now) (jobs d)))) = claims_of taken d"
proof -
  have "map (\<lambda>j. (j_id j, j_retry_count j)) (filter (\<lambda>j. j_id j \<in> set taken) (sql_update p (claim now) xs)) =
      map (\<lambda>j. (j_id j, j_retry_count j)) (filter (\<lambda>j. j_id j \<in> set taken) xs)" for xs
    by (induction xs) (auto simp: sql_update_def)
  then show ?thesis by (simp add: claims_of_def)
qed

lemma run_ops_append [simp]:
  "run_ops exec (xs @ [x]) d = (case exec x (run_ops exec xs d) of Inl e \<Rightarrow> run_ops exec xs d | Inr (r, d') \<Rightarrow> d')"
  "run_replies exec (xs @ [x]) d =
     run_replies exec xs d @ (case exec x (run_ops exec xs d) of Inl e \<Rightarrow> [] | Inr (r, d') \<Rightarrow> [r])"
  by (induction xs arbitrary: d) (auto split: sum.split prod.split)

section \<open>A fetch that nobody disturbs\<close>

text \<open>
  Every atomic fetch is a run of one session: when no other session moves, it visits its snapshot
  and ends as the atomic fetch that finds locked what the other sessions hold.
\<close>

lemma scan_ids_cong: "(\<And>i. i \<in> set todo \<Longrightarrow> f i = g i) \<Longrightarrow> scan_ids f want todo = scan_ids g want todo"
  by (induction todo arbitrary: want) auto

lemma session_same:
  "sessions c s = x \<Longrightarrow> c\<lparr>locks := (\<lambda>i. if i \<in> set [] then Some s else locks c i), sessions := (sessions c)(s := x)\<rparr> = c"
  by (simp add: fun_upd_idem)

lemma scan_run:
  assumes "sessions c s = Scan qn now want todo taken" "distinct todo"
    and "\<And>i. i \<in> set todo \<Longrightarrow> locks c i \<noteq> Some s \<and> (\<exists>j. row (committed c) i = Some j \<and> fetchable now qn j)"
    and "got = scan_ids (\<lambda>i. locks c i \<noteq> None) want todo"
  shows "\<exists>want' todo'. (cstep P)\<^sup>*\<^sup>* c (c\<lparr>locks := (\<lambda>i. if i \<in> set got then Some s else locks c i),
      sessions := (sessions c)(s := Scan qn now want' todo' (taken @ got))\<rparr>) \<and> (\<not> wants want' \<or> todo' = [])"
  using assms
proof (induction todo arbitrary: c want taken got)
  case Nil
  have got: "got = []" using Nil.prems(4) by simp
  show ?case
    by (rule exI [of _ want], rule exI [of _ "[]"]) (simp only: got append_Nil2 session_same [OF Nil.prems(1)], simp)
next
  case (Cons i todo)
  show ?case
  proof (cases "wants want")
    case False
    then have got: "got = []" using Cons.prems(4) by simp
    show ?thesis
      by (rule exI [of _ want], rule exI [of _ "i # todo"])
        (simp only: got append_Nil2 session_same [OF Cons.prems(1)], simp add: False)
  next
    case True
    obtain j where j: "row (committed c) i = Some j" "fetchable now qn j" "locks c i \<noteq> Some s"
      using Cons.prems(3) [of i] by auto
    have i: "i \<notin> set todo" "distinct todo" using Cons.prems(2) by simp_all
    show ?thesis
    proof (cases "locks c i")
      case None
      let ?c = "c\<lparr>locks := (locks c)(i := Some s), sessions := (sessions c)(s := Scan qn now (dec_want want) todo (taken @ [i]))\<rparr>"
      have first: "cstep P c ?c"
        using cstep.take_row [OF Cons.prems(1) True _ j(1,2)] None by simp
      define g where "g = scan_ids (\<lambda>k. locks ?c k \<noteq> None) (dec_want want) todo"
      have "g = scan_ids (\<lambda>k. locks c k \<noteq> None) (dec_want want) todo"
        unfolding g_def by (rule scan_ids_cong) (use i in auto)
      then have got: "got = i # g" using Cons.prems(4) True None by simp
      have here: "sessions ?c s = Scan qn now (dec_want want) todo (taken @ [i])"
        "\<And>k. k \<in> set todo \<Longrightarrow> locks ?c k \<noteq> Some s \<and> (\<exists>j. row (committed ?c) k = Some j \<and> fetchable now qn j)"
        using i(1) Cons.prems(3) by auto
      obtain want' todo' where rest: "(cstep P)\<^sup>*\<^sup>* ?c (?c\<lparr>locks := (\<lambda>k. if k \<in> set g then Some s else locks ?c k),
          sessions := (sessions ?c)(s := Scan qn now want' todo' ((taken @ [i]) @ g))\<rparr>)" "\<not> wants want' \<or> todo' = []"
        using Cons.IH [OF here(1) i(2) here(2) g_def] by blast
      have L: "(\<lambda>k. if k \<in> set g then Some s else locks ?c k) = (\<lambda>k. if k \<in> set got then Some s else locks c k)"
        by (auto simp: got)
      have "?c\<lparr>locks := (\<lambda>k. if k \<in> set g then Some s else locks ?c k),
          sessions := (sessions ?c)(s := Scan qn now want' todo' ((taken @ [i]) @ g))\<rparr> =
        c\<lparr>locks := (\<lambda>k. if k \<in> set got then Some s else locks c k),
          sessions := (sessions c)(s := Scan qn now want' todo' (taken @ got))\<rparr>"
        unfolding L by (simp add: got)
      with rest have "(cstep P)\<^sup>*\<^sup>* ?c (c\<lparr>locks := (\<lambda>k. if k \<in> set got then Some s else locks c k),
          sessions := (sessions c)(s := Scan qn now want' todo' (taken @ got))\<rparr>)" by simp
      from converse_rtranclp_into_rtranclp [OF first this] rest(2) show ?thesis by blast
    next
      case (Some t)
      let ?c = "c\<lparr>sessions := (sessions c)(s := Scan qn now want todo taken)\<rparr>"
      have first: "cstep P c ?c"
        using cstep.skip_locked [OF Cons.prems(1) True Some] Some j(3) by simp
      have here: "sessions ?c s = Scan qn now want todo taken"
        "\<And>k. k \<in> set todo \<Longrightarrow> locks ?c k \<noteq> Some s \<and> (\<exists>j. row (committed ?c) k = Some j \<and> fetchable now qn j)"
        using Cons.prems(3) by auto
      have got: "got = scan_ids (\<lambda>k. locks ?c k \<noteq> None) want todo"
        using Cons.prems(4) True Some by simp
      obtain want' todo' where rest: "(cstep P)\<^sup>*\<^sup>* ?c (?c\<lparr>locks := (\<lambda>k. if k \<in> set got then Some s else locks ?c k),
          sessions := (sessions ?c)(s := Scan qn now want' todo' (taken @ got))\<rparr>)" "\<not> wants want' \<or> todo' = []"
        using Cons.IH [OF here(1) i(2) here(2) got] by blast
      have L: "(\<lambda>k. if k \<in> set got then Some s else locks ?c k) = (\<lambda>k. if k \<in> set got then Some s else locks c k)"
        by (rule ext) auto
      have "(cstep P)\<^sup>*\<^sup>* ?c (c\<lparr>locks := (\<lambda>k. if k \<in> set got then Some s else locks c k),
          sessions := (sessions c)(s := Scan qn now want' todo' (taken @ got))\<rparr>)"
        using rest(1) unfolding L by simp
      from converse_rtranclp_into_rtranclp [OF first this] rest(2) show ?thesis by blast
    qed
  qed
qed

lemma idle_unlocked: "creach P c \<Longrightarrow> sessions c s = Idle \<Longrightarrow> locks c i \<noteq> Some s"
proof (induction arbitrary: s i rule: creach.induct)
  case (step c c')
  from step(2,1,3-) show ?case
    by cases (auto simp: release_def split: if_splits)
qed (simp add: cinit_def)

lemma undisturbed_run:
  assumes "creach P c" "sessions c s = Idle" "\<And>i. i \<in> ids (committed c) \<Longrightarrow> i \<in> set locked \<longleftrightarrow> locks c i \<noteq> None"
    and "fetch locked now qn (map_option int want) (committed c) = Inr (js, d')"
  shows "(cstep P)\<^sup>*\<^sup>* c (c\<lparr>committed := d', handed_out := handed_out c @ claims (RJobs js)\<rparr>)"
proof -
  let ?d = "committed c" and ?todo = "snapshot_ids now qn (committed c)"
  let ?c = "c\<lparr>sessions := (sessions c)(s := Scan qn now want ?todo [])\<rparr>"
  have d: "db_inv ?d" using creach_inv [OF assms(1)] by (simp add: cinv_def)
  have first: "cstep P c ?c" by (rule cstep.begin_fetch [OF assms(2)])
  have todo: "\<exists>j. row ?d i = Some j \<and> fetchable now qn j" if "i \<in> set ?todo" for i
    using that fetch_next_sub [of "[]" now qn None "jobs ?d"] row_job [OF d] by (auto simp: snapshot_ids_def)
  define got where "got = scan_ids (\<lambda>i. locks ?c i \<noteq> None) want ?todo"
  have "got = scan_ids (\<lambda>i. i \<in> set locked) want ?todo"
    unfolding got_def
  proof (rule scan_ids_cong)
    fix i
    assume "i \<in> set ?todo"
    then obtain j where "row ?d i = Some j" using todo by blast
    then have "i \<in> ids ?d" using row_None_iff [of ?d i] by auto
    then show "(locks ?c i \<noteq> None) = (i \<in> set locked)" using assms(3) by simp
  qed
  then have got: "got = map j_id (fetch_next locked now qn (map_option int want) (jobs ?d))"
    by (simp add: scan_eq_fetch_next)
  obtain want' todo' where run: "(cstep P)\<^sup>*\<^sup>* ?c (?c\<lparr>locks := (\<lambda>i. if i \<in> set got then Some s else locks ?c i),
      sessions := (sessions ?c)(s := Scan qn now want' todo' ([] @ got))\<rparr>)" "\<not> wants want' \<or> todo' = []"
    using scan_run [of ?c s qn now want ?todo "[]" got P] snapshot_distinct [OF d] idle_unlocked [OF assms(1,2)] todo
    by (auto simp: got_def)
  let ?e = "c\<lparr>locks := (\<lambda>i. if i \<in> set got then Some s else locks c i), sessions := (sessions c)(s := Scan qn now want' todo' got)\<rparr>"
  have L: "(\<lambda>i. if i \<in> set got then Some s else locks ?c i) = (\<lambda>i. if i \<in> set got then Some s else locks c i)"
    by (rule ext) auto
  have e: "(cstep P)\<^sup>*\<^sup>* ?c ?e" using run(1) unfolding L by simp
  have d': "claim_db now got ?d = d'"
    using fetch_db [OF assms(4)] by (simp add: got claim_db_def claimed_def)
  have "i \<in> set got \<Longrightarrow> locks c i = None" for i
    by (simp add: got_def scan_ids_eq split: option.splits) (auto dest: in_set_takeD)
  then have "release s (\<lambda>i. if i \<in> set got then Some s else locks c i) = locks c"
    using idle_unlocked [OF assms(1,2)] by (auto simp: release_def)
  moreover have "claims_of got ?d = claims (RJobs js)"
    using fetch_rows [OF assms(4)] fetch_db [OF assms(4)] claims_of_claimed [of got _ now ?d]
    by (simp add: got claimed_def)
  moreover have "cstep P ?e (?e\<lparr>committed := claim_db now got (committed ?e), locks := release s (locks ?e),
      sessions := (sessions ?e)(s := Idle), handed_out := handed_out ?e @ claims_of got (committed ?e)\<rparr>)"
    by (rule cstep.commit_fetch [of _ _ qn now want' todo']) (use run(2) in simp_all)
  ultimately have last: "cstep P ?e (c\<lparr>committed := d', handed_out := handed_out c @ claims (RJobs js)\<rparr>)"
    using d' assms(2) by (simp add: fun_upd_idem)
  show ?thesis by (rule converse_rtranclp_into_rtranclp [where r = "cstep P", OF first]) (rule rtranclp.rtrancl_into_rtrancl [OF e last])
qed

end
