(* ===== verification/History.thy ===== *)
theory History
  imports Serial
begin

text \<open>
  Serializability of \<open>boss.fetch\<close> (src/src/schema.rs) over whole runs of the interleaved sessions of
  Skip_Locked. A run is its sequence of states \<open>cs\<close>. Each commit of a fetch is the atomic \<open>boss.fetch\<close> that the session
  called, with the queue, the clock and the batch size it was called with; the rows the atomic fetch finds locked are
  rows that, at some moment since the call, another session had locked or that were not ready.
\<close>

section \<open>What a step is in the serial history\<close>

definition ready_at :: "csys \<Rightarrow> int \<Rightarrow> string \<Rightarrow> uuid \<Rightarrow> bool" where
  "ready_at c now qn i \<longleftrightarrow> (\<exists>j. row (committed c) i = Some j \<and> fetchable now qn j)"

definition left_out :: "(nat \<Rightarrow> csys) \<Rightarrow> nat \<Rightarrow> nat \<Rightarrow> sid \<Rightarrow> int \<Rightarrow> string \<Rightarrow> uuid \<Rightarrow> bool" where
  "left_out cs a k s now qn i \<longleftrightarrow>
     (\<exists>m. a \<le> m \<and> m \<le> k \<and> ((\<exists>t. t \<noteq> s \<and> locks (cs m) i = Some t) \<or> \<not> ready_at (cs m) now qn i))"

text \<open>The atomic call of a session that opened its transaction in step \<open>a\<close> and ends it in step \<open>k\<close>.\<close>

definition fetch_of :: "(nat \<Rightarrow> csys) \<Rightarrow> nat \<Rightarrow> sid \<Rightarrow> int \<times> op \<Rightarrow> bool" where
  "fetch_of cs k s x \<longleftrightarrow>
     (\<exists>a now qn want todo locked.
        a < k \<and> sessions (cs a) s = Idle \<and> sessions (cs (Suc a)) s = Scan qn now want todo [] \<and>
        (\<forall>m. a < m \<and> m \<le> k \<longrightarrow> sessions (cs m) s \<noteq> Idle) \<and>
        x = (now, OpFetch locked qn (map_option int want)) \<and>
        (\<forall>i \<in> set locked. left_out cs a k s now qn i))"

text \<open>
  Step \<open>k\<close> has the effect of a commit of session \<open>s\<close>. (A fetch that took no row and could commit may also
  abort; the two cannot be told apart, and count as a commit.)
\<close>

definition commits :: "(nat \<Rightarrow> csys) \<Rightarrow> nat \<Rightarrow> sid \<Rightarrow> bool" where
  "commits cs k s \<longleftrightarrow>
     (\<exists>qn now want todo taken.
        sessions (cs k) s = Scan qn now want todo taken \<and> (\<not> wants want \<or> todo = []) \<and>
        sessions (cs (Suc k)) s = Idle \<and>
        committed (cs (Suc k)) = claim_db now taken (committed (cs k)) \<and>
        handed_out (cs (Suc k)) = handed_out (cs k) @ claims_of taken (committed (cs k)))"

definition performs :: "pg \<Rightarrow> (nat \<Rightarrow> csys) \<Rightarrow> nat \<Rightarrow> int \<times> op \<Rightarrow> bool" where
  "performs P cs k x \<longleftrightarrow>
     (\<exists>r. exec_op P x (committed (cs k)) = Inr (r, committed (cs (Suc k))) \<and>
        handed_out (cs (Suc k)) = handed_out (cs k) @ claims r)"

text \<open>
  The operations of step \<open>k\<close> in the serial history: the atomic fetch of the session that commits in it, otherwise
  the transaction that is not a fetch, if the step is one, and nothing if it only moves a session.
\<close>

definition serial_step :: "pg \<Rightarrow> (nat \<Rightarrow> csys) \<Rightarrow> nat \<Rightarrow> (int \<times> op) list \<Rightarrow> bool" where
  "serial_step P cs k ys \<longleftrightarrow>
     (\<exists>s x. commits cs k s \<and> ys = [x] \<and> fetch_of cs k s x \<and> performs P cs k x) \<or>
     (\<nexists>s. commits cs k s) \<and>
       (ys = [] \<and> committed (cs (Suc k)) = committed (cs k) \<and> handed_out (cs (Suc k)) = handed_out (cs k) \<or>
        (\<exists>x. ys = [x] \<and> \<not> is_fetch (snd x) \<and> sessions (cs (Suc k)) = sessions (cs k) \<and>
           locks (cs (Suc k)) = locks (cs k) \<and> performs P cs k x))"

text \<open>\<open>gen_random_uuid\<close> does not repeat an id: a row that is gone does not come back.\<close>

definition ids_once :: "(nat \<Rightarrow> csys) \<Rightarrow> nat \<Rightarrow> bool" where
  "ids_once cs n \<longleftrightarrow>
     (\<forall>a b c. a \<le> b \<longrightarrow> b \<le> c \<longrightarrow> c \<le> n \<longrightarrow> ids (committed (cs a)) \<inter> ids (committed (cs c)) \<subseteq> ids (committed (cs b)))"

section \<open>Rows keep their place in the order of the queue\<close>

lemma failed_key [simp]: "fetch_key (failed now out j) = fetch_key j"
  by (simp add: fetch_key_def failed_def retried_def fail_row_def)

lemma completed_key [simp]: "fetch_key (completed now out j) = fetch_key j"
  by (simp add: fetch_key_def completed_def)

lemma exec_op_key:
  assumes "db_inv d" "exec_op P x d = Inr (r, d')" "row d i = Some j" "row d' i = Some j'"
  shows "fetch_key j' = fetch_key j"
  using assms(2)
proof (cases rule: exec_op_cases)
  case (send now k qn data options v)
  then show ?thesis using send_row(1,3) [OF send(2)] assms(3,4) by (cases "i = k") auto
next
  case (fetch now locked qn n js)
  then show ?thesis using assms(3,4) by (auto simp: fetch_row [OF fetch(2)] fetch_key_def claim_def split: if_splits)
next
  case (fail now qn k out b)
  then show ?thesis using assms(3,4) by (auto simp: fail_row_db(1) [OF assms(1) fail(2)])
next
  case (maintain now)
  then show ?thesis
    using assms(3,4) by (auto simp: maintain_row [OF assms(1) maintain(2)] maintained_def expire_job_failed
        split: if_splits)
qed (use assms(3,4) in \<open>auto simp: create_queue_row delete_queue_row [OF assms(1)] complete_row
        split: option.splits if_splits\<close>)

lemma cstep_key:
  assumes "cstep P c c'" "cinv c" "row (committed c) i = Some j" "row (committed c') i = Some j'"
  shows "fetch_key j' = fetch_key j"
  using assms(1)
proof cases
  case (transaction x r d')
  then show ?thesis using exec_op_key [of "committed c" P x r d' i] assms by (simp add: cinv_def)
qed (use assms(3,4) in \<open>auto simp: claim_db_row fetch_key_def claim_def split: if_splits\<close>)


section \<open>Runs\<close>

definition is_run :: "pg \<Rightarrow> db \<Rightarrow> (nat \<Rightarrow> csys) \<Rightarrow> nat \<Rightarrow> bool" where
  "is_run P d cs n \<longleftrightarrow> cs 0 = cinit d \<and> (\<forall>k<n. cstep P (cs k) (cs (Suc k)))"

lemma run_step: "is_run P d cs n \<Longrightarrow> k < n \<Longrightarrow> cstep P (cs k) (cs (Suc k))"
  by (simp add: is_run_def)

lemma run_cinv: "is_run P d cs n \<Longrightarrow> db_inv d \<Longrightarrow> k \<le> n \<Longrightarrow> cinv (cs k)"
proof (induction k)
  case 0
  then show ?case by (simp add: is_run_def cinv_init)
next
  case (Suc k)
  then show ?case using cstep_inv [OF run_step] by simp
qed

lemma run_key:
  assumes "is_run P d cs n" "db_inv d" "ids_once cs n"
    and "a \<le> k" "k \<le> n" "row (committed (cs a)) i = Some j" "row (committed (cs k)) i = Some j'"
  shows "fetch_key j' = fetch_key j"
  using assms(4-)
proof (induction k arbitrary: j')
  case (Suc k)
  show ?case
  proof (cases "a = Suc k")
    case False
    have "i \<in> ids (committed (cs a)) \<inter> ids (committed (cs (Suc k)))"
      using Suc.prems(3,4) row_None_iff [of "committed (cs a)" i] row_None_iff [of "committed (cs (Suc k))" i] by auto
    moreover have "ids (committed (cs a)) \<inter> ids (committed (cs (Suc k))) \<subseteq> ids (committed (cs k))"
      using assms(3) [unfolded ids_once_def, rule_format, of a k "Suc k"] Suc.prems(1,2) False by simp
    ultimately obtain j1 where j1: "row (committed (cs k)) i = Some j1"
      using row_None_iff [of "committed (cs k)" i] by auto
    have "fetch_key j1 = fetch_key j" using Suc.IH [OF _ _ Suc.prems(3) j1] Suc.prems(1,2) False by simp
    moreover have "fetch_key j' = fetch_key j1"
      using cstep_key [OF run_step [OF assms(1)] run_cinv [OF assms(1,2)] j1 Suc.prems(4)] Suc.prems(2) by simp
    ultimately show ?thesis by simp
  qed (use Suc.prems in simp)
qed simp

text \<open>An open transaction was opened by a call.\<close>

lemma opened:
  assumes "is_run P d cs n" "k \<le> n" "sessions (cs k) s \<noteq> Idle"
  obtains a qn now want where "a < k" "sessions (cs a) s = Idle" "committed (cs (Suc a)) = committed (cs a)"
    "sessions (cs (Suc a)) s = Scan qn now want (snapshot_ids now qn (committed (cs a))) []"
    "\<And>m. a < m \<Longrightarrow> m \<le> k \<Longrightarrow> sessions (cs m) s \<noteq> Idle"
proof -
  have "\<exists>a<k. sessions (cs a) s = Idle \<and> (\<forall>m. a < m \<and> m \<le> k \<longrightarrow> sessions (cs m) s \<noteq> Idle)"
    using assms(3)
  proof (induction k)
    case 0
    have "sessions (cs 0) s = Idle" using assms(1) by (simp add: is_run_def cinit_def)
    then show ?case using 0 by simp
  next
    case (Suc k)
    show ?case
    proof (cases "sessions (cs k) s = Idle")
      case True
      then show ?thesis using Suc.prems by (intro exI [of _ k]) (auto simp: le_Suc_eq)
    next
      case False
      with Suc.IH obtain a where "a < k" "sessions (cs a) s = Idle" "\<forall>m. a < m \<and> m \<le> k \<longrightarrow> sessions (cs m) s \<noteq> Idle"
        by blast
      then show ?thesis using Suc.prems by (intro exI [of _ a]) (auto simp: le_Suc_eq)
    qed
  qed
  then obtain a where a: "a < k" "sessions (cs a) s = Idle" "\<forall>m. a < m \<and> m \<le> k \<longrightarrow> sessions (cs m) s \<noteq> Idle"
    by blast
  then have "cstep P (cs a) (cs (Suc a))" "sessions (cs (Suc a)) s \<noteq> Idle" using run_step [OF assms(1)] assms(2) by auto
  then obtain qn now want where "committed (cs (Suc a)) = committed (cs a)"
    "sessions (cs (Suc a)) s = Scan qn now want (snapshot_ids now qn (committed (cs a))) []"
    using a(2) by cases (auto split: if_splits)
  then show thesis using that a by blast
qed


section \<open>A scan between its call and its commit\<close>

definition scan_from :: "(nat \<Rightarrow> csys) \<Rightarrow> nat \<Rightarrow> nat \<Rightarrow> sid \<Rightarrow> int \<Rightarrow> string \<Rightarrow> nat option \<Rightarrow> bool" where
  "scan_from cs a m s now qn want0 \<longleftrightarrow>
     (\<exists>want todo seen taken.
        sessions (cs m) s = Scan qn now want todo taken \<and>
        snapshot_ids now qn (committed (cs a)) = seen @ todo \<and> set taken \<subseteq> set seen \<and>
        (\<forall>i \<in> set seen. i \<notin> set taken \<longrightarrow> left_out cs a m s now qn i) \<and>
        want0 = map_option (\<lambda>w. w + length taken) want)"

lemma left_out_mono: "left_out cs a m s now qn i \<Longrightarrow> m \<le> k \<Longrightarrow> left_out cs a k s now qn i"
  unfolding left_out_def by (meson le_trans)

lemma left_out_locked: "locks (cs m) i = Some t \<Longrightarrow> t \<noteq> s \<Longrightarrow> a \<le> m \<Longrightarrow> left_out cs a (Suc m) s now qn i"
  unfolding left_out_def by (intro exI [of _ m]) auto

lemma left_out_not_ready: "\<not> ready_at (cs m) now qn i \<Longrightarrow> a \<le> m \<Longrightarrow> m \<le> k \<Longrightarrow> left_out cs a k s now qn i"
  unfolding left_out_def by (intro exI [of _ m]) auto

lemma dec_want_add: "wants want \<Longrightarrow> map_option (\<lambda>w. w + Suc k) (dec_want want) = map_option (\<lambda>w. w + k) want"
  by (cases want) (simp_all add: dec_want_def)

lemma scan_same:
  "scan_from cs a m s now qn want0 \<Longrightarrow> sessions (cs (Suc m)) s = sessions (cs m) s \<Longrightarrow> scan_from cs a (Suc m) s now qn want0"
  unfolding scan_from_def using left_out_mono [where m = m and k = "Suc m"] by fastforce

lemma scan_visit:
  assumes "snapshot_ids now qn (committed (cs a)) = seen @ i # todo" "set taken \<subseteq> set seen"
    and "\<forall>i \<in> set seen. i \<notin> set taken \<longrightarrow> left_out cs a m s now qn i"
    and "sessions (cs (Suc m)) s = Scan qn now want' todo taken'"
    and "taken' = taken \<and> want' = want \<and> left_out cs a (Suc m) s now qn i \<or>
      taken' = taken @ [i] \<and> want' = dec_want want \<and> wants want"
  shows "scan_from cs a (Suc m) s now qn (map_option (\<lambda>w. w + length taken) want)"
  unfolding scan_from_def
proof (intro exI conjI ballI impI)
  show "sessions (cs (Suc m)) s = Scan qn now want' todo taken'" by fact
  show "snapshot_ids now qn (committed (cs a)) = (seen @ [i]) @ todo" using assms(1) by simp
  show "set taken' \<subseteq> set (seen @ [i])" using assms(2,5) by auto
  show "left_out cs a (Suc m) s now qn k" if "k \<in> set (seen @ [i])" "k \<notin> set taken'" for k
    using that assms(3,5) left_out_mono [of cs a m s now qn k "Suc m"] by auto
  show "map_option (\<lambda>w. w + length taken) want = map_option (\<lambda>w. w + length taken') want'"
    using assms(5) dec_want_add [of want "length taken"] by auto
qed

lemma scan_progress:
  assumes "cstep P (cs m) (cs (Suc m))" "a \<le> m" "scan_from cs a m s now qn want0" "sessions (cs (Suc m)) s \<noteq> Idle"
  shows "scan_from cs a (Suc m) s now qn want0"
proof -
  obtain want todo seen taken where sc: "sessions (cs m) s = Scan qn now want todo taken"
    "snapshot_ids now qn (committed (cs a)) = seen @ todo" "set taken \<subseteq> set seen"
    "\<forall>i \<in> set seen. i \<notin> set taken \<longrightarrow> left_out cs a m s now qn i" "want0 = map_option (\<lambda>w. w + length taken) want"
    using assms(3) unfolding scan_from_def by blast
  note same = scan_same [OF assms(3)]
  note visit = scan_visit [where want = want, OF _ sc(3,4), folded sc(5)]
  from assms(1) show ?thesis
  proof cases
    case (begin_fetch t qn' now' want')
    then show ?thesis using sc(1) by (intro same) auto
  next
    case (skip_locked t qn' now' want' i todo' taken' u)
    show ?thesis
    proof (cases "t = s")
      case True
      then show ?thesis
        using skip_locked sc(1,2) left_out_locked [of cs m i u s a now qn] assms(2) by (intro visit) auto
    qed (use skip_locked in \<open>intro same; simp\<close>)
  next
    case (skip_gone t qn' now' want' i todo' taken')
    show ?thesis
    proof (cases "t = s")
      case True
      have "\<not> ready_at (cs m) now qn i" using skip_gone by (simp add: ready_at_def)
      then show ?thesis
        using True skip_gone sc(1,2) left_out_not_ready [of cs m now qn i a "Suc m" s] assms(2) by (intro visit) auto
    qed (use skip_gone in \<open>intro same; simp\<close>)
  next
    case (recheck_fails t qn' now' want' i todo' taken' j)
    show ?thesis
    proof (cases "t = s")
      case True
      then have "\<not> ready_at (cs m) now qn i" using recheck_fails sc(1) by (simp add: ready_at_def)
      then show ?thesis
        using True recheck_fails sc(1,2) left_out_not_ready [of cs m now qn i a "Suc m" s] assms(2) by (intro visit) auto
    qed (use recheck_fails in \<open>intro same; simp\<close>)
  next
    case (take_row t qn' now' want' i todo' taken' j)
    show ?thesis
    proof (cases "t = s")
      case True
      then show ?thesis using take_row sc(1,2) by (intro visit) auto
    qed (use take_row in \<open>intro same; simp\<close>)
  next
    case (commit_fetch t qn' now' want' todo' taken')
    then show ?thesis using assms(4) by (intro same) (auto split: if_splits)
  next
    case (abort_fetch t qn' now' want' todo' taken')
    then show ?thesis using assms(4) by (intro same) (auto split: if_splits)
  next
    case (transaction x r d')
    then show ?thesis by (intro same) simp
  qed
qed


section \<open>The commit is the atomic fetch\<close>

lemma insort_key_before: "\<forall>y \<in> set ys. f x < f y \<Longrightarrow> insort_key f x (xs @ ys) = insort_key f x xs @ ys"
  by (induction xs) (cases ys, auto)

lemma insort_key_after: "\<forall>y \<in> set xs. f y < f x \<Longrightarrow> insort_key f x (xs @ ys) = xs @ insort_key f x ys"
  by (induction xs) auto

lemma sort_key_split:
  assumes "\<And>x y. x \<in> set xs \<Longrightarrow> y \<in> set xs \<Longrightarrow> p x \<Longrightarrow> \<not> p y \<Longrightarrow> f x < f y"
  shows "sort_key f xs = sort_key f (filter p xs) @ sort_key f (filter (\<lambda>x. \<not> p x) xs)"
  using assms
proof (induction xs)
  case (Cons x xs)
  then have "sort_key f xs = sort_key f (filter p xs) @ sort_key f (filter (\<lambda>x. \<not> p x) xs)" by simp
  then show ?case
    using Cons.prems by (cases "p x") (simp_all add: insort_key_before insort_key_after)
qed simp

lemma taken_length:
  assumes "db_inv d" "distinct taken" "set taken \<subseteq> ids d"
  shows "length (filter (\<lambda>j. j_id j \<in> set taken) (jobs d)) = length taken"
proof -
  have d: "distinct (map j_id (filter (\<lambda>j. j_id j \<in> set taken) (jobs d)))"
    using assms(1) by (simp add: db_inv_def distinct_map_filter)
  have "j_id ` set (filter (\<lambda>j. j_id j \<in> set taken) (jobs d)) = set taken"
    using assms(3) by (auto simp: ids_def)
  then show ?thesis using distinct_card [OF d] distinct_card [OF assms(2)] by simp
qed

lemma fetch_next_taken:
  assumes "db_inv d" "distinct taken" "set taken \<inter> set locked = {}"
    and "\<And>i. i \<in> set taken \<Longrightarrow> \<exists>j. row d i = Some j \<and> fetchable now qn j"
    and "\<And>j. j \<in> set (jobs d) \<Longrightarrow> fetchable now qn j \<Longrightarrow> j_id j \<notin> set locked \<Longrightarrow> j_id j \<notin> set taken \<Longrightarrow>
      \<not> wants want \<and> (\<forall>t \<in> set (jobs d). j_id t \<in> set taken \<longrightarrow> fetch_key t < fetch_key j)"
  shows "set (map j_id (fetch_next locked now qn (map_option (\<lambda>w. int (w + length taken)) want) (jobs d))) = set taken"
proof -
  let ?C = "filter (\<lambda>j. fetchable now qn j \<and> j_id j \<notin> set locked) (jobs d)" and ?p = "\<lambda>j. j_id j \<in> set taken"
  let ?T = "filter ?p (jobs d)"
  have T: "filter ?p ?C = ?T"
    unfolding filter_filter using assms(3,4) row_job [OF assms(1)] by (intro filter_cong) fastforce+
  have "sort_key fetch_key ?C = sort_key fetch_key (filter ?p ?C) @ sort_key fetch_key (filter (\<lambda>j. \<not> ?p j) ?C)"
    by (rule sort_key_split) (use assms(5) in auto)
  then have sorted: "sort_key fetch_key ?C = sort_key fetch_key ?T @ sort_key fetch_key (filter (\<lambda>j. \<not> ?p j) ?C)"
    unfolding T .
  have sub: "set taken \<subseteq> ids d" using assms(4) by (auto simp: ids_def dest!: row_SomeD)
  then have len: "length (sort_key fetch_key ?T) = length taken"
    using taken_length [OF assms(1,2)] by simp
  have "fetch_next locked now qn (map_option (\<lambda>w. int (w + length taken)) want) (jobs d) = sort_key fetch_key ?T"
  proof (cases "\<exists>j \<in> set ?C. \<not> ?p j")
    case True
    then obtain j where "j \<in> set (jobs d)" "fetchable now qn j" "j_id j \<notin> set locked" "\<not> ?p j" by auto
    then have "want = Some 0" using assms(5) [of j] by (cases want) auto
    then show ?thesis using len sorted by (simp add: fetch_next_def Let_def)
  next
    case False
    then have "filter (\<lambda>j. \<not> ?p j) ?C = []" by (simp add: filter_empty_conv)
    then have "sort_key fetch_key ?C = sort_key fetch_key ?T" using sorted by simp
    then show ?thesis using len by (cases want) (simp_all add: fetch_next_def Let_def nat_int_add)
  qed
  then show ?thesis using sub by (auto simp: ids_def)
qed

lemma fetch_of_ids:
  assumes "set (map j_id (fetch_next locked now qn (map_option int n) (jobs d))) = set taken"
  shows "\<exists>js. exec_op P (now, OpFetch locked qn (map_option int n)) d = Inr (RJobs js, claim_db now taken d) \<and>
    claims (RJobs js) = claims_of taken d"
proof -
  define rows where "rows = sql_update (\<lambda>j. j_id j \<in> set taken) (claim now) (jobs d)"
  have "fetch locked now qn (map_option int n) d = Inr (filter (\<lambda>j. j_id j \<in> set taken) rows, d\<lparr>jobs := rows\<rparr>)"
    unfolding fetch_def Let_def assms rows_def by (cases n) simp_all
  moreover have "claims (RJobs (filter (\<lambda>j. j_id j \<in> set taken) rows)) = claims_of taken d"
    unfolding rows_def by (rule claims_of_claimed)
  ultimately show ?thesis by (simp add: claim_db_def rows_def)
qed


lemma snapshot_order:
  assumes "db_inv d" "snapshot_ids now qn d = seen @ todo" "i \<in> set seen" "k \<in> set todo"
  shows "\<exists>x y. row d i = Some x \<and> row d k = Some y \<and> fetch_key x < fetch_key y"
proof -
  have "map j_id (fetch_next [] now qn None (jobs d)) = seen @ todo" using assms(2) by (simp add: snapshot_ids_def)
  then obtain xs ys where s: "fetch_next [] now qn None (jobs d) = xs @ ys" "seen = map j_id xs" "todo = map j_id ys"
    by (auto simp: map_eq_append_conv)
  obtain x y where xy: "x \<in> set xs" "j_id x = i" "y \<in> set ys" "j_id y = k" using assms(3,4) s by auto
  have "sorted (map fetch_key (xs @ ys))" unfolding s(1) [symmetric] by (simp add: fetch_next_def)
  then have "fetch_key x \<le> fetch_key y" using xy by (auto simp: sorted_append)
  moreover have "distinct (seen @ todo)" using snapshot_distinct [OF assms(1), of now qn] assms(2) by simp
  then have "i \<noteq> k" using assms(3,4) by auto
  then have "fetch_key x \<noteq> fetch_key y" using xy by (auto simp: fetch_key_def)
  moreover have "set (xs @ ys) \<subseteq> set (jobs d)"
    unfolding s(1) [symmetric] using fetch_next_sub [of "[]" now qn None "jobs d"] by auto
  then have "row d i = Some x" "row d k = Some y" using xy row_job [OF assms(1)] by auto
  ultimately show ?thesis by auto
qed

lemma snapshot_ready: "db_inv (committed c) \<Longrightarrow> ready_at c now qn i \<Longrightarrow> i \<in> set (snapshot_ids now qn (committed c))"
  using row_SomeD by (fastforce simp: ready_at_def snapshot_ids_def fetch_next_def)

lemma run_scan:
  assumes "is_run P d cs n" "m \<le> k" "k \<le> n" "a < m" "sessions (cs (Suc a)) s = Scan qn now want (snapshot_ids now qn (committed (cs a))) []"
    and "\<And>m. a < m \<Longrightarrow> m \<le> k \<Longrightarrow> sessions (cs m) s \<noteq> Idle"
  shows "scan_from cs a m s now qn want"
  using assms(2,4)
proof (induction m)
  case (Suc m)
  show ?case
  proof (cases "a = m")
    case True
    have "map_option (\<lambda>w. w) want = want" by (cases want) simp_all
    then show ?thesis
      using assms(5) True unfolding scan_from_def
      by (intro exI [of _ want] exI [of _ "snapshot_ids now qn (committed (cs a))"] exI [of _ "[]"]) simp
  next
    case False
    then have "scan_from cs a m s now qn want" using Suc by simp
    moreover have "cstep P (cs m) (cs (Suc m))" using run_step [OF assms(1), of m] Suc.prems assms(3) by simp
    ultimately show ?thesis
      using scan_progress [of P cs m a s now qn want] False Suc.prems assms(6) by simp
  qed
qed simp

lemma commit_is_fetch:
  assumes "is_run P d cs n" "db_inv d" "ids_once cs n" "k < n" "commits cs k s"
  shows "\<exists>x. fetch_of cs k s x \<and> performs P cs k x"
proof -
  let ?d = "committed (cs k)"
  obtain qn now want todo taken where c: "sessions (cs k) s = Scan qn now want todo taken" "\<not> wants want \<or> todo = []"
    "committed (cs (Suc k)) = claim_db now taken ?d" "handed_out (cs (Suc k)) = handed_out (cs k) @ claims_of taken ?d"
    using assms(5) unfolding commits_def by blast
  obtain a qn0 now0 want0 where a: "a < k" "sessions (cs a) s = Idle"
    "sessions (cs (Suc a)) s = Scan qn0 now0 want0 (snapshot_ids now0 qn0 (committed (cs a))) []"
    "\<And>m. a < m \<Longrightarrow> m \<le> k \<Longrightarrow> sessions (cs m) s \<noteq> Idle"
  proof -
    have k: "k \<le> n" "sessions (cs k) s \<noteq> Idle" using assms(4) c(1) by simp_all
    show thesis by (rule opened [OF assms(1) k]) (rule that)
  qed
  obtain seen where seen: "qn0 = qn" "now0 = now" "snapshot_ids now qn (committed (cs a)) = seen @ todo"
    "set taken \<subseteq> set seen" "\<forall>i \<in> set seen. i \<notin> set taken \<longrightarrow> left_out cs a k s now qn i"
    "want0 = map_option (\<lambda>w. w + length taken) want"
    using run_scan [OF assms(1) order_refl _ a(1,3,4)] assms(4) c(1) by (auto simp: scan_from_def)
  have inv: "cinv (cs k)" "cinv (cs a)" using run_cinv [OF assms(1,2)] assms(4) a(1) by simp_all
  then have d: "db_inv ?d" "db_inv (committed (cs a))" by (simp_all add: cinv_def)
  have "session_inv (cs k) s (sessions (cs k) s)" using inv(1) by (simp add: cinv_def)
  then have held: "distinct taken" "\<And>i. i \<in> set taken \<Longrightarrow> \<exists>j. row ?d i = Some j \<and> fetchable now qn j"
    using c(1) by (auto simp: holds_def)
  define locked where "locked = filter (\<lambda>i. i \<notin> set taken \<and> left_out cs a k s now qn i) (map j_id (jobs ?d))"
  have rest: "\<not> wants want \<and> (\<forall>t \<in> set (jobs ?d). j_id t \<in> set taken \<longrightarrow> fetch_key t < fetch_key j)"
    if j: "j \<in> set (jobs ?d)" "j_id j \<notin> set locked" "j_id j \<notin> set taken" for j
  proof -
    have not_out: "\<not> left_out cs a k s now qn (j_id j)" using j by (auto simp: locked_def)
    then have "ready_at (cs a) now qn (j_id j)"
      using left_out_not_ready [of cs a now qn "j_id j" a k s] a(1) by auto
    then have todo: "j_id j \<in> set todo"
      using snapshot_ready [OF d(2)] seen(3,5) not_out j(3) by fastforce
    have "fetch_key t < fetch_key j" if t: "t \<in> set (jobs ?d)" "j_id t \<in> set taken" for t
    proof -
      obtain x y where xy: "row (committed (cs a)) (j_id t) = Some x" "row (committed (cs a)) (j_id j) = Some y"
        "fetch_key x < fetch_key y"
        using snapshot_order [OF d(2) seen(3) _ todo] t(2) seen(4) by blast
      have "fetch_key t = fetch_key x" "fetch_key j = fetch_key y"
        using run_key [OF assms(1-3) _ _ xy(1) row_job [OF d(1) t(1)]]
          run_key [OF assms(1-3) _ _ xy(2) row_job [OF d(1) j(1)]] a(1) assms(4) by simp_all
      then show ?thesis using xy(3) by simp
    qed
    then show ?thesis using todo c(2) by auto
  qed
  have "set (map j_id (fetch_next locked now qn (map_option (\<lambda>w. int (w + length taken)) want) (jobs ?d))) = set taken"
    by (rule fetch_next_taken [OF d(1) held(1) _ held(2) rest]) (auto simp: locked_def)
  moreover have "map_option int want0 = map_option (\<lambda>w. int (w + length taken)) want"
    unfolding seen(6) by (cases want) simp_all
  ultimately have "set (map j_id (fetch_next locked now qn (map_option int want0) (jobs ?d))) = set taken" by simp
  from fetch_of_ids [OF this] obtain js where
    "exec_op P (now, OpFetch locked qn (map_option int want0)) ?d = Inr (RJobs js, claim_db now taken ?d)"
    "claims (RJobs js) = claims_of taken ?d"
    by blast
  then have "performs P cs k (now, OpFetch locked qn (map_option int want0))"
    unfolding performs_def using c(3,4) by (intro exI [of _ "RJobs js"]) simp
  moreover have "fetch_of cs k s (now, OpFetch locked qn (map_option int want0))"
    unfolding fetch_of_def using a seen(1,2) by (intro exI [of _ a]) (auto simp: locked_def)
  ultimately show ?thesis by blast
qed


section \<open>The serial history\<close>

lemma step_serial:
  assumes "is_run P d cs n" "db_inv d" "ids_once cs n" "k < n"
  shows "\<exists>ys. serial_step P cs k ys"
proof (cases "\<exists>s. commits cs k s")
  case True
  then obtain s where s: "commits cs k s" by blast
  with commit_is_fetch [OF assms] obtain x where x: "fetch_of cs k s x" "performs P cs k x" by blast
  have "serial_step P cs k [x]"
    unfolding serial_step_def by (rule disjI1, intro exI conjI, rule s, rule refl) (rule x)+
  then show ?thesis by (rule exI)
next
  case False
  from run_step [OF assms(1,4)] show ?thesis
  proof cases
    case (commit_fetch s qn now want todo taken)
    then have "commits cs k s"
      unfolding commits_def
      by (intro exI [of _ qn] exI [of _ now] exI [of _ want] exI [of _ todo] exI [of _ taken]) simp
    then show ?thesis using False by blast
  next
    case (transaction x r d')
    have "claims r = []" using transaction(2,3) by (cases rule: exec_op_cases) simp_all
    then have "performs P cs k x" unfolding performs_def transaction(1) using transaction(2) by (intro exI [of _ r]) simp
    then have "serial_step P cs k [x]"
      unfolding serial_step_def using False transaction(1,3) by (intro disjI2 conjI exI [of _ x]) simp_all
    then show ?thesis by blast
  qed (use False in \<open>intro exI [of _ "[]"], simp add: serial_step_def\<close>)+
qed

lemma run_serial:
  assumes "cs 0 = cinit d" "\<And>k. k < n \<Longrightarrow> serial_step P cs k (xs k)"
  shows "committed (cs n) = run_ops (exec_op P) (concat (map xs [0..<n])) d \<and>
    handed_out (cs n) = concat (map claims (run_replies (exec_op P) (concat (map xs [0..<n])) d))"
  using assms(2)
proof (induction n)
  case 0
  show ?case using assms(1) by (simp add: cinit_def)
next
  case (Suc n)
  then have IH: "committed (cs n) = run_ops (exec_op P) (concat (map xs [0..<n])) d"
    "handed_out (cs n) = concat (map claims (run_replies (exec_op P) (concat (map xs [0..<n])) d))" by simp_all
  consider "xs n = []" "committed (cs (Suc n)) = committed (cs n)" "handed_out (cs (Suc n)) = handed_out (cs n)"
    | x where "xs n = [x]" "performs P cs n x"
    using Suc.prems [of n] unfolding serial_step_def by auto
  then show ?case
  proof cases
    case 1
    then show ?thesis using IH by simp
  next
    case 2
    then obtain r where "exec_op P x (committed (cs n)) = Inr (r, committed (cs (Suc n)))"
      "handed_out (cs (Suc n)) = handed_out (cs n) @ claims r"
      by (auto simp: performs_def)
    then show ?thesis using 2(1) IH by simp
  qed
qed

end
