(* ===== verification/Progress.thy ===== *)
theory Progress
  imports Delivery
begin

text \<open>
  What becomes of the jobs of a queue (src/src/schema.rs, src/src/lib.rs) over several calls: fetching in batches
  is fetching at once, and a job whose consumer never came back is put back by the maintenance worker.
\<close>

section \<open>Batches\<close>

lemma filter_drop:
  "distinct (map f xs) \<Longrightarrow> filter (\<lambda>x. f x \<notin> f ` set (take n xs)) xs = drop n xs"
proof (induction xs arbitrary: n)
  case (Cons x xs)
  show ?case
  proof (cases n)
    case 0
    then show ?thesis by (simp add: filter_True)
  next
    case (Suc k)
    have "filter (\<lambda>y. f y \<notin> f ` set (take n (x # xs))) xs = filter (\<lambda>y. f y \<notin> f ` set (take k xs)) xs"
      using Cons.prems Suc by (intro filter_cong) (auto simp: image_iff)
    then show ?thesis using Cons Suc by simp
  qed
qed simp

definition ready :: "uuid list \<Rightarrow> int \<Rightarrow> string \<Rightarrow> db \<Rightarrow> job list" where
  "ready locked now qn d =
     sort_key fetch_key (filter (\<lambda>j. fetchable now qn j \<and> j_id j \<notin> set locked) (jobs d))"

lemma fetch_ready:
  "0 \<le> n \<Longrightarrow> fetch locked now qn (Some n) d =
     (let ids = j_id ` set (take (nat n) (ready locked now qn d));
          rows = sql_update (\<lambda>j. j_id j \<in> ids) (claim now) (jobs d)
      in Inr (filter (\<lambda>j. j_id j \<in> ids) rows, d\<lparr>jobs := rows\<rparr>))"
  by (simp add: fetch_def fetch_next_def ready_def Let_def)

lemma ready_ids: "db_inv d \<Longrightarrow> distinct (map j_id (ready locked now qn d))"
proof -
  assume "db_inv d"
  then have "distinct (map j_id (filter (\<lambda>j. fetchable now qn j \<and> j_id j \<notin> set locked) (jobs d)))"
    by (simp add: db_inv_def distinct_map_filter)
  then show ?thesis by (auto simp: ready_def distinct_map intro: distinct_sort inj_on_subset)
qed

lemma ready_after:
  assumes "db_inv d"
  shows "ready locked now qn (d\<lparr>jobs := sql_update (\<lambda>j. j_id j \<in> j_id ` set (take m (ready locked now qn d))) (claim t) (jobs d)\<rparr>) =
    drop m (ready locked now qn d)"
proof -
  let ?X = "j_id ` set (take m (ready locked now qn d))"
  let ?F = "\<lambda>j. fetchable now qn j \<and> j_id j \<notin> set locked"
  have "filter ?F (sql_update (\<lambda>j. j_id j \<in> ?X) (claim t) rows) = filter (\<lambda>j. j_id j \<notin> ?X) (filter ?F rows)" for rows
    by (induction rows) (auto simp: sql_update_def fetchable_def)
  then have "ready locked now qn (d\<lparr>jobs := sql_update (\<lambda>j. j_id j \<in> ?X) (claim t) (jobs d)\<rparr>) =
      filter (\<lambda>j. j_id j \<notin> ?X) (ready locked now qn d)"
    by (simp add: ready_def filter_sort)
  then show ?thesis using filter_drop [OF ready_ids [OF assms]] by simp
qed

lemma claim_keys [simp]: "fetch_key (claim now j) = fetch_key j" "claim now (claim now j) = claim now j"
  by (simp_all add: fetch_key_def claim_def)

lemma updated_key:
  assumes "distinct (map j_id rows)" "set xs \<subseteq> set rows" "a \<in> set (sql_update p (claim now) rows)" "j_id a \<in> j_id ` set xs"
  shows "fetch_key a \<in> fetch_key ` set xs"
proof -
  obtain j where j: "j \<in> set rows" "j_id a = j_id j" "fetch_key a = fetch_key j"
    using assms(3) by (auto simp: set_sql_update)
  obtain x where x: "x \<in> set xs" "j_id x = j_id j" using assms(4) j(2) by auto
  then have "x = j" using key_unique [OF assms(1)] assms(2) j(1) by blast
  then show ?thesis using x(1) j(3) by simp
qed

lemma length_filter_or:
  "(\<And>x. x \<in> set xs \<Longrightarrow> \<not> (p x \<and> q x)) \<Longrightarrow>
   length (filter (\<lambda>x. p x \<or> q x) xs) = length (filter p xs) + length (filter q xs)"
  by (induction xs) auto

lemma fetch_batches:
  assumes "db_inv d" "fetch locked now qn (Some m) d = Inr (js1, d1)" "fetch locked now qn (Some n) d1 = Inr (js2, d2)"
  shows "\<exists>js. fetch locked now qn (Some (m + n)) d = Inr (js, d2) \<and> set js = set js1 \<union> set js2 \<and>
    length js = length js1 + length js2 \<and> (\<forall>a \<in> set js1. \<forall>b \<in> set js2. fetch_key a \<le> fetch_key b)"
proof -
  let ?r = "ready locked now qn d"
  have mn: "0 \<le> m" "0 \<le> n" using assms(2,3) by (auto simp: fetch_def split: if_splits)
  define A where "A = j_id ` set (take (nat m) ?r)"
  define B where "B = j_id ` set (take (nat n) (drop (nat m) ?r))"
  have d1: "d1 = d\<lparr>jobs := sql_update (\<lambda>j. j_id j \<in> A) (claim now) (jobs d)\<rparr>" 
    "js1 = filter (\<lambda>j. j_id j \<in> A) (jobs d1)"
    using assms(2) mn by (auto simp: fetch_ready A_def Let_def)
  have r1: "ready locked now qn d1 = drop (nat m) ?r"
    unfolding d1(1) A_def by (rule ready_after [OF assms(1)])
  have d2: "d2 = d1\<lparr>jobs := sql_update (\<lambda>j. j_id j \<in> B) (claim now) (jobs d1)\<rparr>"
    "js2 = filter (\<lambda>j. j_id j \<in> B) (jobs d2)"
    using assms(3) mn r1 by (auto simp: fetch_ready B_def Let_def)
  have AB: "j_id ` set (take (nat (m + n)) ?r) = A \<union> B"
    using mn by (simp add: A_def B_def nat_add_distrib take_add image_Un)
  have disj: "A \<inter> B = {}"
  proof -
    have "distinct (map j_id (take (nat m) ?r @ drop (nat m) ?r))"
      unfolding append_take_drop_id by (rule ready_ids [OF assms(1)])
    then have "j_id ` set (take (nat m) ?r) \<inter> j_id ` set (drop (nat m) ?r) = {}"
      unfolding map_append distinct_append by simp
    then show ?thesis using set_take_subset [of "nat n" "drop (nat m) ?r"] unfolding A_def B_def by blast
  qed
  let ?R = "sql_update (\<lambda>j. j_id j \<in> A \<union> B) (claim now) (jobs d)"
  have R: "jobs d2 = ?R" by (auto simp: d2(1) d1(1) sql_update_def)
  have js1: "js1 = filter (\<lambda>j. j_id j \<in> A) ?R"
    using disj by (auto simp: d1 sql_update_def filter_map comp_def intro!: map_cong filter_cong)
  have js2: "js2 = filter (\<lambda>j. j_id j \<in> B) ?R" using d2(2) R by simp
  have "fetch locked now qn (Some (m + n)) d = Inr (filter (\<lambda>j. j_id j \<in> A \<or> j_id j \<in> B) ?R, d2)"
    using mn R by (simp add: fetch_ready AB Let_def d2(1) d1(1))
  moreover have "fetch_key a \<le> fetch_key b" if "a \<in> set js1" "b \<in> set js2" for a b
  proof -
    have sub: "set ?r \<subseteq> set (jobs d)" by (auto simp: ready_def)
    have ids: "distinct (map j_id (jobs d))" using assms(1) by (rule db_inv_ids)
    have "fetch_key a \<in> fetch_key ` set (take (nat m) ?r)"
      using that(1) sub unfolding js1 A_def by (intro updated_key [OF ids]) (auto dest: in_set_takeD)
    moreover have "fetch_key b \<in> fetch_key ` set (take (nat n) (drop (nat m) ?r))"
      using that(2) sub unfolding js2 B_def by (intro updated_key [OF ids]) (auto dest: in_set_takeD in_set_dropD)
    moreover have "sorted (map fetch_key (take (nat m) ?r @ drop (nat m) ?r))"
      unfolding append_take_drop_id by (simp add: ready_def)
    then have "x \<le> y" if "x \<in> fetch_key ` set (take (nat m) ?r)" "y \<in> fetch_key ` set (drop (nat m) ?r)" for x y
      using that unfolding map_append sorted_append by auto
    ultimately show ?thesis using set_take_subset [of "nat n" "drop (nat m) ?r"] by blast
  qed
  ultimately show ?thesis
    using length_filter_or [of ?R "\<lambda>j. j_id j \<in> A" "\<lambda>j. j_id j \<in> B"] disj
    by (intro exI conjI) (auto simp: js1 js2)
qed

section \<open>A consumer that never comes back\<close>

text \<open>
  The row of an active job while only the worker acts: it stays as it is until the first tick after its
  time has run out; a job that is retried stays retried; one that has failed stays failed until it is purged.
\<close>

lemma tick_row:
  assumes "db_inv d" "worker_tick w d = Inr d'"
  shows "row d' i = (if w_installed w then
      (case row d i of None \<Rightarrow> None
       | Some j \<Rightarrow> if purgeable (w_now w) (maintained (w_now w) j) then None else Some (maintained (w_now w) j))
    else row d i)"
  using assms maintain_row [OF assms(1)] by (auto simp: worker_tick_def perform_maintain_def split: if_splits)

definition put_back :: "job \<Rightarrow> int set \<Rightarrow> job option \<Rightarrow> bool" where
  "put_back j ts r \<longleftrightarrow>
     (\<exists>k t. r = Some k \<and> j_state k = Retry \<and> j_id k = j_id j \<and> j_name k = j_name j \<and>
        j_retry_count k = j_retry_count j + 1 \<and> t \<in> ts \<and> j_start_after k = t + seconds (j_retry_delay j))"

definition given_up :: "job option \<Rightarrow> bool" where
  "given_up r \<longleftrightarrow> (\<forall>k. r = Some k \<longrightarrow> j_state k = Failed)"

definition reclaimed :: "job \<Rightarrow> int set \<Rightarrow> job option \<Rightarrow> bool" where
  "reclaimed j ts r \<longleftrightarrow> (if j_retry_count j < j_retry_limit j then put_back j ts r else given_up r)"

lemma reclaimed_stays:
  assumes "db_inv d" "worker_tick w d = Inr d'" "reclaimed j ts (row d i)"
  shows "reclaimed j ts (row d' i)"
  using assms(3)
  by (auto simp: reclaimed_def put_back_def given_up_def tick_row [OF assms(1,2)] maintained_def expired_def
      purgeable_def split: if_splits option.splits)

lemma tick_reclaims:
  assumes "db_inv d" "worker_tick w d = Inr d'" "row d i = Some j" "j_state j = Active" "w_now w \<in> ts"
  shows "reclaimed j ts (row d' i) \<or> row d' i = Some j \<and> (w_installed w \<longrightarrow> \<not> expired (w_now w) j)"
proof (cases "w_installed w \<and> expired (w_now w) j")
  case True
  then have "row d' i = (if purgeable (w_now w) (expire_job (w_now w) j) then None else Some (expire_job (w_now w) j))"
    by (simp add: tick_row [OF assms(1,2)] assms(3) maintained_def)
  then show ?thesis
    using assms(5) by (auto simp: reclaimed_def put_back_def given_up_def expire_job_def retried_def fail_row_def purgeable_def)
next
  case False
  then show ?thesis
    using assms(3,4) by (auto simp: tick_row [OF assms(1,2)] maintained_def purgeable_def)
qed

lemma loop_keeps:
  assumes "db_inv d" "worker_loop worker_tick ws d = Inr d'" "reclaimed j ts (row d i)"
  shows "reclaimed j ts (row d' i)"
  using assms
proof (induction ws arbitrary: d)
  case (Cons w ws)
  show ?case
  proof (cases "w_continue w")
    case True
    then obtain d1 where d1: "worker_tick w d = Inr d1" "worker_loop worker_tick ws d1 = Inr d'"
      using Cons.prems(2) by (auto simp: rbind_eq_Inr)
    have "db_inv d1" using maint.tick_ok [OF Cons.prems(1), of w] d1(1) by auto
    then show ?thesis using Cons.IH [OF _ d1(2)] reclaimed_stays [OF Cons.prems(1) d1(1) Cons.prems(3)] by blast
  qed (use Cons.prems in simp)
qed simp

lemma loop_reclaims:
  assumes "db_inv d" "worker_loop worker_tick ws d = Inr d'" "\<forall>w \<in> set ws. w_continue w"
    and "row d i = Some j" "j_state j = Active" "w_now ` set ws \<subseteq> ts"
  shows "reclaimed j ts (row d' i) \<or> row d' i = Some j \<and> (\<forall>w \<in> set ws. w_installed w \<longrightarrow> \<not> expired (w_now w) j)"
  using assms
proof (induction ws arbitrary: d)
  case (Cons w ws)
  obtain d1 where d1: "worker_tick w d = Inr d1" "worker_loop worker_tick ws d1 = Inr d'"
    using Cons.prems(2,3) by (auto simp: rbind_eq_Inr)
  have inv: "db_inv d1" using maint.tick_ok [OF Cons.prems(1), of w] d1(1) by auto
  consider "reclaimed j ts (row d1 i)" | "row d1 i = Some j" "w_installed w \<longrightarrow> \<not> expired (w_now w) j"
    using tick_reclaims [OF Cons.prems(1) d1(1) Cons.prems(4,5)] Cons.prems(6) by auto
  then show ?case
  proof cases
    case 1
    then show ?thesis using loop_keeps [OF inv d1(2)] by blast
  next
    case 2
    then show ?thesis using Cons.IH [OF inv d1(2)] Cons.prems(3,5,6) by simp
  qed
qed auto

text \<open>One late tick of the worker is enough; then a fetch that is late enough finds the job.\<close>

lemma worker_reclaims:
  assumes "db_inv d" "row d i = Some j" "j_state j = Active"
    and "\<forall>w \<in> set ws. w_continue w" "w \<in> set ws" "w_installed w" "expired (w_now w) j"
  shows "\<exists>d'. worker_loop worker_tick ws d = Inr d' \<and> db_inv d' \<and> reclaimed j (w_now ` set ws) (row d' i)"
proof -
  obtain d' where d': "worker_loop worker_tick ws d = Inr d'" "db_inv d'"
    using maint.loop_ok [OF assms(1)] by blast
  then show ?thesis
    using loop_reclaims [OF assms(1) d'(1) assms(4,2,3) subset_refl] assms(5-7) by blast
qed

lemma fetch_all_finds:
  assumes "db_inv d" "row d i = Some k" "fetchable now qn k"
  shows "\<exists>js d'. fetch [] now qn None d = Inr (js, d') \<and> (i, j_retry_count k) \<in> set (claims (RJobs js)) \<and>
    row d' i = Some (claim now k)"
proof -
  obtain js d' where f: "fetch [] now qn None d = Inr (js, d')" by (simp add: fetch_def Let_def)
  have "claimed [] now qn None d i"
    using assms by (force simp: claimed_def fetch_next_def row_Some_iff)
  then have "claim now k \<in> set js" "row d' i = Some (claim now k)"
    using assms(2) row_SomeD [OF assms(2)] fetch_row [OF f] by (auto simp: fetch_result [OF assms(1) f])
  moreover from this have "(i, j_retry_count k) \<in> set (claims (RJobs js))"
    using row_SomeD [OF assms(2)] by (simp add: rev_image_eqI [of "claim now k"])
  ultimately show ?thesis using f by blast
qed

end
