(* ===== verification/Session_Props.thy ===== *)
theory Session_Props
  imports History Progress Examples
begin

text \<open>
  The properties of \<open>boss.fetch\<close> (src/src/schema.rs) over several sessions and several calls, and of
  the maintenance worker (src/src/lib.rs) for jobs whose consumer is gone.
\<close>

section \<open>Sessions\<close>

text \<open>Two jobs, and a run of two sessions that fetch one job each: the second finds the better job locked by the first.\<close>

definition two_jobs :: db where
  "two_jobs = orders_db [job_at 7 5 Created 0 None None, job_at 8 1 Created 0 None None]"

definition begun_seven :: csys where
  "begun_seven = (cinit two_jobs)\<lparr>sessions := (\<lambda>_. Idle)(1 := Scan ''orders'' 9 (Some 1) [7, 8] [])\<rparr>"

definition held_seven :: csys where
  "held_seven = (cinit two_jobs)\<lparr>locks := (\<lambda>_. None)(7 := Some 1),
     sessions := (\<lambda>_. Idle)(1 := Scan ''orders'' 9 (Some 0) [8] [7])\<rparr>"

definition second_scan :: "nat option \<Rightarrow> uuid list \<Rightarrow> csys" where
  "second_scan want todo = held_seven\<lparr>sessions := (sessions held_seven)(0 := Scan ''orders'' 9 want todo [])\<rparr>"

definition held_both :: csys where
  "held_both = held_seven\<lparr>locks := (locks held_seven)(8 := Some 0),
     sessions := (sessions held_seven)(0 := Scan ''orders'' 9 (Some 0) [] [8])\<rparr>"

definition second_done :: csys where
  "second_done = held_seven\<lparr>committed := orders_db [job_at 7 5 Created 0 None None, claim 9 (job_at 8 1 Created 0 None None)],
     handed_out := [(8, 0)]\<rparr>"

definition both_done :: csys where
  "both_done = \<lparr>committed = orders_db [claim 9 (job_at 7 5 Created 0 None None), claim 9 (job_at 8 1 Created 0 None None)],
     locks = (\<lambda>_. None), sessions = (\<lambda>_. Idle), handed_out = [(8, 0), (7, 0)]\<rparr>"

definition two_sessions :: "nat \<Rightarrow> csys" where
  "two_sessions k = [cinit two_jobs, begun_seven, held_seven, second_scan (Some 1) [7, 8], second_scan (Some 1) [8],
     held_both, second_done, both_done] ! k"

lemma two_jobs_inv: "db_inv two_jobs"
  by (simp add: two_jobs_def example_inv)

lemma two_jobs_snapshot: "snapshot_ids 9 ''orders'' two_jobs = [7, 8]"
  by (simp add: snapshot_ids_def fetch_next_def two_jobs_def orders_db_def job_at_def fetchable_def fetch_key_def
      less_eq_fetch_key_def)

lemma two_jobs_rows:
  "row two_jobs 7 = Some (job_at 7 5 Created 0 None None)" "row two_jobs 8 = Some (job_at 8 1 Created 0 None None)"
  "fetchable 9 ''orders'' (job_at i pri Created 0 None None)"
  by (simp_all add: row_def two_jobs_def orders_db_def job_at_def fetchable_def)

lemmas two_session_defs = two_sessions_def begun_seven_def held_seven_def second_scan_def held_both_def second_done_def
  both_done_def cinit_def

lemma first_steps: "cstep P (cinit two_jobs) begun_seven" "cstep P begun_seven held_seven"
proof -
  show "cstep P (cinit two_jobs) begun_seven"
    using cstep.begin_fetch [of "cinit two_jobs" 1 P "''orders''" 9 "Some 1"]
    by (simp add: two_session_defs two_jobs_snapshot)
  show "cstep P begun_seven held_seven"
    using cstep.take_row [of begun_seven 1 "''orders''" 9 "Some 1" 7 "[8]" "[]" _ P] two_jobs_rows
    by (simp add: two_session_defs dec_want_def)
qed

lemma second_steps: "cstep P held_seven (second_scan (Some 1) [7, 8])"
  "cstep P (second_scan (Some 1) [7, 8]) (second_scan (Some 1) [8])" "cstep P (second_scan (Some 1) [8]) held_both"
proof -
  show "cstep P held_seven (second_scan (Some 1) [7, 8])"
    using cstep.begin_fetch [of held_seven 0 P "''orders''" 9 "Some 1"]
    by (simp add: two_session_defs two_jobs_snapshot)
  show "cstep P (second_scan (Some 1) [7, 8]) (second_scan (Some 1) [8])"
    using cstep.skip_locked [of "second_scan (Some 1) [7, 8]" 0 "''orders''" 9 "Some 1" 7 "[8]" "[]" 1 P]
    by (simp add: two_session_defs)
  show "cstep P (second_scan (Some 1) [8]) held_both"
    using cstep.take_row [of "second_scan (Some 1) [8]" 0 "''orders''" 9 "Some 1" 8 "[]" "[]" _ P] two_jobs_rows
    by (simp add: two_session_defs dec_want_def)
qed

lemma release_examples:
  "release 0 ((\<lambda>_. None)(7 := Some 1, 8 := Some 0)) = (\<lambda>_. None)(7 := Some 1)"
  "release 1 ((\<lambda>_. None)(7 := Some 1)) = (\<lambda>_. None)"
  by (auto simp: release_def)

lemma last_steps: "cstep P held_both second_done" "cstep P second_done both_done"
proof -
  let ?a = "job_at 7 5 Created 0 None None" and ?b = "job_at 8 1 Created 0 None None"
  have claims: "claims_of [8] two_jobs = [(8, 0)]" "claims_of [7] (orders_db [?a, claim 9 ?b]) = [(7, 0)]"
    "claim_db 9 [8] two_jobs = orders_db [?a, claim 9 ?b]" "claim_db 9 [7] (orders_db [?a, claim 9 ?b]) = orders_db [claim 9 ?a, claim 9 ?b]"
    by (simp_all add: claims_of_def claim_db_def sql_update_def two_jobs_def orders_db_def job_at_def claim_def)
  show "cstep P held_both second_done"
    using cstep.commit_fetch [of held_both 0 "''orders''" 9 "Some 0" "[]" "[8]" P] claims release_examples
    by (simp add: two_session_defs fun_upd_twist fun_upd_idem [of "\<lambda>_. Idle"])
  show "cstep P second_done both_done"
    using cstep.commit_fetch [of second_done 1 "''orders''" 9 "Some 0" "[8]" "[7]" P] claims release_examples
    by (simp add: two_session_defs fun_upd_idem [of "\<lambda>_. Idle"])
qed

lemma two_sessions_run: "is_run P two_jobs two_sessions 7"
proof -
  have "cstep P (two_sessions k) (two_sessions (Suc k))" if "k < 7" for k
  proof -
    from that have "k \<in> {0, 1, 2, 3, 4, 5, 6}" by auto
    then show ?thesis
      using first_steps [of P] second_steps [of P] last_steps [of P] by (auto simp: two_sessions_def)
  qed
  then show ?thesis by (simp add: is_run_def two_sessions_def)
qed

lemma two_sessions_ids: "ids_once two_sessions 7"
proof -
  have "ids (committed (two_sessions k)) = {7, 8}" if "k \<le> 7" for k
  proof -
    from that have "k \<in> {0, 1, 2, 3, 4, 5, 6, 7}" by auto
    then show ?thesis by (auto simp: two_session_defs two_jobs_def ids_def orders_db_def job_at_def)
  qed
  then show ?thesis by (auto simp: ids_once_def)
qed

text \<open>
  C3: the interleaved fetches are serializable. A run of the sessions, in which the ids of new rows do not repeat, has a
  serial history: the steps in which a fetch commits contribute the atomic \<open>boss.fetch\<close> of that session, with the queue,
  the clock and the batch size it was called with, each other transaction contributes itself, and nothing
  else does. The atomic fetches skip, as locked, only rows that another session had locked, or that were not ready, at a moment
  between the call and the commit. Run one after the other in this order, these operations leave the same database and return the
  same job attempts.
\<close>

theorem interleaving_is_serial:
  assumes "is_run P d cs n" "db_inv d" "ids_once cs n"
  shows "\<exists>xs. (\<forall>k<n. serial_step P cs k (xs k)) \<and>
    committed (cs n) = run_ops (exec_op P) (concat (map xs [0..<n])) d \<and>
    handed_out (cs n) = concat (map claims (run_replies (exec_op P) (concat (map xs [0..<n])) d))"
proof -
  obtain xs where "\<forall>k<n. serial_step P cs k (xs k)"
    using step_serial [OF assms] by metis
  moreover have "cs 0 = cinit d" using assms(1) by (simp add: is_run_def)
  ultimately show ?thesis using run_serial [of cs d n P xs] by blast
qed

theorem interleaving_is_serial_witness:
  "\<exists>xs. (\<forall>k<7. serial_step pg0 two_sessions k (xs k)) \<and>
     concat (map claims (run_replies (exec_op pg0) (concat (map xs [0..<7])) two_jobs)) = [(8, 0), (7, 0)]"
proof -
  have "handed_out (two_sessions 7) = [(8, 0), (7, 0)]" by (simp add: two_session_defs)
  then show ?thesis
    using interleaving_is_serial [OF two_sessions_run two_jobs_inv two_sessions_ids, of pg0] by auto
qed

text \<open>
  C19: a fetch that nobody disturbs. In every reachable state, a session without an open transaction
  can make the visits of a fetch, and its commit leaves the database and hands out the attempts of the
  atomic \<open>boss.fetch\<close> with the rows the other sessions have locked; its own locks are released.
\<close>

theorem undisturbed_fetch:
  assumes "creach P c" "sessions c s = Idle"
    and "\<And>i. i \<in> ids (committed c) \<Longrightarrow> i \<in> set locked \<longleftrightarrow> locks c i \<noteq> None"
    and "fetch locked now qn (map_option int want) (committed c) = Inr (js, d')"
  shows "(cstep P)\<^sup>*\<^sup>* c (c\<lparr>committed := d', handed_out := handed_out c @ claims (RJobs js)\<rparr>)"
  using assms by (rule undisturbed_run)

text \<open>A second session has locked the job 7; the fetch of session 0 returns the job 8.\<close>

lemma held_seven_reach: "creach pg0 held_seven"
  by (rule creach.step [OF creach.step [OF creach.start [OF two_jobs_inv]]]) (rule first_steps)+

theorem undisturbed_fetch_witness:
  "(cstep pg0)\<^sup>*\<^sup>* held_seven
     (held_seven\<lparr>committed := orders_db [job_at 7 5 Created 0 None None, claim 9 (job_at 8 1 Created 0 None None)],
        handed_out := [(8, 0)]\<rparr>)"
proof -
  let ?a = "job_at 7 5 Created 0 None None" and ?b = "job_at 8 1 Created 0 None None"
  have f: "fetch [7] 9 ''orders'' (map_option int (Some 1)) (committed held_seven) =
      Inr ([claim 9 ?b], orders_db [?a, claim 9 ?b])"
    by (simp add: fetch_def fetch_next_def Let_def sql_update_def held_seven_def cinit_def two_jobs_def orders_db_def
        job_at_def fetchable_def claim_def)
  have "claims (RJobs [claim 9 ?b]) = [(8, 0)]" by (simp add: claim_def job_at_def)
  then show ?thesis
    using undisturbed_fetch [OF held_seven_reach _ _ f, of 0]
    by (simp add: held_seven_def cinit_def)
qed

section \<open>Batches\<close>

text \<open>
  C18: fetching in batches. Two fetches of \<open>m\<close> and then \<open>n\<close> jobs, with no change between them, leave the
  database of one fetch of \<open>m + n\<close> jobs and together return its rows, each once, and every
  job of the first batch comes before every job of the second in the order of the queue.
\<close>

theorem batches_equal_one_fetch:
  assumes "db_inv d" "fetch locked now qn (Some m) d = Inr (js1, d1)" "fetch locked now qn (Some n) d1 = Inr (js2, d2)"
  shows "\<exists>js. fetch locked now qn (Some (m + n)) d = Inr (js, d2) \<and> set js = set js1 \<union> set js2 \<and>
    length js = length js1 + length js2 \<and> (\<forall>a \<in> set js1. \<forall>b \<in> set js2. fetch_key a \<le> fetch_key b)"
  using assms by (rule fetch_batches)

theorem batches_equal_one_fetch_witness:
  "\<exists>js. fetch [] 9 ''orders'' (Some 2) two_jobs = Inr (js,
       orders_db [claim 9 (job_at 7 5 Created 0 None None), claim 9 (job_at 8 1 Created 0 None None)]) \<and> length js = 2"
proof -
  let ?a = "job_at 7 5 Created 0 None None" and ?b = "job_at 8 1 Created 0 None None"
  have inv: "db_inv two_jobs" by (simp add: two_jobs_def example_inv)
  have f: "fetch [] 9 ''orders'' (Some 1) two_jobs = Inr ([claim 9 ?a], orders_db [claim 9 ?a, ?b])"
    "fetch [] 9 ''orders'' (Some 1) (orders_db [claim 9 ?a, ?b]) = Inr ([claim 9 ?b], orders_db [claim 9 ?a, claim 9 ?b])"
    by (simp_all add: fetch_def fetch_next_def Let_def sql_update_def two_jobs_def orders_db_def job_at_def fetchable_def
        claim_def fetch_key_def less_eq_fetch_key_def)
  show ?thesis using batches_equal_one_fetch [OF inv f] by auto
qed

section \<open>Recovery\<close>

text \<open>
  C5: the job of a consumer that is gone. When a job is active and one of the wake-ups of the maintenance
  worker comes after its expiry, then however many wake-ups there are before and after it, the worker runs
  without a panic, and a job with retries left is returned, with the next attempt number, by a fetch
  without limit that comes after the retry delay; a job without retries left is failed, or purged.
\<close>

theorem crash_recovery:
  assumes "db_inv d" "row d i = Some j" "j_state j = Active" "j_started_on j = Some t"
    and "\<forall>w \<in> set ws. w_continue w" "w \<in> set ws" "w_installed w" "t + seconds (j_expire_seconds j) < w_now w"
    and "\<forall>w \<in> set ws. w_now w + seconds (j_retry_delay j) \<le> now"
  shows "\<exists>d'. snd (snd (background_worker_main cfg ws d)) = Inr d' \<and>
    (if j_retry_count j < j_retry_limit j
     then \<exists>js d''. fetch [] now (j_name j) None d' = Inr (js, d'') \<and> (i, j_retry_count j + 1) \<in> set (claims (RJobs js))
     else \<forall>k. row d' i = Some k \<longrightarrow> j_state k = Failed)"
proof -
  have "expired (w_now w) j" using assms(3,4,8) by (simp add: expired_def)
  then obtain d' where d': "worker_loop worker_tick ws d = Inr d'" "db_inv d'" "reclaimed j (w_now ` set ws) (row d' i)"
    using worker_reclaims [OF assms(1-3,5-7)] by blast
  have "\<exists>js d''. fetch [] now (j_name j) None d' = Inr (js, d'') \<and> (i, j_retry_count j + 1) \<in> set (claims (RJobs js))"
    if "j_retry_count j < j_retry_limit j"
  proof -
    have "put_back j (w_now ` set ws) (row d' i)" using d'(3) that by (simp add: reclaimed_def)
    then obtain k where k: "row d' i = Some k" "fetchable now (j_name j) k" "j_retry_count k = j_retry_count j + 1"
      using assms(9) by (auto simp: put_back_def fetchable_def)
    with fetch_all_finds [OF d'(2) k(1,2)] show ?thesis by auto
  qed
  then show ?thesis
    using d' by (auto simp: background_worker_main_def reclaimed_def given_up_def)
qed

theorem crash_recovery_witness:
  "\<exists>d'. snd (snd (background_worker_main \<lparr>cfg_database = None, cfg_interval = 60\<rparr>
       [\<lparr>w_continue = True, w_now = 60000000, w_installed = True\<rparr>,
        \<lparr>w_continue = True, w_now = 900000006, w_installed = True\<rparr>]
       (orders_db [job_at 7 0 Active 0 (Some 5) None]))) = Inr d' \<and>
     (\<exists>js d''. fetch [] 900000006 ''orders'' None d' = Inr (js, d'') \<and> (7, 1) \<in> set (claims (RJobs js)))"
proof -
  let ?j = "job_at 7 0 Active 0 (Some 5) None"
  have inv: "db_inv (orders_db [?j])" by (simp add: example_inv)
  have row: "row (orders_db [?j]) 7 = Some ?j" by (simp add: row_def orders_db_def job_at_def)
  have j: "j_state ?j = Active" "j_started_on ?j = Some 5" "j_expire_seconds ?j = 900" "j_retry_delay ?j = 0"
    "j_retry_count ?j = 0" "j_retry_limit ?j = 2" "j_name ?j = ''orders''"
    by (simp_all add: job_at_def)
  show ?thesis
    using crash_recovery [OF inv row j(1,2), of
        "[\<lparr>w_continue = True, w_now = 60000000, w_installed = True\<rparr>, \<lparr>w_continue = True, w_now = 900000006, w_installed = True\<rparr>]"
        "\<lparr>w_continue = True, w_now = 900000006, w_installed = True\<rparr>" 900000006 "\<lparr>cfg_database = None, cfg_interval = 60\<rparr>"] j
    by (simp add: seconds_def del: claims_simps)
qed

end
