(* ===== verification/Dsl_Ast.thy ===== *)
theory Dsl_Ast
  imports Json
begin

text \<open>
  The syntax tree of the test DSL, src/dsltest/src/ast.rs: scenarios, statements, commands, and
  the typed option records with their JSON form. A \<open>Duration\<close> is a number of milliseconds.
\<close>

section \<open>Options\<close>

record queue_options =
  qo_retry_limit :: "int option"
  qo_retry_delay :: "int option"
  qo_expire_in_seconds :: "int option"
  qo_retention_seconds :: "int option"

definition queue_options_default :: queue_options where
  "queue_options_default =
     \<lparr>qo_retry_limit = None, qo_retry_delay = None, qo_expire_in_seconds = None,
      qo_retention_seconds = None\<rparr>"

text \<open>\<open>set\<close>; \<open>None\<close> is the panic of \<open>unreachable!\<close> on a key the parser does not accept.\<close>

definition queue_options_set :: "string \<Rightarrow> int \<Rightarrow> queue_options \<Rightarrow> queue_options option" where
  "queue_options_set key v opts =
     (if key = ''retryLimit'' then Some (opts\<lparr>qo_retry_limit := Some v\<rparr>)
      else if key = ''retryDelay'' then Some (opts\<lparr>qo_retry_delay := Some v\<rparr>)
      else if key = ''expireInSeconds'' then Some (opts\<lparr>qo_expire_in_seconds := Some v\<rparr>)
      else if key = ''retentionSeconds'' then Some (opts\<lparr>qo_retention_seconds := Some v\<rparr>)
      else None)"

definition put :: "(string \<times> json) list \<Rightarrow> string \<Rightarrow> int option \<Rightarrow> (string \<times> json) list" where
  "put m key value = (case value of None \<Rightarrow> m | Some v \<Rightarrow> obj_insert key (JNum v 0) m)"

definition queue_options_to_json :: "queue_options \<Rightarrow> json" where
  "queue_options_to_json opts =
     JObj (put (put (put (put [] ''retryLimit'' (qo_retry_limit opts))
       ''retryDelay'' (qo_retry_delay opts))
       ''expireInSeconds'' (qo_expire_in_seconds opts))
       ''retentionSeconds'' (qo_retention_seconds opts))"

record send_options =
  so_priority :: "int option"
  so_start_after :: "int option"
  so_retry_limit :: "int option"
  so_retry_delay :: "int option"
  so_expire_in_seconds :: "int option"

definition send_options_default :: send_options where
  "send_options_default =
     \<lparr>so_priority = None, so_start_after = None, so_retry_limit = None, so_retry_delay = None,
      so_expire_in_seconds = None\<rparr>"

definition send_options_set :: "string \<Rightarrow> int \<Rightarrow> send_options \<Rightarrow> send_options option" where
  "send_options_set key v opts =
     (if key = ''priority'' then Some (opts\<lparr>so_priority := Some v\<rparr>)
      else if key = ''startAfter'' then Some (opts\<lparr>so_start_after := Some v\<rparr>)
      else if key = ''retryLimit'' then Some (opts\<lparr>so_retry_limit := Some v\<rparr>)
      else if key = ''retryDelay'' then Some (opts\<lparr>so_retry_delay := Some v\<rparr>)
      else if key = ''expireInSeconds'' then Some (opts\<lparr>so_expire_in_seconds := Some v\<rparr>)
      else None)"

definition send_options_to_json :: "send_options \<Rightarrow> json" where
  "send_options_to_json opts =
     JObj (put (put (put (put (put [] ''priority'' (so_priority opts))
       ''startAfter'' (so_start_after opts))
       ''retryLimit'' (so_retry_limit opts))
       ''retryDelay'' (so_retry_delay opts))
       ''expireInSeconds'' (so_expire_in_seconds opts))"

lemma put_get: "map_of (put m k v) k' = (if k' = k \<and> v \<noteq> None then map_option (\<lambda>n. JNum n 0) v else map_of m k')"
  by (cases v) (simp_all add: put_def json_get_insert)

lemma put_wf: "obj_wf m \<Longrightarrow> obj_wf (put m k v)"
  by (cases v) (simp_all add: put_def obj_wf_insert)

section \<open>Commands\<close>

datatype command =
    CreateQueue string queue_options
  | DeleteQueue string
  | Maintain
  | Push string json send_options
  | Consume string string "nat option"
  | SpawnConsume string string "nat option"
  | Await string
  | Ack string "json option"
  | Fail string "json option"
  | AssertQueueEmpty string
  | AssertQueueSize string int
  | CheckState string string
  | CheckAck string "nat option"
  | CheckEmpty string
  | CheckData string json
  | CheckGone string
  | AssertVarEq string string
  | AssertExactlyOneClaimed "string list"

record statement =
  st_line :: nat
  st_client :: nat
  st_command :: command

record scenario =
  sc_name :: string
  sc_statements :: "statement list"

end
