(* ===== verification/Dsl_Error.thy ===== *)
theory Dsl_Error
  imports Prelude
begin

text \<open>
  The error type of the test DSL, src/dsltest/src/error.rs, and the panics of Rust beside it:
  a \<open>failure\<close> is an error value or a panic. Also Rust's \<open>{:?}\<close> of a string, which the
  messages use.
\<close>

datatype kind = Parse | Assert | Runtime | Conn | Db

record dsl_error =
  e_line :: nat
  e_kind :: kind
  e_msg :: string

definition err_new :: "kind \<Rightarrow> nat \<Rightarrow> string \<Rightarrow> dsl_error" where
  "err_new k line msg = \<lparr>e_line = line, e_kind = k, e_msg = msg\<rparr>"

definition err_parse :: "nat \<Rightarrow> string \<Rightarrow> dsl_error" where
  "err_parse line msg = err_new Parse line msg"

definition err_assert :: "nat \<Rightarrow> string \<Rightarrow> dsl_error" where
  "err_assert line msg = err_new Assert line msg"

definition err_runtime :: "nat \<Rightarrow> string \<Rightarrow> dsl_error" where
  "err_runtime line msg = err_new Runtime line msg"

definition err_conn :: "string \<Rightarrow> dsl_error" where
  "err_conn msg = err_new Conn 0 msg"

definition err_db :: "string \<Rightarrow> dsl_error" where
  "err_db msg = err_new Db 0 msg"

fun kind_exit_code :: "kind \<Rightarrow> int" where
  "kind_exit_code Parse = 2"
| "kind_exit_code Conn = 3"
| "kind_exit_code Assert = 1"
| "kind_exit_code Runtime = 1"
| "kind_exit_code Db = 1"

definition exit_code :: "dsl_error \<Rightarrow> int" where
  "exit_code e = kind_exit_code (e_kind e)"

text \<open>\<open>impl Display\<close>: the message alone.\<close>

definition err_display :: "dsl_error \<Rightarrow> string" where
  "err_display e = e_msg e"

datatype failure = Err dsl_error | Panicked

lemma err_fields [simp]:
  "e_line (err_new k n m) = n" "e_kind (err_new k n m) = k" "e_msg (err_new k n m) = m"
  "e_line (err_parse n m) = n" "e_kind (err_parse n m) = Parse" "e_msg (err_parse n m) = m"
  by (simp_all add: err_new_def err_parse_def)

section \<open>Debug text of a string\<close>

text \<open>Shortest lower-case hexadecimal, as in \<open>\u{ad}\<close>; one or two digits are enough here.\<close>

definition debug_hex :: "nat \<Rightarrow> string" where
  "debug_hex n = (if n < 16 then [digit_char n] else [digit_char (n div 16), digit_char (n mod 16)])"

definition debug_char :: "char \<Rightarrow> string" where
  "debug_char c =
     (if c = CHR 0x00 then [CHR 0x5C, CHR ''0'']
      else if c = CHR 0x09 then [CHR 0x5C, CHR ''t'']
      else if c = CHR 0x0D then [CHR 0x5C, CHR ''r'']
      else if c = CHR 0x0A then [CHR 0x5C, CHR ''n'']
      else if c = CHR 0x22 \<or> c = CHR 0x5C then [CHR 0x5C, c]
      else if char_code c < 32 \<or> 127 \<le> char_code c \<and> char_code c \<le> 160 \<or> char_code c = 173
        then [CHR 0x5C] @ ''u{'' @ debug_hex (char_code c) @ ''}''
      else [c])"

definition rust_debug :: "string \<Rightarrow> string" where
  "rust_debug s = [CHR 0x22] @ concat (map debug_char s) @ [CHR 0x22]"

lemma debug_char_plain:
  "32 \<le> char_code c \<Longrightarrow> char_code c < 127 \<Longrightarrow> c \<noteq> CHR 0x22 \<Longrightarrow> c \<noteq> CHR 0x5C \<Longrightarrow> debug_char c = [c]"
  by (auto simp: debug_char_def char_code_def)

end
