(* ===== verification/Winnow.thy ===== *)
theory Winnow
  imports Prelude
begin

text \<open>
  The parser library of the test DSL. \<open>winnow\<close> is not part of the repository: what
  src/dsltest/src/parser.rs uses of it is a record of parameters (\<open>winnow\<close>), and its documented
  behaviour is the interface \<open>winnow_lib\<close>, an equation for each parser in terms of \<open>outcome\<close>,
  which forgets the text of an error. Nothing is assumed about error texts, nor about
  repetition of a parser that consumes nothing.

  The generic combinators work on one value type \<open>'v\<close>, the sum of the types the grammar
  uses. Sequencing by \<open>?\<close>, tuples, \<open>preceded\<close>, \<open>delimited\<close> and \<open>map\<close> are written out as the calls
  of \<open>parse_next\<close> they abbreviate.

  \<open>winnow_ref\<close> is an instance, so that the interface is satisfiable and the grammar can be run.
\<close>

datatype perr = Backtrack string | Panic

type_synonym 'a presult = "perr + ('a \<times> string)"
type_synonym 'a parser = "string \<Rightarrow> 'a presult"

record 'v winnow =
  literal :: "string \<Rightarrow> string parser"
  space1 :: "string parser"
  digit1 :: "string parser"
  take_while :: "nat \<Rightarrow> (char \<Rightarrow> bool) \<Rightarrow> string parser"
  alt :: "'v parser list \<Rightarrow> 'v parser"
  opt :: "'v parser \<Rightarrow> 'v option parser"
  repeat :: "nat \<Rightarrow> 'v parser \<Rightarrow> 'v list parser"
  take_of :: "'v parser \<Rightarrow> string parser"
  try_map :: "('v \<Rightarrow> 'v option) \<Rightarrow> 'v parser \<Rightarrow> 'v parser"

section \<open>Sequencing\<close>

definition pret :: "'a \<Rightarrow> 'a parser" where
  "pret v s = Inr (v, s)"

definition ppanic :: "'a parser" where
  "ppanic s = Inl Panic"

definition pbind :: "'a parser \<Rightarrow> ('a \<Rightarrow> 'b parser) \<Rightarrow> 'b parser" where
  "pbind p f s = (case p s of Inl e \<Rightarrow> Inl e | Inr (v, r) \<Rightarrow> f v r)"

definition pmap :: "('a \<Rightarrow> 'b) \<Rightarrow> 'a parser \<Rightarrow> 'b parser" where
  "pmap f p = pbind p (\<lambda>v. pret (f v))"

fun pseq :: "string parser list \<Rightarrow> string list parser" where
  "pseq [] = pret []"
| "pseq (p # ps) = pbind p (\<lambda>x. pbind (pseq ps) (\<lambda>xs. pret (x # xs)))"

definition preceded :: "'a parser \<Rightarrow> 'b parser \<Rightarrow> 'b parser" where
  "preceded p q = pbind p (\<lambda>_. q)"

definition delimited :: "'a parser \<Rightarrow> 'b parser \<Rightarrow> 'c parser \<Rightarrow> 'b parser" where
  "delimited p q r = pbind p (\<lambda>_. pbind q (\<lambda>v. pbind r (\<lambda>_. pret v)))"

section \<open>Outcomes\<close>

datatype 'a outcome = No_Match | Panics | Match 'a string

definition outcome :: "'a presult \<Rightarrow> 'a outcome" where
  "outcome r = (case r of Inl (Backtrack e) \<Rightarrow> No_Match | Inl Panic \<Rightarrow> Panics | Inr (v, s) \<Rightarrow> Match v s)"

fun obind :: "'a outcome \<Rightarrow> ('a \<Rightarrow> string \<Rightarrow> 'b outcome) \<Rightarrow> 'b outcome" where
  "obind No_Match f = No_Match"
| "obind Panics f = Panics"
| "obind (Match v s) f = f v s"

lemma outcome_simps [simp]:
  "outcome (Inl (Backtrack e)) = No_Match"
  "outcome (Inl Panic) = Panics"
  "outcome (Inr (v, s)) = Match v s"
  by (simp_all add: outcome_def)

lemma outcome_Match_iff [simp]: "outcome r = Match v s \<longleftrightarrow> r = Inr (v, s)"
  by (auto simp: outcome_def split: sum.splits perr.splits)

lemma outcome_No_Match: "outcome r = No_Match \<Longrightarrow> \<exists>e. r = Inl (Backtrack e)"
  by (auto simp: outcome_def split: sum.splits perr.splits)

lemma outcome_pret [simp]: "outcome (pret v s) = Match v s"
  by (simp add: pret_def)

lemma outcome_ppanic [simp]: "outcome (ppanic s) = Panics"
  by (simp add: ppanic_def)

lemma outcome_pbind [simp]: "outcome (pbind p f s) = obind (outcome (p s)) (\<lambda>v r. outcome (f v r))"
proof (cases "p s")
  case (Inl e)
  then show ?thesis by (cases e) (simp_all add: pbind_def)
next
  case (Inr y)
  then show ?thesis by (cases y) (simp add: pbind_def)
qed

lemma outcome_pmap [simp]: "outcome (pmap f p s) = obind (outcome (p s)) (\<lambda>v r. Match (f v) r)"
  by (simp add: pmap_def)

lemma outcome_preceded [simp]: "outcome (preceded p q s) = obind (outcome (p s)) (\<lambda>v r. outcome (q r))"
  by (simp add: preceded_def)

lemma outcome_delimited [simp]: "outcome (delimited p q r s) =
    obind (outcome (p s)) (\<lambda>_ s1. obind (outcome (q s1)) (\<lambda>v s2. obind (outcome (r s2)) (\<lambda>_ s3. Match v s3)))"
  by (simp add: delimited_def)

section \<open>The documented behaviour\<close>

definition is_blank :: "char \<Rightarrow> bool" where
  "is_blank c \<longleftrightarrow> c = CHR '' '' \<or> c = CHR 0x09"

definition span1 :: "nat \<Rightarrow> (char \<Rightarrow> bool) \<Rightarrow> string \<Rightarrow> string outcome" where
  "span1 m f s =
     (if m \<le> length (takeWhile f s) then Match (takeWhile f s) (dropWhile f s) else No_Match)"

locale winnow_lib =
  fixes W :: "'v winnow"
  assumes literal: "outcome (literal W t s) = (if prefix t s then Match t (drop (length t) s) else No_Match)"
    and space1: "outcome (space1 W s) = span1 1 is_blank s"
    and digit1: "outcome (digit1 W s) = span1 1 is_digit s"
    and take_while: "outcome (take_while W m f s) = span1 m f s"
    and alt: "outcome (alt W (p # ps) s) =
      (case outcome (p s) of
         No_Match \<Rightarrow> if ps = [] then No_Match else outcome (alt W ps s)
       | Panics \<Rightarrow> Panics
       | Match v r \<Rightarrow> Match v r)"
    and opt: "outcome (opt W p s) =
      (case outcome (p s) of No_Match \<Rightarrow> Match None s | Panics \<Rightarrow> Panics | Match v r \<Rightarrow> Match (Some v) r)"
    and repeat: "(\<And>v r. outcome (p s) = Match v r \<Longrightarrow> length r < length s) \<Longrightarrow>
      outcome (repeat W m p s) =
      (case outcome (p s) of
         No_Match \<Rightarrow> if m = 0 then Match [] s else No_Match
       | Panics \<Rightarrow> Panics
       | Match v r \<Rightarrow> obind (outcome (repeat W (m - 1) p r)) (\<lambda>vs r'. Match (v # vs) r'))"
    and take_of: "outcome (take_of W p s) = obind (outcome (p s)) (\<lambda>v r. Match (take (length s - length r) s) r)"
    and try_map: "outcome (try_map W g p s) =
      obind (outcome (p s)) (\<lambda>v r. case g v of None \<Rightarrow> No_Match | Some w \<Rightarrow> Match w r)"
begin

lemmas laws = literal space1 digit1 take_while alt opt take_of try_map

text \<open>Repetition of a parser over a text that starts with a concatenation of items.\<close>

lemma repeat_items_then:
  assumes "\<And>x rest. x \<in> set xs \<Longrightarrow> good rest \<Longrightarrow> outcome (p (item x @ rest)) = Match (val x) rest"
    and "\<And>x rest. x \<in> set xs \<Longrightarrow> good rest \<Longrightarrow> good (item x @ rest)"
    and "\<And>x. x \<in> set xs \<Longrightarrow> item x \<noteq> []"
    and "good tail" "outcome (repeat W (m - length xs) p tail) = Match vs r"
  shows "outcome (repeat W m p (concat (map item xs) @ tail)) = Match (map val xs @ vs) r"
  using assms
proof (induction xs arbitrary: m)
  case (Cons x xs)
  let ?rest = "concat (map item xs) @ tail"
  have g: "good ?rest"
    using Cons.prems(2,4) by (induction xs) auto
  have p: "outcome (p (item x @ ?rest)) = Match (val x) ?rest"
    using Cons.prems(1) g by simp
  have IH: "outcome (repeat W (m - 1) p ?rest) = Match (map val xs @ vs) r"
    using Cons.prems by (intro Cons.IH) auto
  have "outcome (repeat W m p (item x @ ?rest)) = Match (val x # map val xs @ vs) r"
    using Cons.prems(3) p IH by (subst repeat) auto
  then show ?case by simp
qed simp

lemma repeat_none: "outcome (p s) = No_Match \<Longrightarrow> outcome (repeat W 0 p s) = Match [] s"
  by (subst repeat) simp_all

lemma repeat_items:
  assumes "\<And>x rest. x \<in> set xs \<Longrightarrow> good rest \<Longrightarrow> outcome (p (item x @ rest)) = Match (val x) rest"
    and "\<And>x rest. x \<in> set xs \<Longrightarrow> good rest \<Longrightarrow> good (item x @ rest)"
    and "\<And>x. x \<in> set xs \<Longrightarrow> item x \<noteq> []"
    and "good tail" "outcome (p tail) = No_Match" "m \<le> length xs"
  shows "outcome (repeat W m p (concat (map item xs) @ tail)) = Match (map val xs) tail"
proof -
  have "outcome (repeat W (m - length xs) p tail) = Match [] tail"
    using repeat_none [of p tail] assms(5,6) by simp
  with repeat_items_then [of xs good p item val tail m "[]" tail] show ?thesis
    using assms(1-4) by simp
qed

end

section \<open>An instance\<close>

fun alt_ref :: "'v parser list \<Rightarrow> 'v parser" where
  "alt_ref [] s = Inl (Backtrack ''alt'')"
| "alt_ref (p # ps) s = (case p s of Inl (Backtrack e) \<Rightarrow> alt_ref ps s | r \<Rightarrow> r)"

definition span_ref :: "nat \<Rightarrow> (char \<Rightarrow> bool) \<Rightarrow> string parser" where
  "span_ref m f s =
     (if m \<le> length (takeWhile f s) then Inr (takeWhile f s, dropWhile f s) else Inl (Backtrack ''span''))"

function repeat_ref :: "nat \<Rightarrow> 'v parser \<Rightarrow> 'v list parser" where
  "repeat_ref m p s =
     (case p s of
        Inl Panic \<Rightarrow> Inl Panic
      | Inl (Backtrack e) \<Rightarrow> if m = 0 then Inr ([], s) else Inl (Backtrack e)
      | Inr (v, r) \<Rightarrow>
          if length r < length s then
            (case repeat_ref (m - 1) p r of Inl e \<Rightarrow> Inl e | Inr (vs, r') \<Rightarrow> Inr (v # vs, r'))
          else Inl Panic)"
  by pat_completeness auto
termination by (relation "measure (\<lambda>(m, p, s). length s)") auto

declare repeat_ref.simps [simp del]

definition winnow_ref :: "'v winnow" where
  "winnow_ref =
     \<lparr>literal = (\<lambda>t s. if prefix t s then Inr (t, drop (length t) s) else Inl (Backtrack ''literal'')),
      space1 = span_ref 1 is_blank,
      digit1 = span_ref 1 is_digit,
      take_while = span_ref,
      alt = alt_ref,
      opt = (\<lambda>p s. case p s of
          Inl Panic \<Rightarrow> Inl Panic
        | Inl (Backtrack e) \<Rightarrow> Inr (None, s)
        | Inr (v, r) \<Rightarrow> Inr (Some v, r)),
      repeat = repeat_ref,
      take_of = (\<lambda>p s. case p s of Inl e \<Rightarrow> Inl e | Inr (v, r) \<Rightarrow> Inr (take (length s - length r) s, r)),
      try_map = (\<lambda>f p s. case p s of
          Inl e \<Rightarrow> Inl e
        | Inr (v, r) \<Rightarrow> (case f v of None \<Rightarrow> Inl (Backtrack ''verify'') | Some w \<Rightarrow> Inr (w, r)))\<rparr>"

lemma outcome_span_ref: "outcome (span_ref m f s) = span1 m f s"
  by (simp add: span_ref_def span1_def)

lemma outcome_cases:
  obtains (nomatch) e where "r = Inl (Backtrack e)" | (panic) "r = Inl Panic" | (match) v s where "r = Inr (v, s)"
  by (cases r) (metis perr.exhaust, metis surj_pair)

interpretation ref: winnow_lib winnow_ref
proof unfold_locales
  fix p :: "'v parser" and ps s f m and t :: string and g
  show "outcome (alt winnow_ref (p # ps) s) =
      (case outcome (p s) of
         No_Match \<Rightarrow> if ps = [] then No_Match else outcome (alt winnow_ref ps s)
       | Panics \<Rightarrow> Panics | Match v r \<Rightarrow> Match v r)"
    by (cases "p s" rule: outcome_cases) (simp_all add: winnow_ref_def)
  show "outcome (opt winnow_ref p s) =
      (case outcome (p s) of No_Match \<Rightarrow> Match None s | Panics \<Rightarrow> Panics | Match v r \<Rightarrow> Match (Some v) r)"
    by (cases "p s" rule: outcome_cases) (simp_all add: winnow_ref_def)
  show "outcome (take_of winnow_ref p s) =
      obind (outcome (p s)) (\<lambda>v r. Match (take (length s - length r) s) r)"
    by (cases "p s" rule: outcome_cases) (simp_all add: winnow_ref_def)
  show "outcome (try_map winnow_ref f p s) =
      obind (outcome (p s)) (\<lambda>v r. case f v of None \<Rightarrow> No_Match | Some w \<Rightarrow> Match w r)"
    by (cases "p s" rule: outcome_cases) (simp_all add: winnow_ref_def split: option.split)
  show "outcome (repeat winnow_ref m p s) =
      (case outcome (p s) of
         No_Match \<Rightarrow> if m = 0 then Match [] s else No_Match
       | Panics \<Rightarrow> Panics
       | Match v r \<Rightarrow> obind (outcome (repeat winnow_ref (m - 1) p r)) (\<lambda>vs r'. Match (v # vs) r'))"
    if "\<And>v r. outcome (p s) = Match v r \<Longrightarrow> length r < length s"
  proof (cases "p s" rule: outcome_cases)
    case (match v r)
    with that have l: "length r < length s" by simp
    show ?thesis
      by (cases "repeat_ref (m - 1) p r" rule: outcome_cases)
        (simp_all add: winnow_ref_def repeat_ref.simps [of m p s] match l)
  qed (simp_all add: winnow_ref_def repeat_ref.simps [of m p s])
qed (simp_all add: winnow_ref_def outcome_span_ref)

end
