(* ===== verification/Dsl_Parser.thy ===== *)
theory Dsl_Parser
  imports Dsl_Ast Dsl_Error Winnow
begin

text \<open>
  The parser of the test DSL, src/dsltest/src/parser.rs, one definition per function (suffix
  \<open>_p\<close>). The parameters are \<open>W\<close>, the \<open>winnow\<close> library, and \<open>J\<close>, \<open>serde_json::from_str\<close>.
  \<open>pval\<close> is the sum of the types at which the generic combinators are used. Arithmetic overflow
  panics, as in the \<open>cargo run\<close> profile the program is documented to be run with.
\<close>

section \<open>Rust's text functions\<close>

definition is_alphanumeric :: "char \<Rightarrow> bool" where
  "is_alphanumeric c \<longleftrightarrow>
     (let n = char_code c in
       48 \<le> n \<and> n \<le> 57 \<or> 65 \<le> n \<and> n \<le> 90 \<or> 97 \<le> n \<and> n \<le> 122 \<or>
       n = 170 \<or> n = 178 \<or> n = 179 \<or> n = 181 \<or> n = 185 \<or> n = 186 \<or> 188 \<le> n \<and> n \<le> 190 \<or>
       192 \<le> n \<and> n \<noteq> 215 \<and> n \<noteq> 247)"

definition is_whitespace :: "char \<Rightarrow> bool" where
  "is_whitespace c \<longleftrightarrow>
     (let n = char_code c in 9 \<le> n \<and> n \<le> 13 \<or> n = 32 \<or> n = 133 \<or> n = 160)"

definition trim :: "string \<Rightarrow> string" where
  "trim s = rev (dropWhile is_whitespace (rev (dropWhile is_whitespace s)))"

text \<open>\<open>str::lines\<close>: a line ends at a newline, with one carriage return before it stripped.\<close>

definition strip_cr :: "string \<Rightarrow> string" where
  "strip_cr l = (if l \<noteq> [] \<and> last l = CHR 0x0D then butlast l else l)"

lemma dropWhile_shorter: "dropWhile f s = c # r \<Longrightarrow> length r < length s"
  by (metis Suc_le_lessD length_Cons length_dropWhile_le)

function lines_of :: "string \<Rightarrow> string list" where
  "lines_of s =
     (if s = [] then []
      else case dropWhile (\<lambda>c. c \<noteq> CHR 0x0A) s of
             [] \<Rightarrow> [s]
           | _ # r \<Rightarrow> strip_cr (takeWhile (\<lambda>c. c \<noteq> CHR 0x0A) s) # lines_of r)"
  by pat_completeness auto

termination
  by (relation "measure length") (auto dest: dropWhile_shorter)

declare lines_of.simps [simp del]

text \<open>\<open>parse::<u32>\<close>, \<open>parse::<u64>\<close> and \<open>parse::<i64>\<close>.\<close>

definition parse_uint :: "nat \<Rightarrow> string \<Rightarrow> nat option" where
  "parse_uint w s =
     (let t = (case s of c # d # r \<Rightarrow> if c = CHR ''+'' then d # r else s | _ \<Rightarrow> s) in
      if t \<noteq> [] \<and> list_all is_digit t \<and> dec_val t < 2 ^ w then Some (dec_val t) else None)"

definition parse_i64 :: "string \<Rightarrow> int option" where
  "parse_i64 s =
     (case s of
        [] \<Rightarrow> None
      | c # r \<Rightarrow>
          (let t = (if (c = CHR ''-'' \<or> c = CHR ''+'') \<and> r \<noteq> [] then r else s);
               z = (if c = CHR ''-'' then - int (dec_val t) else int (dec_val t)) in
           if list_all is_digit t \<and> in_i64 z then Some z else None))"

section \<open>The values of the combinators\<close>

datatype push_item = Item_Value json | Item_Opt string int

datatype check_kind =
    Kind_State string
  | Kind_Ack "nat option"
  | Kind_Empty
  | Kind_Data json
  | Kind_Gone

datatype pval =
    VStr (the_str: string)
  | VInt (the_int: int)
  | VNat (the_nat: nat)
  | VJson (the_json: json)
  | VOpt (the_opt: "string \<times> int")
  | VItem (the_item: push_item)
  | VSize (the_size: "int option")
  | VKind (the_kind: check_kind)
  | VCmd (the_cmd: command)

type_synonym lib = "pval winnow"
type_synonym serde = "string \<Rightarrow> json option"

definition alt_lit :: "lib \<Rightarrow> string list \<Rightarrow> string parser" where
  "alt_lit W ts = pmap the_str (alt W (map (\<lambda>t. pmap VStr (literal W t)) ts))"

section \<open>Leaf parsers\<close>

definition ident_char :: "char \<Rightarrow> bool" where
  "ident_char c \<longleftrightarrow> is_alphanumeric c \<or> c = CHR ''_'' \<or> c = CHR ''-''"

definition ident_p :: "lib \<Rightarrow> string parser" where
  "ident_p W = take_while W 1 ident_char"

definition header_p :: "lib \<Rightarrow> string parser" where
  "header_p W =
     pbind (pseq [literal W ''scenario'', space1 W]) (\<lambda>_.
     pbind (ident_p W) (\<lambda>name.
     pbind (opt W (pmap VStr (literal W '':''))) (\<lambda>_. pret name)))"

definition state_lit_p :: "lib \<Rightarrow> string parser" where
  "state_lit_p W = alt_lit W [''created'', ''retry'', ''active'', ''completed'', ''cancelled'', ''failed'']"

definition integer_p :: "lib \<Rightarrow> int parser" where
  "integer_p W =
     pmap the_int (try_map W (\<lambda>v. map_option VInt (parse_i64 (the_str v)))
       (pmap VStr (take_of W
         (pbind (opt W (pmap VStr (literal W ''-''))) (\<lambda>_. pmap VStr (digit1 W))))))"

definition duration_p :: "lib \<Rightarrow> nat parser" where
  "duration_p W =
     pbind (try_map W (\<lambda>v. map_option VNat (parse_uint 64 (the_str v))) (pmap VStr (digit1 W))) (\<lambda>v.
     pbind (alt_lit W [''ms'', ''s'', ''m'']) (\<lambda>unit.
       let n = the_nat v in
       if unit = ''ms'' then pret n
       else if unit = ''s'' then pret (n * 1000)
       else if n * 60 < 2 ^ 64 then pret (n * 60 * 1000) else ppanic))"

definition quoted_p :: "lib \<Rightarrow> string parser" where
  "quoted_p W =
     delimited (literal W [CHR 0x22]) (take_while W 0 (\<lambda>c. c \<noteq> CHR 0x22)) (literal W [CHR 0x22])"

definition rest_of_line_p :: "string parser" where
  "rest_of_line_p s = Inr (s, [])"

definition json_value_p :: "lib \<Rightarrow> serde \<Rightarrow> json parser" where
  "json_value_p W J =
     pmap the_json (try_map W (\<lambda>v. map_option VJson (J (trim (the_str v)))) (pmap VStr rest_of_line_p))"

definition message_clause_p :: "lib \<Rightarrow> json parser" where
  "message_clause_p W =
     pbind (pseq [literal W ''message'', space1 W]) (\<lambda>_. pmap JStr (quoted_p W))"

definition data_clause_p :: "lib \<Rightarrow> serde \<Rightarrow> json parser" where
  "data_clause_p W J = pbind (pseq [literal W ''data'', space1 W]) (\<lambda>_. json_value_p W J)"

definition queue_opt_p :: "lib \<Rightarrow> (string \<times> int) parser" where
  "queue_opt_p W =
     pbind (alt_lit W [''retryLimit'', ''retryDelay'', ''expireInSeconds'', ''retentionSeconds'']) (\<lambda>key.
     pbind (literal W ''='') (\<lambda>_.
     pbind (integer_p W) (\<lambda>v. pret (key, v))))"

definition send_opt_p :: "lib \<Rightarrow> (string \<times> int) parser" where
  "send_opt_p W =
     pbind (alt_lit W [''priority'', ''startAfter'', ''retryLimit'', ''retryDelay'', ''expireInSeconds'']) (\<lambda>key.
     pbind (literal W ''='') (\<lambda>_.
     pbind (integer_p W) (\<lambda>v. pret (key, v))))"

section \<open>Commands\<close>

text \<open>The loop of \<open>options.set\<close> over the parsed pairs; \<open>None\<close> when \<open>set\<close> panics.\<close>

fun set_options :: "(string \<Rightarrow> int \<Rightarrow> 'o \<Rightarrow> 'o option) \<Rightarrow> (string \<times> int) list \<Rightarrow> 'o \<Rightarrow> 'o option" where
  "set_options f [] opts = Some opts"
| "set_options f ((k, v) # raw) opts = Option.bind (f k v opts) (set_options f raw)"

definition create_queue_p :: "lib \<Rightarrow> command parser" where
  "create_queue_p W =
     pbind (pseq [literal W ''create'', space1 W, literal W ''queue'', space1 W]) (\<lambda>_.
     pbind (ident_p W) (\<lambda>name.
     pbind (repeat W 0 (preceded (space1 W) (pmap VOpt (queue_opt_p W)))) (\<lambda>raw.
       case set_options queue_options_set (map the_opt raw) queue_options_default of
         None \<Rightarrow> ppanic
       | Some opts \<Rightarrow> pret (CreateQueue name opts))))"

definition delete_queue_p :: "lib \<Rightarrow> command parser" where
  "delete_queue_p W =
     pbind (pseq [literal W ''delete'', space1 W, literal W ''queue'', space1 W]) (\<lambda>_.
     pbind (ident_p W) (\<lambda>name. pret (DeleteQueue name)))"

definition maintain_p :: "lib \<Rightarrow> command parser" where
  "maintain_p W = pbind (literal W ''maintain'') (\<lambda>_. pret Maintain)"

fun push_items :: "push_item list \<Rightarrow> json option \<times> send_options \<Rightarrow> (json option \<times> send_options) option" where
  "push_items [] acc = Some acc"
| "push_items (Item_Value v # items) (data, opts) = push_items items (Some v, opts)"
| "push_items (Item_Opt k v # items) (data, opts) =
     Option.bind (send_options_set k v opts) (\<lambda>opts'. push_items items (data, opts'))"

definition push_item_p :: "lib \<Rightarrow> serde \<Rightarrow> pval parser" where
  "push_item_p W J =
     preceded (space1 W)
       (alt W [pmap (VItem \<circ> Item_Value) (message_clause_p W),
               pmap (VItem \<circ> Item_Value) (data_clause_p W J),
               pmap (\<lambda>(k, v). VItem (Item_Opt k v)) (send_opt_p W)])"

definition push_cmd_p :: "lib \<Rightarrow> serde \<Rightarrow> command parser" where
  "push_cmd_p W J =
     pbind (pseq [alt_lit W [''push'', ''send''], space1 W]) (\<lambda>_.
     pbind (ident_p W) (\<lambda>queue.
     pbind (repeat W 0 (push_item_p W J)) (\<lambda>items.
       case push_items (map the_item items) (None, send_options_default) of
         None \<Rightarrow> ppanic
       | Some (data, opts) \<Rightarrow>
           pret (Push queue (case data of None \<Rightarrow> JObj [] | Some v \<Rightarrow> v) opts))))"

definition within_p :: "lib \<Rightarrow> nat option parser" where
  "within_p W =
     pmap (map_option the_nat) (opt W
       (preceded (pseq [space1 W, literal W ''within'', space1 W]) (pmap VNat (duration_p W))))"

definition consume_cmd_p :: "lib \<Rightarrow> command parser" where
  "consume_cmd_p W =
     pbind (pseq [alt_lit W [''consume'', ''fetch''], space1 W]) (\<lambda>_.
     pbind (ident_p W) (\<lambda>queue.
     pbind (pseq [space1 W, literal W ''->'', space1 W]) (\<lambda>_.
     pbind (ident_p W) (\<lambda>var.
     pbind (within_p W) (\<lambda>within. pret (Consume queue var within))))))"

definition spawn_consume_p :: "lib \<Rightarrow> command parser" where
  "spawn_consume_p W =
     pbind (pseq [literal W ''spawn'', space1 W, literal W ''consume'', space1 W]) (\<lambda>_.
     pbind (ident_p W) (\<lambda>queue.
     pbind (pseq [space1 W, literal W ''->'', space1 W]) (\<lambda>_.
     pbind (ident_p W) (\<lambda>var.
     pbind (within_p W) (\<lambda>within. pret (SpawnConsume queue var within))))))"

definition await_cmd_p :: "lib \<Rightarrow> command parser" where
  "await_cmd_p W =
     pbind (pseq [literal W ''await'', space1 W]) (\<lambda>_. pbind (ident_p W) (\<lambda>var. pret (Await var)))"

definition output_p :: "lib \<Rightarrow> serde \<Rightarrow> json option parser" where
  "output_p W J =
     pmap (map_option the_json) (opt W
       (preceded (pseq [space1 W, literal W ''output'', space1 W]) (pmap VJson (json_value_p W J))))"

definition ack_cmd_p :: "lib \<Rightarrow> serde \<Rightarrow> command parser" where
  "ack_cmd_p W J =
     pbind (pseq [alt_lit W [''ack'', ''complete''], space1 W]) (\<lambda>_.
     pbind (ident_p W) (\<lambda>var.
     pbind (output_p W J) (\<lambda>output. pret (Ack var output))))"

definition fail_cmd_p :: "lib \<Rightarrow> serde \<Rightarrow> command parser" where
  "fail_cmd_p W J =
     pbind (pseq [literal W ''fail'', space1 W]) (\<lambda>_.
     pbind (ident_p W) (\<lambda>var.
     pbind (output_p W J) (\<lambda>output. pret (Fail var output))))"

definition assert_queue_p :: "lib \<Rightarrow> command parser" where
  "assert_queue_p W =
     pbind (pseq [literal W ''queue'', space1 W]) (\<lambda>_.
     pbind (ident_p W) (\<lambda>queue.
     pbind (space1 W) (\<lambda>_.
     pbind (alt W
        [pmap (\<lambda>_. VSize None) (literal W ''empty''),
         pmap (\<lambda>n. VSize (Some n))
           (pbind (pseq [literal W ''size'', space1 W]) (\<lambda>_. integer_p W))]) (\<lambda>size.
       case the_size size of
         None \<Rightarrow> pret (AssertQueueEmpty queue)
       | Some n \<Rightarrow> pret (AssertQueueSize queue n)))))"

definition assert_exactly_one_p :: "lib \<Rightarrow> command parser" where
  "assert_exactly_one_p W =
     pbind (literal W ''exactly_one_claimed'') (\<lambda>_.
     pbind (repeat W 1 (preceded (space1 W) (pmap VStr (ident_p W)))) (\<lambda>vars.
       pret (AssertExactlyOneClaimed (map the_str vars))))"

definition assert_var_eq_p :: "lib \<Rightarrow> command parser" where
  "assert_var_eq_p W =
     pbind (ident_p W) (\<lambda>left.
     pbind (pseq [space1 W, literal W ''=='', space1 W]) (\<lambda>_.
     pbind (ident_p W) (\<lambda>right. pret (AssertVarEq left right))))"

definition assert_cmd_p :: "lib \<Rightarrow> command parser" where
  "assert_cmd_p W =
     pbind (pseq [literal W ''assert'', space1 W]) (\<lambda>_.
     pmap the_cmd (alt W (map (pmap VCmd)
       [assert_queue_p W, assert_exactly_one_p W, assert_var_eq_p W])))"

definition check_kind_p :: "lib \<Rightarrow> serde \<Rightarrow> check_kind parser" where
  "check_kind_p W J =
     pmap the_kind (alt W (map (pmap VKind)
       [pmap Kind_State (pbind (pseq [literal W ''state'', space1 W]) (\<lambda>_. state_lit_p W)),
        pmap Kind_Ack (pbind (literal W ''ack'') (\<lambda>_. within_p W)),
        pmap Kind_Data (pbind (pseq [literal W ''data'', space1 W]) (\<lambda>_. json_value_p W J)),
        pmap (\<lambda>_. Kind_Gone) (literal W ''gone''),
        pmap (\<lambda>_. Kind_Empty) (literal W ''empty'')]))"

fun check_of_kind :: "string \<Rightarrow> check_kind \<Rightarrow> command" where
  "check_of_kind var (Kind_State state) = CheckState var state"
| "check_of_kind var (Kind_Ack within) = CheckAck var within"
| "check_of_kind var Kind_Empty = CheckEmpty var"
| "check_of_kind var (Kind_Data expected) = CheckData var expected"
| "check_of_kind var Kind_Gone = CheckGone var"

definition check_cmd_p :: "lib \<Rightarrow> serde \<Rightarrow> command parser" where
  "check_cmd_p W J =
     pbind (pseq [literal W ''check'', space1 W]) (\<lambda>_.
     pbind (ident_p W) (\<lambda>var.
     pbind (space1 W) (\<lambda>_.
     pbind (check_kind_p W J) (\<lambda>kind. pret (check_of_kind var kind)))))"

definition command_p :: "lib \<Rightarrow> serde \<Rightarrow> command parser" where
  "command_p W J =
     pmap the_cmd (alt W (map (pmap VCmd)
       [create_queue_p W, delete_queue_p W, maintain_p W, push_cmd_p W J, spawn_consume_p W,
        consume_cmd_p W, ack_cmd_p W J, fail_cmd_p W J, await_cmd_p W, assert_cmd_p W,
        check_cmd_p W J]))"

section \<open>Statements and scenarios\<close>

definition client_prefix_p :: "lib \<Rightarrow> nat parser" where
  "client_prefix_p W =
     pmap (\<lambda>v. case v of None \<Rightarrow> 1 | Some n \<Rightarrow> the_nat n) (opt W
       (pbind (try_map W (\<lambda>v. map_option VNat (parse_uint 32 (the_str v)))
                (pmap VStr (preceded (literal W ''#'') (digit1 W)))) (\<lambda>n.
        pbind (space1 W) (\<lambda>_. pret n))))"

definition statement_p :: "lib \<Rightarrow> serde \<Rightarrow> (nat \<times> command) parser" where
  "statement_p W J =
     pbind (client_prefix_p W) (\<lambda>client. pbind (command_p W J) (\<lambda>cmd. pret (client, cmd)))"

definition parse_line :: "lib \<Rightarrow> serde \<Rightarrow> nat \<Rightarrow> string \<Rightarrow> failure + (nat \<times> command)" where
  "parse_line W J line_no s =
     (case statement_p W J s of
        Inr (r, input) \<Rightarrow>
          (let rest = trim input in
           if rest \<noteq> [] then Inl (Err (err_parse line_no (''unexpected trailing input: '' @ rust_debug rest)))
           else Inr r)
      | Inl (Backtrack e) \<Rightarrow> Inl (Err (err_parse line_no (''syntax error: '' @ e)))
      | Inl Panic \<Rightarrow> Inl Panicked)"

fun is_comment :: "string \<Rightarrow> bool" where
  "is_comment [] = False"
| "is_comment [c] = (c = CHR ''#'')"
| "is_comment (c # d # s) = (c = CHR ''#'' \<and> \<not> is_digit d)"

definition parse_header :: "lib \<Rightarrow> nat \<Rightarrow> string \<Rightarrow> failure + string" where
  "parse_header W line_no s =
     (case header_p W s of
        Inr (n, input) \<Rightarrow>
          if trim input \<noteq> []
          then Inl (Err (err_parse line_no
                 (''unexpected input after scenario header: '' @ rust_debug (trim input))))
          else Inr n
      | Inl (Backtrack e) \<Rightarrow>
          Inl (Err (err_parse line_no (''expected `scenario <name>:` ('' @ e @ '')'')))
      | Inl Panic \<Rightarrow> Inl Panicked)"

text \<open>The loop over the numbered lines, with the name and the statements found so far.\<close>

fun scan_lines :: "lib \<Rightarrow> serde \<Rightarrow> nat \<Rightarrow> string option \<Rightarrow> statement list \<Rightarrow> string list \<Rightarrow>
    failure + (string option \<times> statement list)" where
  "scan_lines W J i name sts [] = Inr (name, sts)"
| "scan_lines W J i name sts (raw # raws) =
     (let line_no = i + 1; s = trim raw in
      if s = [] \<or> is_comment s then scan_lines W J (i + 1) name sts raws
      else case name of
        None \<Rightarrow> rbind (parse_header W line_no s) (\<lambda>n. scan_lines W J (i + 1) (Some n) sts raws)
      | Some _ \<Rightarrow>
          rbind (parse_line W J line_no s) (\<lambda>(client, cmd).
            scan_lines W J (i + 1) name
              (sts @ [\<lparr>st_line = line_no, st_client = client, st_command = cmd\<rparr>]) raws))"

definition parse_scenario :: "lib \<Rightarrow> serde \<Rightarrow> string \<Rightarrow> failure + scenario" where
  "parse_scenario W J src =
     rbind (scan_lines W J 0 None [] (lines_of src)) (\<lambda>(name, sts).
       case name of
         None \<Rightarrow> Inl (Err (err_parse 0 ''empty scenario file (missing `scenario` header)''))
       | Some n \<Rightarrow> Inr \<lparr>sc_name = n, sc_statements = sts\<rparr>)"

end
