(* ===== verification/Parser_Logic.thy ===== *)
theory Parser_Logic
  imports Dsl_Parser
begin

text \<open>
  A small program logic for the parsers of the test DSL. \<open>parses B P p\<close>: a match of \<open>p\<close> leaves a
  suffix of its input and a value that satisfies \<open>P\<close>, and \<open>p\<close> panics only on inputs that satisfy
  \<open>B\<close>. The rules hold for any library that keeps the laws of \<open>winnow_lib\<close>; the grammar is then
  taken through them function by function, which gives the type of every parsed command and the
  only text that can make the parser panic.
\<close>

definition parses :: "(string \<Rightarrow> bool) \<Rightarrow> ('a \<Rightarrow> bool) \<Rightarrow> 'a parser \<Rightarrow> bool" where
  "parses B P p \<longleftrightarrow>
     (\<forall>s. case outcome (p s) of No_Match \<Rightarrow> True | Panics \<Rightarrow> B s | Match v r \<Rightarrow> suffix r s \<and> P v)"

definition consumes :: "'a parser \<Rightarrow> bool" where
  "consumes p \<longleftrightarrow> (\<forall>s v r. outcome (p s) = Match v r \<longrightarrow> length r < length s)"

declare outcome_Match_iff [simp del]

named_theorems parses_intros \<open>rules of the parser logic\<close>

lemma parsesI:
  assumes "\<And>s. outcome (p s) = Panics \<Longrightarrow> B s"
    and "\<And>s v r. outcome (p s) = Match v r \<Longrightarrow> suffix r s"
    and "\<And>s v r. outcome (p s) = Match v r \<Longrightarrow> P v"
  shows "parses B P p"
  unfolding parses_def
proof
  fix s
  show "case outcome (p s) of No_Match \<Rightarrow> True | Panics \<Rightarrow> B s | Match v r \<Rightarrow> suffix r s \<and> P v"
    using assms by (cases "outcome (p s)") auto
qed

lemma parses_Match: "parses B P p \<Longrightarrow> outcome (p s) = Match v r \<Longrightarrow> suffix r s \<and> P v"
  unfolding parses_def by (drule spec [of _ s]) auto

lemma parses_Panics: "parses B P p \<Longrightarrow> outcome (p s) = Panics \<Longrightarrow> B s"
  unfolding parses_def by (drule spec [of _ s]) auto

lemma parses_weaken: "parses B Q p \<Longrightarrow> (\<And>v. Q v \<Longrightarrow> P v) \<Longrightarrow> parses B P p"
  by (rule parsesI) (auto dest: parses_Match parses_Panics)

lemma parses_pret [parses_intros]: "P v \<Longrightarrow> parses B P (pret v)"
  by (rule parsesI) (simp_all add: pret_def)

locale parser_logic = winnow_lib W
  for W :: "'v winnow" +
  fixes B :: "string \<Rightarrow> bool"
  assumes up: "suffix r s \<Longrightarrow> B r \<Longrightarrow> B s"
begin

lemma parses_pbind [parses_intros]:
  assumes p: "parses B Q p" and f: "\<And>v. Q v \<Longrightarrow> parses B P (f v)"
  shows "parses B P (pbind p f)"
proof (rule parsesI)
  fix s
  assume "outcome (pbind p f s) = Panics"
  then show "B s"
    by (cases "outcome (p s)") (auto dest: parses_Panics [OF p] parses_Match [OF p] parses_Panics [OF f] intro: up)
next
  fix s v r
  assume m: "outcome (pbind p f s) = Match v r"
  then obtain w t where w: "outcome (p s) = Match w t" and v: "outcome (f w t) = Match v r"
    by (cases "outcome (p s)") auto
  from parses_Match [OF p w] parses_Match [OF f v]
  show "suffix r s" "P v" by (auto intro: suffix_order.trans)
qed

lemma parses_pmap [parses_intros]:
  "parses B Q p \<Longrightarrow> (\<And>v. Q v \<Longrightarrow> P (g v)) \<Longrightarrow> parses B P (pmap g p)"
  by (auto simp: pmap_def intro!: parses_pbind parses_pret)

lemma parses_preceded [parses_intros]:
  "parses B Q p \<Longrightarrow> parses B P q \<Longrightarrow> parses B P (preceded p q)"
  by (auto simp: preceded_def intro: parses_pbind)

lemma parses_delimited [parses_intros]:
  "parses B Q p \<Longrightarrow> parses B P q \<Longrightarrow> parses B R r \<Longrightarrow> parses B P (delimited p q r)"
  by (auto simp: delimited_def intro!: parses_pbind parses_pret)

lemma parses_pseq [parses_intros]:
  "list_all (parses B (\<lambda>_. True)) ps \<Longrightarrow> parses B (\<lambda>_. True) (pseq ps)"
  by (induction ps) (auto intro!: parses_pbind parses_pret)

lemma span1_Match: "span1 m f s = Match v r \<Longrightarrow> s = v @ r \<and> list_all f v \<and> m \<le> length v"
  by (auto simp: span1_def list_all_iff split: if_splits dest: set_takeWhileD)

lemma span1_not_Panics: "span1 m f s \<noteq> Panics"
  by (simp add: span1_def)

lemma parses_take_while [parses_intros]:
  "parses B (\<lambda>v. m \<le> length v \<and> list_all f v) (take_while W m f)"
  by (rule parsesI) (auto simp: take_while span1_not_Panics suffix_def dest!: span1_Match)

lemma parses_space1 [parses_intros]: "parses B (\<lambda>_. True) (space1 W)"
  by (rule parsesI) (auto simp: space1 span1_not_Panics suffix_def dest!: span1_Match)

lemma consumes_space1: "consumes (space1 W)"
proof -
  have "length r < length s" if "outcome (space1 W s) = Match v r" for s v r
    using that span1_Match [of 1 is_blank s v r] by (auto simp: space1)
  then show ?thesis by (simp add: consumes_def)
qed

lemma parses_digit1 [parses_intros]: "parses B (\<lambda>v. list_all is_digit v) (digit1 W)"
  by (rule parsesI) (auto simp: digit1 span1_not_Panics suffix_def dest!: span1_Match)

lemma parses_literal [parses_intros]: "parses B (\<lambda>v. v = t) (literal W t)"
  by (rule parsesI) (auto simp: literal prefix_def suffix_def split: if_splits)

lemma parses_alt [parses_intros]:
  "list_all (parses B P) ps \<Longrightarrow> ps \<noteq> [] \<Longrightarrow> parses B P (alt W ps)"
proof (induction ps)
  case (Cons p ps)
  have p: "parses B P p" and ps: "ps \<noteq> [] \<Longrightarrow> parses B P (alt W ps)"
    using Cons by simp_all
  show ?case
    by (rule parsesI)
      (auto simp: alt split: outcome.splits if_splits dest: parses_Match [OF p] parses_Panics [OF p]
        parses_Match [OF ps] parses_Panics [OF ps])
qed simp

lemma parses_opt [parses_intros]:
  "parses B P p \<Longrightarrow> parses B (\<lambda>v. \<forall>w. v = Some w \<longrightarrow> P w) (opt W p)"
  by (rule parsesI) (auto simp: opt split: outcome.splits dest: parses_Match parses_Panics)

lemma parses_take_of [parses_intros]: "parses B P p \<Longrightarrow> parses B (\<lambda>_. True) (take_of W p)"
  by (rule parsesI) (auto simp: take_of elim!: obind.elims dest: parses_Match parses_Panics)

lemma parses_try_map [parses_intros]:
  "parses B Q p \<Longrightarrow> (\<And>v w. Q v \<Longrightarrow> g v = Some w \<Longrightarrow> P w) \<Longrightarrow> parses B P (try_map W g p)"
  by (rule parsesI)
    (auto simp: try_map elim!: obind.elims split: option.splits dest: parses_Match parses_Panics)

lemma consumes_preceded:
  assumes "consumes p" "parses B Q q"
  shows "consumes (preceded p q)"
proof -
  have "length r < length s" if m: "outcome (preceded p q s) = Match v r" for s v r
  proof -
    obtain w t where "outcome (p s) = Match w t" and q: "outcome (q t) = Match v r"
      using m by (cases "outcome (p s)") auto
    then have "length t < length s" using assms(1) by (auto simp: consumes_def)
    moreover have "length r \<le> length t"
      using parses_Match [OF assms(2) q] suffix_length_le by blast
    ultimately show ?thesis by simp
  qed
  then show ?thesis by (simp add: consumes_def)
qed

lemma parses_repeat [parses_intros]:
  assumes p: "parses B P p" and c: "consumes p"
  shows "parses B (\<lambda>vs. list_all P vs \<and> m \<le> length vs) (repeat W m p)"
proof -
  have less: "length r < length s" if "outcome (p s) = Match v r" for s v r
    using that c by (simp add: consumes_def)
  have "case outcome (repeat W m p s) of
      No_Match \<Rightarrow> True | Panics \<Rightarrow> B s | Match vs r \<Rightarrow> suffix r s \<and> list_all P vs \<and> m \<le> length vs" for s
  proof (induction "length s" arbitrary: s m rule: less_induct)
    case less
    note IH = less
    show ?case
    proof (cases "outcome (p s)")
      case (Match v r)
      have l: "length r < length s" using Match c by (simp add: consumes_def)
      have v: "suffix r s" "P v" using parses_Match [OF p Match] by simp_all
      from IH [OF l, of "m - 1"] show ?thesis
        using v Match c
        by (subst repeat) (auto simp: consumes_def elim: up intro: suffix_order.trans split: outcome.splits)
    next
      case Panics
      then show ?thesis using parses_Panics [OF p Panics] by (subst repeat) simp_all
    qed (subst repeat; simp)
  qed
  then show ?thesis by (simp add: parses_def)
qed

end

end
