(* ===== verification/Grammar_Sound.thy ===== *)
theory Grammar_Sound
  imports Parser_Logic
begin

text \<open>
  The grammar of src/dsltest/src/parser.rs through the parser logic: every parser function
  yields well-formed values, \<open>options.set\<close> never reaches its \<open>unreachable!\<close>, and the only panic
  left is the multiplication in \<open>duration\<close>, on a text with a number of minutes too large.
\<close>

section \<open>Well-formed commands\<close>

definition ident_ok :: "string \<Rightarrow> bool" where
  "ident_ok s \<longleftrightarrow> s \<noteq> [] \<and> list_all ident_char s"

definition opt_i64 :: "int option \<Rightarrow> bool" where
  "opt_i64 v = (case v of None \<Rightarrow> True | Some n \<Rightarrow> in_i64 n)"

lemma opt_i64_simps [simp]: "opt_i64 None" "opt_i64 (Some n) \<longleftrightarrow> in_i64 n"
  by (simp_all add: opt_i64_def)

definition queue_options_ok :: "queue_options \<Rightarrow> bool" where
  "queue_options_ok opts \<longleftrightarrow>
     opt_i64 (qo_retry_limit opts) \<and> opt_i64 (qo_retry_delay opts) \<and>
     opt_i64 (qo_expire_in_seconds opts) \<and> opt_i64 (qo_retention_seconds opts)"

definition send_options_ok :: "send_options \<Rightarrow> bool" where
  "send_options_ok opts \<longleftrightarrow>
     opt_i64 (so_priority opts) \<and> opt_i64 (so_start_after opts) \<and> opt_i64 (so_retry_limit opts) \<and>
     opt_i64 (so_retry_delay opts) \<and> opt_i64 (so_expire_in_seconds opts)"

definition state_names :: "string list" where
  "state_names = [''created'', ''retry'', ''active'', ''completed'', ''cancelled'', ''failed'']"

definition duration_ok :: "nat option \<Rightarrow> bool" where
  "duration_ok w = (case w of None \<Rightarrow> True | Some n \<Rightarrow> n < 2 ^ 64 * 1000)"

fun command_ok :: "command \<Rightarrow> bool" where
  "command_ok (CreateQueue name opts) = (ident_ok name \<and> queue_options_ok opts)"
| "command_ok (DeleteQueue name) = ident_ok name"
| "command_ok Maintain = True"
| "command_ok (Push queue data opts) = (ident_ok queue \<and> send_options_ok opts)"
| "command_ok (Consume queue var within) = (ident_ok queue \<and> ident_ok var \<and> duration_ok within)"
| "command_ok (SpawnConsume queue var within) = (ident_ok queue \<and> ident_ok var \<and> duration_ok within)"
| "command_ok (Await var) = ident_ok var"
| "command_ok (Ack var output) = ident_ok var"
| "command_ok (Fail var output) = ident_ok var"
| "command_ok (AssertQueueEmpty queue) = ident_ok queue"
| "command_ok (AssertQueueSize queue n) = (ident_ok queue \<and> in_i64 n)"
| "command_ok (CheckState var state) = (ident_ok var \<and> state \<in> set state_names)"
| "command_ok (CheckAck var within) = (ident_ok var \<and> duration_ok within)"
| "command_ok (CheckEmpty var) = ident_ok var"
| "command_ok (CheckData var expected) = ident_ok var"
| "command_ok (CheckGone var) = ident_ok var"
| "command_ok (AssertVarEq left right) = (ident_ok left \<and> ident_ok right)"
| "command_ok (AssertExactlyOneClaimed vars) = (vars \<noteq> [] \<and> list_all ident_ok vars)"

text \<open>A number of minutes that fits \<open>u64\<close> but not when read in seconds.\<close>

definition minutes_overflow :: "string \<Rightarrow> bool" where
  "minutes_overflow t \<longleftrightarrow>
     (let ds = takeWhile is_digit t; u = dropWhile is_digit t in
      ds \<noteq> [] \<and> dec_val ds < 2 ^ 64 \<and> 2 ^ 64 \<le> dec_val ds * 60 \<and> prefix ''m'' u \<and> \<not> prefix ''ms'' u)"

definition has_minutes_overflow :: "string \<Rightarrow> bool" where
  "has_minutes_overflow s \<longleftrightarrow> list_ex minutes_overflow (suffixes s)"

lemma has_minutes_overflow_up: "suffix r s \<Longrightarrow> has_minutes_overflow r \<Longrightarrow> has_minutes_overflow s"
  by (auto simp: has_minutes_overflow_def list_ex_iff intro: suffix_order.trans)

lemma has_minutes_overflow_here: "minutes_overflow s \<Longrightarrow> has_minutes_overflow s"
  by (auto simp: has_minutes_overflow_def list_ex_iff)

section \<open>Options and items\<close>

definition queue_keys :: "string list" where
  "queue_keys = [''retryLimit'', ''retryDelay'', ''expireInSeconds'', ''retentionSeconds'']"

definition send_keys :: "string list" where
  "send_keys = [''priority'', ''startAfter'', ''retryLimit'', ''retryDelay'', ''expireInSeconds'']"

lemma set_options_queue:
  assumes "list_all (\<lambda>(k, v). k \<in> set queue_keys \<and> in_i64 v) raw" "queue_options_ok opts"
  shows "\<exists>opts'. set_options queue_options_set raw opts = Some opts' \<and> queue_options_ok opts'"
  using assms
proof (induction raw arbitrary: opts)
  case (Cons kv raw)
  obtain k v where kv: "kv = (k, v)" by (cases kv)
  obtain opts' where "queue_options_set k v opts = Some opts'" "queue_options_ok opts'"
    using Cons.prems kv
    by (auto simp: queue_keys_def queue_options_set_def queue_options_ok_def opt_i64_def)
  then show ?case using Cons kv by simp
qed simp

fun push_item_ok :: "push_item \<Rightarrow> bool" where
  "push_item_ok (Item_Value v) = True"
| "push_item_ok (Item_Opt k v) = (k \<in> set send_keys \<and> in_i64 v)"

lemma push_items_total:
  assumes "list_all push_item_ok items" "send_options_ok opts"
  shows "\<exists>data' opts'. push_items items (data, opts) = Some (data', opts') \<and> send_options_ok opts'"
  using assms
proof (induction items arbitrary: data opts)
  case (Cons item items)
  show ?case
  proof (cases item)
    case (Item_Opt k v)
    obtain opts' where "send_options_set k v opts = Some opts'" "send_options_ok opts'"
      using Cons.prems Item_Opt
      by (auto simp: send_keys_def send_options_set_def send_options_ok_def opt_i64_def)
    then show ?thesis using Cons Item_Opt by simp
  qed (use Cons in simp)
qed simp

lemma options_default_ok: "queue_options_ok queue_options_default" "send_options_ok send_options_default"
  by (simp_all add: queue_options_ok_def queue_options_default_def send_options_ok_def
      send_options_default_def opt_i64_def)

lemma parse_i64_range: "parse_i64 s = Some z \<Longrightarrow> in_i64 z"
  by (auto simp: parse_i64_def Let_def split: list.splits if_splits)

lemma parse_uint_range: "parse_uint w s = Some n \<Longrightarrow> n < 2 ^ w"
  by (auto simp: parse_uint_def Let_def split: if_splits)

lemma parse_uint_digits:
  assumes "list_all is_digit s"
  shows "parse_uint w s = (if s \<noteq> [] \<and> dec_val s < 2 ^ w then Some (dec_val s) else None)"
proof -
  have "c \<noteq> CHR ''+''" if "s = c # d # r" for c d r
    using assms that by (auto simp: is_digit_def char_code_def)
  then show ?thesis using assms by (auto simp: parse_uint_def Let_def split: list.splits)
qed

section \<open>The grammar\<close>

locale grammar = winnow_lib W for W :: lib

sublocale grammar \<subseteq> logic: parser_logic W has_minutes_overflow
  by unfold_locales (rule has_minutes_overflow_up)

interpretation ref_grammar: grammar winnow_ref
  by unfold_locales

context grammar
begin

abbreviation yields :: "'a parser \<Rightarrow> ('a \<Rightarrow> bool) \<Rightarrow> bool" where
  "yields p P \<equiv> parses has_minutes_overflow P p"

lemma outcome_alt_lit:
  "ts \<noteq> [] \<Longrightarrow> outcome (alt_lit W ts s) =
     (case find (\<lambda>t. prefix t s) ts of None \<Rightarrow> No_Match | Some t \<Rightarrow> Match t (drop (length t) s))"
proof -
  assume "ts \<noteq> []"
  then have "outcome (alt W (map (\<lambda>t. pmap VStr (literal W t)) ts) s) =
     (case find (\<lambda>t. prefix t s) ts of None \<Rightarrow> No_Match | Some t \<Rightarrow> Match (VStr t) (drop (length t) s))"
  proof (induction ts)
    case (Cons t ts)
    then show ?case by (cases ts) (simp_all add: alt literal)
  qed simp
  then show ?thesis by (simp add: alt_lit_def split: option.split)
qed

lemma yields_alt_lit: "ts \<noteq> [] \<Longrightarrow> yields (alt_lit W ts) (\<lambda>v. v \<in> set ts)"
proof -
  assume "ts \<noteq> []"
  then have "yields (alt W (map (\<lambda>t. pmap VStr (literal W t)) ts)) (\<lambda>v. the_str v \<in> set ts)"
    by (intro logic.parses_alt) (auto simp: list_all_iff intro!: logic.parses_pmap [OF logic.parses_literal])
  then show ?thesis
    unfolding alt_lit_def by (rule logic.parses_pmap)
qed

lemma yields_literal: "yields (literal W t) (\<lambda>_. True)"
  by (rule parses_weaken [OF logic.parses_literal]) simp

lemma yields_words:
  "list_all (\<lambda>p. p = space1 W \<or> (\<exists>t. p = literal W t) \<or> (\<exists>ts. ts \<noteq> [] \<and> p = alt_lit W ts)) ps \<Longrightarrow>
   yields (pseq ps) (\<lambda>_. True)"
  by (rule logic.parses_pseq)
    (auto simp: list_all_iff intro: yields_literal logic.parses_space1 parses_weaken [OF yields_alt_lit])

lemma yields_ident: "yields (ident_p W) ident_ok"
  unfolding ident_p_def
  by (rule parses_weaken [OF logic.parses_take_while]) (auto simp: ident_ok_def)

lemma yields_state: "yields (state_lit_p W) (\<lambda>v. v \<in> set state_names)"
  unfolding state_lit_p_def state_names_def by (rule yields_alt_lit) simp

lemma yields_any: "yields p Q \<Longrightarrow> yields p (\<lambda>_. True)"
  by (erule parses_weaken) simp

lemma yields_digit1_VStr: "yields (pmap VStr (digit1 W)) (\<lambda>v. list_all is_digit (the_str v))"
  by (rule logic.parses_pmap [OF logic.parses_digit1]) simp

lemma yields_integer: "yields (integer_p W) in_i64"
proof -
  have sign: "yields (opt W (pmap VStr (literal W ''-''))) (\<lambda>_. True)"
    by (rule yields_any [OF logic.parses_opt [OF logic.parses_pmap [OF yields_literal, where P = "\<lambda>_. True"]]]) simp
  have num: "yields (pbind (opt W (pmap VStr (literal W ''-''))) (\<lambda>_. pmap VStr (digit1 W))) (\<lambda>_. True)"
    by (rule logic.parses_pbind [OF sign yields_any [OF yields_digit1_VStr]])
  have tx: "yields (pmap VStr (take_of W
      (pbind (opt W (pmap VStr (literal W ''-''))) (\<lambda>_. pmap VStr (digit1 W))))) (\<lambda>_. True)"
    by (rule logic.parses_pmap [OF logic.parses_take_of [OF num]]) simp
  show ?thesis
    unfolding integer_p_def
    by (rule logic.parses_pmap [OF logic.parses_try_map [OF tx, where P = "\<lambda>v. in_i64 (the_int v)"]])
      (auto dest: parse_i64_range)
qed

lemma yields_key:
  "ts \<noteq> [] \<Longrightarrow>
   yields (pbind (alt_lit W ts) (\<lambda>key. pbind (literal W ''='') (\<lambda>_. pbind (integer_p W) (\<lambda>v. pret (key, v)))))
     (\<lambda>(k, v). k \<in> set ts \<and> in_i64 v)"
  by (rule logic.parses_pbind [OF yields_alt_lit], simp, rule logic.parses_pbind [OF yields_literal],
      rule logic.parses_pbind [OF yields_integer], rule parses_pret, simp)

lemma yields_queue_opt: "yields (queue_opt_p W) (\<lambda>(k, v). k \<in> set queue_keys \<and> in_i64 v)"
  unfolding queue_opt_p_def queue_keys_def by (rule yields_key) simp

lemma yields_send_opt: "yields (send_opt_p W) (\<lambda>(k, v). k \<in> set send_keys \<and> in_i64 v)"
  unfolding send_opt_p_def send_keys_def by (rule yields_key) simp

lemma yields_number:
  "yields (try_map W (\<lambda>v. map_option VNat (parse_uint w (the_str v))) (pmap VStr (digit1 W)))
     (\<lambda>v. the_nat v < 2 ^ w)"
  by (rule logic.parses_try_map [OF yields_any [OF yields_digit1_VStr]]) (auto dest: parse_uint_range)

lemma outcome_duration:
  "outcome (duration_p W s) =
     (let ds = takeWhile is_digit s; u = dropWhile is_digit s; n = dec_val ds in
      if ds = [] \<or> \<not> n < 2 ^ 64 then No_Match
      else if prefix ''ms'' u then Match n (drop 2 u)
      else if prefix ''s'' u then Match (n * 1000) (drop 1 u)
      else if prefix ''m'' u then (if n * 60 < 2 ^ 64 then Match (n * 60 * 1000) (drop 1 u) else Panics)
      else No_Match)"
proof -
  have ds: "list_all is_digit (takeWhile is_digit s)"
    by (simp add: list_all_iff) (metis set_takeWhileD)
  show ?thesis
  proof (cases "takeWhile is_digit s = [] \<or> \<not> dec_val (takeWhile is_digit s) < 2 ^ 64")
    case True
    then show ?thesis
      using ds by (auto simp: duration_p_def laws span1_def parse_uint_digits Let_def)
  next
    case False
    then have "Suc 0 \<le> length (takeWhile is_digit s)" by (cases "takeWhile is_digit s") simp_all
    then show ?thesis
      using ds False
      by (auto simp: duration_p_def alt_lit_def laws span1_def parse_uint_digits Let_def numeral_2_eq_2)
  qed
qed

lemma suffix_dropWhile_drop: "suffix (drop k (dropWhile f s)) s"
  by (meson suffix_drop suffix_dropWhile suffix_order.trans)

lemma yields_duration: "yields (duration_p W) (\<lambda>n. n < 2 ^ 64 * 1000)"
proof (rule parsesI)
  fix s v r
  show "has_minutes_overflow s" if "outcome (duration_p W s) = Panics"
    using that by (intro has_minutes_overflow_here)
      (auto simp: minutes_overflow_def outcome_duration Let_def split: if_splits)
  show "suffix r s" if "outcome (duration_p W s) = Match v r"
    using that by (auto simp: outcome_duration Let_def suffix_dropWhile_drop split: if_splits)
  show "v < 2 ^ 64 * 1000" if "outcome (duration_p W s) = Match v r"
    using that by (auto simp: outcome_duration Let_def split: if_splits)
qed

lemma yields_within: "yields (within_p W) duration_ok"
proof -
  have d: "yields (preceded (pseq [space1 W, literal W ''within'', space1 W]) (pmap VNat (duration_p W)))
      (\<lambda>v. the_nat v < 2 ^ 64 * 1000)"
    by (rule logic.parses_preceded [OF yields_words logic.parses_pmap [OF yields_duration]]) auto
  show ?thesis
    unfolding within_p_def
    by (rule logic.parses_pmap [OF logic.parses_opt [OF d]]) (auto simp: duration_ok_def split: option.split)
qed

lemma yields_json: "yields (json_value_p W J) (\<lambda>_. True)"
proof -
  have "yields rest_of_line_p (\<lambda>_. True)"
    by (rule parsesI) (simp_all add: rest_of_line_p_def)
  then have "yields (pmap VStr rest_of_line_p) (\<lambda>_. True)"
    by (rule logic.parses_pmap) simp
  then have "yields (try_map W (\<lambda>v. map_option VJson (J (trim (the_str v)))) (pmap VStr rest_of_line_p)) (\<lambda>_. True)"
    by (rule logic.parses_try_map) simp
  then show ?thesis
    unfolding json_value_p_def by (rule logic.parses_pmap) simp
qed

lemma yields_output: "yields (output_p W J) (\<lambda>_. True)"
proof -
  have "yields (preceded (pseq [space1 W, literal W ''output'', space1 W]) (pmap VJson (json_value_p W J)))
      (\<lambda>_. True)"
    by (rule logic.parses_preceded [OF yields_words logic.parses_pmap [OF yields_json]]) auto
  then show ?thesis
    unfolding output_p_def by (intro logic.parses_pmap [OF logic.parses_opt]) simp_all
qed

lemma yields_keyword:
  assumes "list_all (\<lambda>p. p = space1 W \<or> (\<exists>t. p = literal W t) \<or> (\<exists>ts. ts \<noteq> [] \<and> p = alt_lit W ts)) ps"
    and "yields p P"
  shows "yields (pbind (pseq ps) (\<lambda>_. p)) P"
  by (rule logic.parses_pbind [OF yields_words [OF assms(1)] assms(2)])

lemma yields_create_queue: "yields (create_queue_p W) command_ok"
proof -
  have o: "yields (pmap VOpt (queue_opt_p W)) (\<lambda>v. case the_opt v of (k, n) \<Rightarrow> k \<in> set queue_keys \<and> in_i64 n)"
    by (rule logic.parses_pmap [OF yields_queue_opt]) auto
  have raw: "yields (repeat W 0 (preceded (space1 W) (pmap VOpt (queue_opt_p W))))
      (\<lambda>vs. list_all (\<lambda>(k, n). k \<in> set queue_keys \<and> in_i64 n) (map the_opt vs))"
    by (rule parses_weaken [OF logic.parses_repeat [OF logic.parses_preceded [OF logic.parses_space1 o]
          logic.consumes_preceded [OF logic.consumes_space1 o]]])
      (simp add: list_all_iff split_beta)
  have set: "yields (case set_options queue_options_set (map the_opt vs) queue_options_default of
      None \<Rightarrow> ppanic | Some opts \<Rightarrow> pret (CreateQueue name opts)) command_ok"
    if "list_all (\<lambda>(k, n). k \<in> set queue_keys \<and> in_i64 n) (map the_opt vs)" "ident_ok name" for vs name
    using set_options_queue [OF that(1) options_default_ok(1)] that(2) by (auto intro!: parses_pret)
  show ?thesis
    unfolding create_queue_p_def
    by (rule yields_keyword [OF _ logic.parses_pbind [OF yields_ident logic.parses_pbind [OF raw set]]])
      auto
qed

lemma push_item_spec:
  "yields (push_item_p W J) (\<lambda>v. push_item_ok (the_item v))" "consumes (push_item_p W J)"
proof -
  have quoted: "yields (quoted_p W) (\<lambda>_. True)"
    unfolding quoted_p_def
    by (rule logic.parses_delimited [OF yields_literal yields_any [OF logic.parses_take_while] yields_literal])
  have message: "yields (message_clause_p W) (\<lambda>_. True)"
    unfolding message_clause_p_def
    by (rule yields_keyword [OF _ logic.parses_pmap [OF quoted]]) auto
  have data: "yields (data_clause_p W J) (\<lambda>_. True)"
    unfolding data_clause_p_def by (rule yields_keyword [OF _ yields_json]) auto
  have item: "yields (alt W
      [pmap (VItem \<circ> Item_Value) (message_clause_p W), pmap (VItem \<circ> Item_Value) (data_clause_p W J),
       pmap (\<lambda>(k, v). VItem (Item_Opt k v)) (send_opt_p W)]) (\<lambda>v. push_item_ok (the_item v))"
    by (rule logic.parses_alt)
      (auto intro: logic.parses_pmap [OF message] logic.parses_pmap [OF data]
        logic.parses_pmap [OF yields_send_opt])
  show "yields (push_item_p W J) (\<lambda>v. push_item_ok (the_item v))" "consumes (push_item_p W J)"
    unfolding push_item_p_def
    by (rule logic.parses_preceded [OF logic.parses_space1 item])
      (rule logic.consumes_preceded [OF logic.consumes_space1 item])
qed

lemma yields_push: "yields (push_cmd_p W J) command_ok"
proof -
  have items: "yields (repeat W 0 (push_item_p W J)) (\<lambda>vs. list_all push_item_ok (map the_item vs))"
    by (rule parses_weaken [OF logic.parses_repeat [OF push_item_spec]]) (simp add: list_all_iff)
  have set: "yields (case push_items (map the_item vs) (None, send_options_default) of
      None \<Rightarrow> ppanic
    | Some (data, opts) \<Rightarrow> pret (Push queue (case data of None \<Rightarrow> JObj [] | Some v \<Rightarrow> v) opts)) command_ok"
    if "list_all push_item_ok (map the_item vs)" "ident_ok queue" for vs queue
    using push_items_total [OF that(1) options_default_ok(2), of None] that(2) by (auto intro!: parses_pret)
  show ?thesis
    unfolding push_cmd_p_def
    by (rule yields_keyword [OF _ logic.parses_pbind [OF yields_ident logic.parses_pbind [OF items set]]])
      auto
qed

lemma yields_simple:
  "yields (delete_queue_p W) command_ok"
  "yields (maintain_p W) command_ok"
  "yields (await_cmd_p W) command_ok"
  "yields (ack_cmd_p W J) command_ok"
  "yields (fail_cmd_p W J) command_ok"
  "yields (assert_var_eq_p W) command_ok"
  "yields (consume_cmd_p W) command_ok"
  "yields (spawn_consume_p W) command_ok"
  unfolding delete_queue_p_def maintain_p_def await_cmd_p_def ack_cmd_p_def fail_cmd_p_def
    assert_var_eq_p_def consume_cmd_p_def spawn_consume_p_def
  by (auto simp del: pseq.simps intro!: yields_keyword logic.parses_pbind [OF yields_ident] logic.parses_pbind [OF yields_literal]
      logic.parses_pbind [OF yields_output] logic.parses_pbind [OF yields_within] parses_pret)

lemma yields_assert_queue: "yields (assert_queue_p W) command_ok"
proof -
  have n: "yields (pmap (\<lambda>n. VSize (Some n)) (pbind (pseq [literal W ''size'', space1 W]) (\<lambda>_. integer_p W)))
      (\<lambda>v. opt_i64 (the_size v))"
    by (rule logic.parses_pmap [OF yields_keyword [OF _ yields_integer]]) (auto simp: opt_i64_def)
  have size: "yields (alt W [pmap (\<lambda>_. VSize None) (literal W ''empty''),
      pmap (\<lambda>n. VSize (Some n)) (pbind (pseq [literal W ''size'', space1 W]) (\<lambda>_. integer_p W))])
      (\<lambda>v. opt_i64 (the_size v))"
    by (rule logic.parses_alt)
      (auto simp del: pseq.simps intro!: n logic.parses_pmap [OF yields_literal])
  show ?thesis
    unfolding assert_queue_p_def
    by (rule yields_keyword [OF _ logic.parses_pbind [OF yields_ident
          logic.parses_pbind [OF logic.parses_space1 logic.parses_pbind [OF size]]]])
      (auto intro!: parses_pret simp: opt_i64_def split: option.split)
qed

lemma yields_exactly_one: "yields (assert_exactly_one_p W) command_ok"
proof -
  have v: "yields (pmap VStr (ident_p W)) (\<lambda>v. ident_ok (the_str v))"
    by (rule logic.parses_pmap [OF yields_ident]) simp
  have vs: "yields (repeat W 1 (preceded (space1 W) (pmap VStr (ident_p W))))
      (\<lambda>vs. vs \<noteq> [] \<and> list_all ident_ok (map the_str vs))"
    by (rule parses_weaken [OF logic.parses_repeat [OF logic.parses_preceded [OF logic.parses_space1 v]
          logic.consumes_preceded [OF logic.consumes_space1 v]]])
      (auto simp: list_all_iff)
  show ?thesis
    unfolding assert_exactly_one_p_def
    by (rule logic.parses_pbind [OF yields_literal logic.parses_pbind [OF vs]]) (auto intro!: parses_pret)
qed

lemma yields_assert: "yields (assert_cmd_p W) command_ok"
proof -
  have "yields (alt W (map (pmap VCmd) [assert_queue_p W, assert_exactly_one_p W, assert_var_eq_p W]))
      (\<lambda>v. command_ok (the_cmd v))"
    by (rule logic.parses_alt)
      (auto intro: logic.parses_pmap [OF yields_assert_queue] logic.parses_pmap [OF yields_exactly_one]
        logic.parses_pmap [OF yields_simple(6)])
  then show ?thesis
    unfolding assert_cmd_p_def by (intro yields_keyword logic.parses_pmap) auto
qed

lemma yields_check: "yields (check_cmd_p W J) command_ok"
proof -
  let ?ok = "\<lambda>k. \<forall>var. ident_ok var \<longrightarrow> command_ok (check_of_kind var k)"
  have state: "yields (pmap Kind_State (pbind (pseq [literal W ''state'', space1 W]) (\<lambda>_. state_lit_p W))) ?ok"
    by (rule logic.parses_pmap [OF yields_keyword [OF _ yields_state]]) auto
  have ack: "yields (pmap Kind_Ack (pbind (literal W ''ack'') (\<lambda>_. within_p W))) ?ok"
    by (rule logic.parses_pmap [OF logic.parses_pbind [OF yields_literal yields_within]]) auto
  have data: "yields (pmap Kind_Data (pbind (pseq [literal W ''data'', space1 W]) (\<lambda>_. json_value_p W J))) ?ok"
    by (rule logic.parses_pmap [OF yields_keyword [OF _ yields_json]]) auto
  have word: "yields (pmap (\<lambda>_. k) (literal W t)) ?ok" if "?ok k" for k t
    by (rule logic.parses_pmap [OF yields_literal]) (rule that)
  have kind: "yields (check_kind_p W J) ?ok"
    unfolding check_kind_p_def
    by (rule logic.parses_pmap [OF logic.parses_alt, where Q = "\<lambda>v. ?ok (the_kind v)"])
      (auto simp del: pseq.simps intro!: logic.parses_pmap [OF state] logic.parses_pmap [OF ack]
        logic.parses_pmap [OF data] logic.parses_pmap [OF word])
  show ?thesis
    unfolding check_cmd_p_def
    by (rule yields_keyword [OF _ logic.parses_pbind [OF yields_ident
          logic.parses_pbind [OF logic.parses_space1 logic.parses_pbind [OF kind]]]])
      (auto intro!: parses_pret)
qed

lemma yields_command: "yields (command_p W J) command_ok"
proof -
  have "yields (pmap VCmd p) (\<lambda>v. command_ok (the_cmd v))" if "yields p command_ok" for p
    by (rule logic.parses_pmap [OF that]) simp
  note cmd = this
  have "yields (alt W (map (pmap VCmd)
       [create_queue_p W, delete_queue_p W, maintain_p W, push_cmd_p W J, spawn_consume_p W,
        consume_cmd_p W, ack_cmd_p W J, fail_cmd_p W J, await_cmd_p W, assert_cmd_p W,
        check_cmd_p W J])) (\<lambda>v. command_ok (the_cmd v))"
    by (rule logic.parses_alt)
      (simp_all add: cmd yields_create_queue yields_push yields_simple yields_assert yields_check)
  then show ?thesis
    unfolding command_p_def by (rule logic.parses_pmap)
qed

lemma yields_client: "yields (client_prefix_p W) (\<lambda>n. n < 2 ^ 32)"
proof -
  have d: "yields (pmap VStr (preceded (literal W ''#'') (digit1 W))) (\<lambda>_. True)"
    by (rule logic.parses_pmap [OF logic.parses_preceded [OF yields_literal logic.parses_digit1]]) simp
  have n: "yields (try_map W (\<lambda>v. map_option VNat (parse_uint 32 (the_str v)))
      (pmap VStr (preceded (literal W ''#'') (digit1 W)))) (\<lambda>v. the_nat v < 2 ^ 32)"
    by (rule logic.parses_try_map [OF d]) (auto dest: parse_uint_range)
  show ?thesis
    unfolding client_prefix_p_def
    by (rule logic.parses_pmap [OF logic.parses_opt [OF logic.parses_pbind [OF n
          logic.parses_pbind [OF logic.parses_space1 parses_pret]]]])
      (auto split: option.split)
qed

lemma yields_statement: "yields (statement_p W J) (\<lambda>(n, cmd). n < 2 ^ 32 \<and> command_ok cmd)"
  unfolding statement_p_def
  by (rule logic.parses_pbind [OF yields_client logic.parses_pbind [OF yields_command parses_pret]]) simp

lemma parse_line_ok:
  "parse_line W J line s = Inr (n, cmd) \<Longrightarrow> n < 2 ^ 32 \<and> command_ok cmd"
  using parses_Match [OF yields_statement, of J s]
  by (auto simp: parse_line_def Let_def outcome_Match_iff split: sum.splits perr.splits prod.splits if_splits)

lemma parse_line_panic: "parse_line W J line s = Inl Panicked \<Longrightarrow> has_minutes_overflow s"
  using parses_Panics [OF yields_statement, of J s]
  by (auto simp: parse_line_def Let_def outcome_def split: sum.splits perr.splits prod.splits if_splits)

end

end
