(* ===== verification/Grammar_Print.thy ===== *)
theory Grammar_Print
  imports Grammar_Sound
begin

text \<open>
  A printer for scenarios and the proof that src/dsltest/src/parser.rs reads back what it prints.
  \<open>P\<close> prints a JSON value on one line; \<open>json_ok J P v\<close> says that \<open>serde_json::from_str\<close> reads
  that text as \<open>v\<close>. Durations are printed in milliseconds, and every statement with its client.
\<close>

section \<open>The printer\<close>

definition show_opts :: "(string \<times> int) list \<Rightarrow> string" where
  "show_opts kvs = concat (map (\<lambda>(k, v). '' '' @ k @ ''='' @ show_int v) kvs)"

definition pair_of :: "string \<Rightarrow> int option \<Rightarrow> (string \<times> int) list" where
  "pair_of k v = (case v of None \<Rightarrow> [] | Some n \<Rightarrow> [(k, n)])"

definition queue_pairs :: "queue_options \<Rightarrow> (string \<times> int) list" where
  "queue_pairs opts =
     pair_of ''retryLimit'' (qo_retry_limit opts) @ pair_of ''retryDelay'' (qo_retry_delay opts) @
     pair_of ''expireInSeconds'' (qo_expire_in_seconds opts) @
     pair_of ''retentionSeconds'' (qo_retention_seconds opts)"

definition send_pairs :: "send_options \<Rightarrow> (string \<times> int) list" where
  "send_pairs opts =
     pair_of ''priority'' (so_priority opts) @ pair_of ''startAfter'' (so_start_after opts) @
     pair_of ''retryLimit'' (so_retry_limit opts) @ pair_of ''retryDelay'' (so_retry_delay opts) @
     pair_of ''expireInSeconds'' (so_expire_in_seconds opts)"

definition show_within :: "nat option \<Rightarrow> string" where
  "show_within w = (case w of None \<Rightarrow> '''' | Some n \<Rightarrow> '' within '' @ show_nat n @ ''ms'')"

definition show_output :: "(json \<Rightarrow> string) \<Rightarrow> json option \<Rightarrow> string" where
  "show_output P v = (case v of None \<Rightarrow> '''' | Some j \<Rightarrow> '' output '' @ P j)"

fun show_command :: "(json \<Rightarrow> string) \<Rightarrow> command \<Rightarrow> string" where
  "show_command P (CreateQueue name opts) = ''create queue '' @ name @ show_opts (queue_pairs opts)"
| "show_command P (DeleteQueue name) = ''delete queue '' @ name"
| "show_command P Maintain = ''maintain''"
| "show_command P (Push queue data opts) =
     ''push '' @ queue @ show_opts (send_pairs opts) @ '' data '' @ P data"
| "show_command P (Consume queue var within) =
     ''consume '' @ queue @ '' -> '' @ var @ show_within within"
| "show_command P (SpawnConsume queue var within) =
     ''spawn consume '' @ queue @ '' -> '' @ var @ show_within within"
| "show_command P (Await var) = ''await '' @ var"
| "show_command P (Ack var output) = ''ack '' @ var @ show_output P output"
| "show_command P (Fail var output) = ''fail '' @ var @ show_output P output"
| "show_command P (AssertQueueEmpty queue) = ''assert queue '' @ queue @ '' empty''"
| "show_command P (AssertQueueSize queue n) = ''assert queue '' @ queue @ '' size '' @ show_int n"
| "show_command P (CheckState var state) = ''check '' @ var @ '' state '' @ state"
| "show_command P (CheckAck var within) = ''check '' @ var @ '' ack'' @ show_within within"
| "show_command P (CheckEmpty var) = ''check '' @ var @ '' empty''"
| "show_command P (CheckData var expected) = ''check '' @ var @ '' data '' @ P expected"
| "show_command P (CheckGone var) = ''check '' @ var @ '' gone''"
| "show_command P (AssertVarEq left right) = ''assert '' @ left @ '' == '' @ right"
| "show_command P (AssertExactlyOneClaimed vars) =
     ''assert exactly_one_claimed'' @ concat (map (\<lambda>v. '' '' @ v) vars)"

definition show_statement :: "(json \<Rightarrow> string) \<Rightarrow> nat \<Rightarrow> command \<Rightarrow> string" where
  "show_statement P client cmd = ''#'' @ show_nat client @ '' '' @ show_command P cmd"

definition show_scenario :: "(json \<Rightarrow> string) \<Rightarrow> scenario \<Rightarrow> string" where
  "show_scenario P sc =
     ''scenario '' @ sc_name sc @ '':'' @ [CHR 0x0A] @
     concat (map (\<lambda>st. show_statement P (st_client st) (st_command st) @ [CHR 0x0A]) (sc_statements sc))"

section \<open>What can be printed\<close>

definition json_ok :: "serde \<Rightarrow> (json \<Rightarrow> string) \<Rightarrow> json \<Rightarrow> bool" where
  "json_ok J P v \<longleftrightarrow>
     J (P v) = Some v \<and> P v \<noteq> [] \<and> trim (P v) = P v \<and> list_all (\<lambda>c. c \<noteq> CHR 0x0A) (P v)"

definition millis_ok :: "nat option \<Rightarrow> bool" where
  "millis_ok w = (case w of None \<Rightarrow> True | Some n \<Rightarrow> n < 2 ^ 64)"

fun printable :: "serde \<Rightarrow> (json \<Rightarrow> string) \<Rightarrow> command \<Rightarrow> bool" where
  "printable J P (Push queue data opts) = json_ok J P data"
| "printable J P (Consume queue var within) = millis_ok within"
| "printable J P (SpawnConsume queue var within) = millis_ok within"
| "printable J P (Ack var output) = (case output of None \<Rightarrow> True | Some v \<Rightarrow> json_ok J P v)"
| "printable J P (Fail var output) = (case output of None \<Rightarrow> True | Some v \<Rightarrow> json_ok J P v)"
| "printable J P (CheckAck var within) = millis_ok within"
| "printable J P (CheckData var expected) = json_ok J P expected"
| "printable J P _ = True"

section \<open>Texts that stop a token\<close>

definition stops :: "(char \<Rightarrow> bool) \<Rightarrow> string \<Rightarrow> bool" where
  "stops f s = (case s of [] \<Rightarrow> True | c # _ \<Rightarrow> \<not> f c)"

lemma stops_simps [simp]: "stops f []" "stops f (c # s) \<longleftrightarrow> \<not> f c"
  by (simp_all add: stops_def)

lemma span1_append:
  assumes "list_all f xs" "m \<le> length xs" "stops f rest"
  shows "span1 m f (xs @ rest) = Match xs rest"
proof -
  have all: "\<And>c. c \<in> set xs \<Longrightarrow> f c" using assms(1) by (simp add: list_all_iff)
  have "takeWhile f rest = []" "dropWhile f rest = rest" using assms(3) by (cases rest; simp)+
  then have "takeWhile f (xs @ rest) = xs" "dropWhile f (xs @ rest) = rest"
    using all by (simp_all add: takeWhile_append2 dropWhile_append2)
  then show ?thesis using assms(2) by (simp add: span1_def)
qed

lemma span1_none: "stops f s \<Longrightarrow> 0 < m \<Longrightarrow> span1 m f s = No_Match"
  by (cases s) (simp_all add: span1_def)

lemma is_blank_simps [simp]: "is_blank (CHR '' '')" "\<not> is_blank (CHR ''-'')" "\<not> is_blank (CHR ''='')"
  by (simp_all add: is_blank_def)

lemma ident_char_codes:
  "ident_char c \<Longrightarrow> char_code c = 45 \<or> char_code c = 95 \<or> 48 \<le> char_code c \<and> char_code c \<le> 57 \<or>
     65 \<le> char_code c \<and> char_code c \<le> 90 \<or> 97 \<le> char_code c \<and> char_code c \<le> 122 \<or> 170 \<le> char_code c"
  by (auto simp: ident_char_def is_alphanumeric_def Let_def char_code_def)

lemma not_ident_char [simp]:
  "\<not> ident_char (CHR '' '')" "\<not> ident_char (CHR ''='')" "\<not> ident_char (CHR '':'')" "\<not> ident_char (CHR 0x09)"
  by (simp_all add: ident_char_def is_alphanumeric_def Let_def char_code_def)

lemma ident_char_not_blank: "ident_char c \<Longrightarrow> \<not> is_blank c"
  by (auto simp: is_blank_def)

lemma not_digit [simp]: "\<not> is_digit (CHR '' '')" "\<not> is_digit (CHR ''m'')" "\<not> is_digit (CHR ''-'')"
  by (simp_all add: is_digit_def char_code_def)

lemma digit_ident: "is_digit c \<Longrightarrow> ident_char c"
  by (simp add: is_digit_def ident_char_def is_alphanumeric_def Let_def)

lemma show_nat_ident: "ident_ok (show_nat n)"
  using show_nat_digits [of n] by (auto simp: ident_ok_def list_all_iff digit_ident)

lemma ident_stops_blank: "ident_ok s \<Longrightarrow> stops is_blank (s @ t)"
  by (cases s) (simp_all add: ident_ok_def ident_char_not_blank)

lemma parse_uint_show: "n < 2 ^ w \<Longrightarrow> parse_uint w (show_nat n) = Some n"
  by (simp add: parse_uint_digits show_nat_digits)

lemma parse_i64_show:
  assumes "in_i64 z"
  shows "parse_i64 (show_int z) = Some z"
proof (cases "z < 0")
  case True
  then show ?thesis
    using assms show_nat_digits [of "nat (- z)"] by (simp add: show_int_def parse_i64_def Let_def)
next
  case False
  obtain c s where cs: "show_nat (nat z) = c # s"
    by (cases "show_nat (nat z)") simp_all
  have d: "list_all is_digit (c # s)" using show_nat_digits [of "nat z"] cs by simp
  have "c \<noteq> CHR ''-''" "c \<noteq> CHR ''+''"
    using d by (auto simp: is_digit_def char_code_def)
  then have "parse_i64 (c # s) = Some (int (dec_val (c # s)))"
    using d assms False dec_val_show_nat [of "nat z"] cs by (simp add: parse_i64_def Let_def)
  then show ?thesis using False dec_val_show_nat [of "nat z"] cs by (simp add: show_int_def)
qed

lemma show_int_stops: "stops is_blank (show_int z @ t)"
  using ident_stops_blank [OF show_nat_ident] by (simp add: show_int_def)

section \<open>The grammar on printed text\<close>

lemma key_chars:
  "k \<in> set queue_keys \<Longrightarrow> stops is_blank (k @ s)"
  "k \<in> set send_keys \<Longrightarrow> stops is_blank (k @ s)"
  by (auto simp: queue_keys_def send_keys_def is_blank_def)

lemma show_opts_simps [simp]:
  "show_opts [] = []"
  "show_opts ((k, v) # kvs) = '' '' @ k @ ''='' @ show_int v @ show_opts kvs"
  "show_opts (kvs @ kvs') = show_opts kvs @ show_opts kvs'"
  by (simp_all add: show_opts_def)

lemma blank_append [simp]: "(@) '' '' = (#) (CHR '' '')"
  by (rule ext) simp

lemma key_find:
  "k \<in> set queue_keys \<Longrightarrow> find (\<lambda>t. prefix t (k @ ''='' @ u)) queue_keys = Some k"
  "k \<in> set send_keys \<Longrightarrow> find (\<lambda>t. prefix t (k @ ''='' @ u)) send_keys = Some k"
  unfolding queue_keys_def send_keys_def list.set insert_iff empty_iff
  by (elim disjE FalseE; simp)+

context grammar
begin

lemma lit_append [simp]: "outcome (literal W t (t @ s)) = Match t s"
  by (simp add: literal)

lemma blank_stops: "stops is_blank s \<Longrightarrow> outcome (space1 W (CHR '' '' # s)) = Match '' '' s"
  using span1_append [of is_blank "'' ''" 1 s] by (simp add: space1)

lemma blank_none [simp]: "stops is_blank s \<Longrightarrow> outcome (space1 W s) = No_Match"
  by (simp add: space1 span1_none)

lemma ident_append:
  "ident_ok x \<Longrightarrow> stops ident_char s \<Longrightarrow> outcome (ident_p W (x @ s)) = Match x s"
  by (auto simp: ident_p_def take_while ident_ok_def Suc_le_eq intro: span1_append)

lemma ident_end: "ident_ok x \<Longrightarrow> outcome (ident_p W x) = Match x []"
  using ident_append [of x "[]"] by simp

lemma digits_append:
  "stops is_digit s \<Longrightarrow> outcome (digit1 W (show_nat n @ s)) = Match (show_nat n) s"
  by (auto simp: digit1 show_nat_digits Suc_le_eq intro: span1_append)

lemma integer_append:
  assumes "in_i64 z" "stops is_digit s"
  shows "outcome (integer_p W (show_int z @ s)) = Match z s"
proof -
  have "\<not> prefix ''-'' (show_nat n @ s)" for n
    using show_nat_digits [of n] by (cases "show_nat n") auto
  then have "outcome (take_of W (pbind (opt W (pmap VStr (literal W ''-''))) (\<lambda>_. pmap VStr (digit1 W)))
      (show_int z @ s)) = Match (show_int z) s"
    using digits_append [OF assms(2)] by (simp add: take_of opt literal show_int_def)
  then show ?thesis
    using parse_i64_show [OF assms(1)] by (simp add: integer_p_def try_map)
qed

lemma duration_append:
  assumes "n < 2 ^ 64"
  shows "outcome (duration_p W (show_nat n @ ''ms'')) = Match n []"
proof -
  have "takeWhile is_digit (show_nat n @ ''ms'') = show_nat n"
    "dropWhile is_digit (show_nat n @ ''ms'') = ''ms''"
    using show_nat_digits [of n] by (auto simp: list_all_iff takeWhile_append2 dropWhile_append2)
  then show ?thesis using assms by (simp add: outcome_duration)
qed

lemma within_append: "millis_ok w \<Longrightarrow> outcome (within_p W (show_within w)) = Match w []"
  using ident_stops_blank [OF show_nat_ident]
  by (cases w) (simp_all add: within_p_def show_within_def millis_ok_def opt literal
      blank_stops is_blank_def duration_append)

lemma json_ok_stops: "json_ok J P v \<Longrightarrow> stops is_blank (P v)"
proof -
  assume a: "json_ok J P v"
  then obtain c s where cs: "P v = c # s" by (cases "P v") (auto simp: json_ok_def)
  have "\<not> is_whitespace c"
  proof
    assume w: "is_whitespace c"
    then have "length (trim (c # s)) \<le> length s"
      by (simp add: trim_def) (metis le_trans length_dropWhile_le length_rev)
    then show False using a cs by (simp add: json_ok_def)
  qed
  then show ?thesis using cs by (auto simp: is_blank_def is_whitespace_def char_code_def)
qed

lemma json_append: "json_ok J P v \<Longrightarrow> outcome (json_value_p W J (P v)) = Match v []"
  by (simp add: json_value_p_def try_map rest_of_line_p_def json_ok_def)

lemma output_append:
  "(case w of None \<Rightarrow> True | Some v \<Rightarrow> json_ok J P v) \<Longrightarrow>
   outcome (output_p W J (show_output P w)) = Match w []"
  by (cases w) (simp_all add: output_p_def show_output_def opt literal blank_stops is_blank_def
      json_append json_ok_stops)

lemma key_append:
  assumes "find (\<lambda>t. prefix t (k @ ''='' @ u)) ts = Some k" "in_i64 v" "stops is_digit s"
    and "u = show_int v @ s"
  shows "outcome (pbind (alt_lit W ts) (\<lambda>key. pbind (literal W ''='') (\<lambda>_. pbind (integer_p W)
    (\<lambda>v. pret (key, v)))) (k @ ''='' @ u)) = Match (k, v) s"
proof -
  have "ts \<noteq> []" using assms(1) by auto
  then show ?thesis
    using assms integer_append [OF assms(2,3)] by (simp add: outcome_alt_lit literal)
qed

lemma queue_opt_append:
  "k \<in> set queue_keys \<Longrightarrow> in_i64 v \<Longrightarrow> stops is_digit s \<Longrightarrow>
   outcome (queue_opt_p W (k @ ''='' @ show_int v @ s)) = Match (k, v) s"
  unfolding queue_opt_p_def by (rule key_append [OF key_find(1) [unfolded queue_keys_def] _ _ refl]) (auto simp: queue_keys_def)

lemma send_opt_append:
  "k \<in> set send_keys \<Longrightarrow> in_i64 v \<Longrightarrow> stops is_digit s \<Longrightarrow>
   outcome (send_opt_p W (k @ ''='' @ show_int v @ s)) = Match (k, v) s"
  unfolding send_opt_p_def by (rule key_append [OF key_find(2) [unfolded send_keys_def] _ _ refl]) (auto simp: send_keys_def)

lemma queue_opts_append:
  assumes "list_all (\<lambda>(k, v). k \<in> set queue_keys \<and> in_i64 v) kvs" "stops is_digit tail"
    and "outcome (preceded (space1 W) (pmap VOpt (queue_opt_p W)) tail) = No_Match"
  shows "outcome (repeat W 0 (preceded (space1 W) (pmap VOpt (queue_opt_p W))) (show_opts kvs @ tail)) =
    Match (map VOpt kvs) tail"
proof -
  have "outcome (preceded (space1 W) (pmap VOpt (queue_opt_p W)) ((case x of (k, v) \<Rightarrow> '' '' @ k @ ''='' @ show_int v) @ rest)) =
      Match (VOpt x) rest" if "x \<in> set kvs" "stops is_digit rest" for x rest
    using assms(1) that queue_opt_append [of "fst x" "snd x" rest]
    by (cases x) (auto simp: list_all_iff blank_stops key_chars)
  then show ?thesis
    unfolding show_opts_def
    by (intro repeat_items [where good = "stops is_digit"]) (use assms in auto)
qed


lemma send_opts_then:
  assumes "list_all (\<lambda>(k, v). k \<in> set send_keys \<and> in_i64 v) kvs" "stops is_digit tail"
    and "outcome (repeat W 0 (push_item_p W J) tail) = Match vs r"
  shows "outcome (repeat W 0 (push_item_p W J) (show_opts kvs @ tail)) =
    Match (map (\<lambda>(k, v). VItem (Item_Opt k v)) kvs @ vs) r"
proof -
  have key: "\<not> prefix ''message'' (k @ u) \<and> \<not> prefix ''data'' (k @ u)" if "k \<in> set send_keys" for k u
    using that unfolding send_keys_def list.set insert_iff empty_iff by (elim disjE FalseE; simp)
  have "outcome (push_item_p W J ((case x of (k, v) \<Rightarrow> '' '' @ k @ ''='' @ show_int v) @ rest)) =
      Match (case x of (k, v) \<Rightarrow> VItem (Item_Opt k v)) rest"
    if x: "x \<in> set kvs" and rest: "stops is_digit rest" for x rest
  proof (cases x)
    case (Pair k v)
    then have k: "k \<in> set send_keys" "in_i64 v" using assms(1) x by (auto simp: list_all_iff)
    show ?thesis
      using Pair send_opt_append [OF k rest] key [OF k(1)] key_chars(2) [OF k(1)]
      by (simp add: push_item_p_def message_clause_p_def data_clause_p_def alt literal blank_stops)
  qed
  then show ?thesis
    unfolding show_opts_def
    by (intro repeat_items_then [where good = "stops is_digit"]) (use assms in auto)
qed

lemma push_item_end [simp]: "outcome (push_item_p W J []) = No_Match"
  by (simp add: push_item_p_def)

lemma push_data_item:
  assumes "J (trim (dropWhile is_blank t)) = Some v"
  shows "outcome (repeat W 0 (push_item_p W J) ('' data '' @ t)) = Match [VItem (Item_Value v)] []"
proof -
  have "span1 (Suc 0) is_blank (CHR '' '' # u) = Match (CHR '' '' # takeWhile is_blank u) (dropWhile is_blank u)" for u
    by (simp add: span1_def)
  then have "outcome (push_item_p W J ('' data '' @ t)) = Match (VItem (Item_Value v)) []"
    using assms by (simp add: push_item_p_def message_clause_p_def data_clause_p_def alt literal
        blank_stops is_blank_def space1 json_value_p_def try_map rest_of_line_p_def)
  then show ?thesis by (subst repeat) (simp_all add: repeat_none)
qed

lemma set_options_pairs: "set_options queue_options_set (queue_pairs opts) queue_options_default = Some opts"
  by (cases opts)
    (simp add: queue_pairs_def pair_of_def queue_options_set_def queue_options_default_def split: option.split)

lemma push_items_pairs:
  "push_items (map (\<lambda>(k, v). Item_Opt k v) (send_pairs opts) @ [Item_Value d]) (None, send_options_default) =
   Some (Some d, opts)"
  by (cases opts)
    (simp add: send_pairs_def pair_of_def send_options_set_def send_options_default_def split: option.split)

lemma pairs_ok:
  "queue_options_ok opts \<Longrightarrow> list_all (\<lambda>(k, v). k \<in> set queue_keys \<and> in_i64 v) (queue_pairs opts)"
  "send_options_ok sopts \<Longrightarrow> list_all (\<lambda>(k, v). k \<in> set send_keys \<and> in_i64 v) (send_pairs sopts)"
  by (auto simp: queue_pairs_def send_pairs_def pair_of_def queue_options_ok_def send_options_ok_def
      queue_keys_def send_keys_def split: option.splits)


section \<open>Commands\<close>

lemma other_keyword:
  "\<not> prefix ''create'' s \<Longrightarrow> outcome (create_queue_p W s) = No_Match"
  "\<not> prefix ''delete'' s \<Longrightarrow> outcome (delete_queue_p W s) = No_Match"
  "\<not> prefix ''maintain'' s \<Longrightarrow> outcome (maintain_p W s) = No_Match"
  "\<not> prefix ''push'' s \<Longrightarrow> \<not> prefix ''send'' s \<Longrightarrow> outcome (push_cmd_p W J s) = No_Match"
  "\<not> prefix ''spawn'' s \<Longrightarrow> outcome (spawn_consume_p W s) = No_Match"
  "\<not> prefix ''consume'' s \<Longrightarrow> \<not> prefix ''fetch'' s \<Longrightarrow> outcome (consume_cmd_p W s) = No_Match"
  "\<not> prefix ''ack'' s \<Longrightarrow> \<not> prefix ''complete'' s \<Longrightarrow> outcome (ack_cmd_p W J s) = No_Match"
  "\<not> prefix ''fail'' s \<Longrightarrow> outcome (fail_cmd_p W J s) = No_Match"
  "\<not> prefix ''await'' s \<Longrightarrow> outcome (await_cmd_p W s) = No_Match"
  "\<not> prefix ''assert'' s \<Longrightarrow> outcome (assert_cmd_p W s) = No_Match"
  by (simp_all add: create_queue_p_def delete_queue_p_def maintain_p_def push_cmd_p_def
      spawn_consume_p_def consume_cmd_p_def ack_cmd_p_def fail_cmd_p_def await_cmd_p_def
      assert_cmd_p_def literal outcome_alt_lit)

lemma command_keyword:
  "outcome (create_queue_p W (''create'' @ u)) = Match c r \<Longrightarrow> outcome (command_p W J (''create'' @ u)) = Match c r"
  "outcome (delete_queue_p W (''delete'' @ u)) = Match c r \<Longrightarrow> outcome (command_p W J (''delete'' @ u)) = Match c r"
  "outcome (maintain_p W (''maintain'' @ u)) = Match c r \<Longrightarrow> outcome (command_p W J (''maintain'' @ u)) = Match c r"
  "outcome (push_cmd_p W J (''push'' @ u)) = Match c r \<Longrightarrow> outcome (command_p W J (''push'' @ u)) = Match c r"
  "outcome (spawn_consume_p W (''spawn'' @ u)) = Match c r \<Longrightarrow> outcome (command_p W J (''spawn'' @ u)) = Match c r"
  "outcome (consume_cmd_p W (''consume'' @ u)) = Match c r \<Longrightarrow> outcome (command_p W J (''consume'' @ u)) = Match c r"
  "outcome (ack_cmd_p W J (''ack'' @ u)) = Match c r \<Longrightarrow> outcome (command_p W J (''ack'' @ u)) = Match c r"
  "outcome (fail_cmd_p W J (''fail'' @ u)) = Match c r \<Longrightarrow> outcome (command_p W J (''fail'' @ u)) = Match c r"
  "outcome (await_cmd_p W (''await'' @ u)) = Match c r \<Longrightarrow> outcome (command_p W J (''await'' @ u)) = Match c r"
  "outcome (assert_cmd_p W (''assert'' @ u)) = Match c r \<Longrightarrow> outcome (command_p W J (''assert'' @ u)) = Match c r"
  "outcome (check_cmd_p W J (''check'' @ u)) = Match c r \<Longrightarrow> outcome (command_p W J (''check'' @ u)) = Match c r"
  by (simp_all add: command_p_def alt other_keyword)

lemma printed_simple:
  assumes "ident_ok name"
  shows "outcome (delete_queue_p W (''delete queue '' @ name)) = Match (DeleteQueue name) []"
    and "outcome (await_cmd_p W (''await '' @ name)) = Match (Await name) []"
  using ident_stops_blank [OF assms, of "[]"] assms
  by (simp_all add: delete_queue_p_def await_cmd_p_def literal blank_stops is_blank_def ident_end)

lemma printed_maintain: "outcome (maintain_p W ''maintain'') = Match Maintain []"
  by (simp add: maintain_p_def literal)

lemma printed_create:
  assumes "ident_ok name" "queue_options_ok opts"
  shows "outcome (create_queue_p W (''create queue '' @ name @ show_opts (queue_pairs opts))) =
    Match (CreateQueue name opts) []"
proof -
  have "stops ident_char (show_opts kvs)" for kvs by (cases kvs) auto
  then show ?thesis
    using assms ident_stops_blank [OF assms(1)] queue_opts_append [OF pairs_ok(1) [OF assms(2)], of "[]"]
    by (simp add: create_queue_p_def literal blank_stops is_blank_def ident_append set_options_pairs comp_def)
qed

lemma printed_push:
  assumes "ident_ok queue" "send_options_ok opts" "json_ok J P data"
  shows "outcome (push_cmd_p W J (''push '' @ queue @ show_opts (send_pairs opts) @ '' data '' @ P data)) =
    Match (Push queue data opts) []"
proof -
  have "stops ident_char (show_opts kvs @ '' data '' @ u)" for kvs u by (cases kvs) auto
  moreover have "dropWhile is_blank (P data) = P data"
    using json_ok_stops [OF assms(3)] by (cases "P data") simp_all
  then have "outcome (repeat W 0 (push_item_p W J) ('' data '' @ P data)) = Match [VItem (Item_Value data)] []"
    using assms(3) by (intro push_data_item) (simp add: json_ok_def)
  from send_opts_then [OF pairs_ok(2) [OF assms(2)] _ this]
  have "outcome (repeat W 0 (push_item_p W J) (show_opts (send_pairs opts) @ '' data '' @ P data)) =
      Match (map (\<lambda>(k, v). VItem (Item_Opt k v)) (send_pairs opts) @ [VItem (Item_Value data)]) []"
    by simp
  moreover have "map the_item (map (\<lambda>(k, v). VItem (Item_Opt k v)) (send_pairs opts) @ [VItem (Item_Value data)]) =
      map (\<lambda>(k, v). Item_Opt k v) (send_pairs opts) @ [Item_Value data]"
    by auto
  ultimately show ?thesis
    using assms(1) ident_stops_blank [OF assms(1)] push_items_pairs [of opts data]
    by (simp add: push_cmd_p_def outcome_alt_lit literal blank_stops ident_append del: map_append map_map)
qed

lemma not_ident_tails [simp]:
  "stops ident_char (show_within w)" "stops ident_char (show_output P v)"
  by (simp_all add: show_within_def show_output_def split: option.split)

lemma printed_consume:
  assumes "ident_ok queue" "ident_ok var" "millis_ok w"
  shows "outcome (consume_cmd_p W (''consume '' @ queue @ '' -> '' @ var @ show_within w)) =
      Match (Consume queue var w) []"
    and "outcome (spawn_consume_p W (''spawn consume '' @ queue @ '' -> '' @ var @ show_within w)) =
      Match (SpawnConsume queue var w) []"
  using assms ident_stops_blank [OF assms(1)] ident_stops_blank [OF assms(2)]
  by (simp_all add: consume_cmd_p_def spawn_consume_p_def outcome_alt_lit literal blank_stops is_blank_def
      ident_append within_append)

lemma printed_finish:
  assumes "ident_ok var" "case v of None \<Rightarrow> True | Some j \<Rightarrow> json_ok J P j"
  shows "outcome (ack_cmd_p W J (''ack '' @ var @ show_output P v)) = Match (Ack var v) []"
    and "outcome (fail_cmd_p W J (''fail '' @ var @ show_output P v)) = Match (Fail var v) []"
  using assms(1) ident_stops_blank [OF assms(1)] output_append [OF assms(2)]
  by (simp_all add: ack_cmd_p_def fail_cmd_p_def outcome_alt_lit literal blank_stops ident_append)

lemma printed_assert_queue:
  assumes "ident_ok queue"
  shows "outcome (assert_cmd_p W (''assert queue '' @ queue @ '' empty'')) = Match (AssertQueueEmpty queue) []"
    and "in_i64 n \<Longrightarrow> outcome (assert_cmd_p W (''assert queue '' @ queue @ '' size '' @ show_int n)) =
      Match (AssertQueueSize queue n) []"
  using assms ident_stops_blank [OF assms] show_int_stops [of n "[]"] integer_append [of n "[]"]
  by (simp_all add: assert_cmd_p_def assert_queue_p_def alt literal blank_stops is_blank_def ident_append)

lemma keyword_ident:
  assumes "prefix t (x @ CHR '' '' # u)" "list_all ident_char t" "ident_ok x"
  shows "\<exists>l. x = t @ l \<and> list_all ident_char l"
proof -
  have "prefix t x"
    using assms(1,2) by (auto simp: prefix_append prefix_Cons)
  then show ?thesis using assms(3) by (auto simp: prefix_def ident_ok_def)
qed

lemma ident_none: "stops ident_char s \<Longrightarrow> outcome (ident_p W s) = No_Match"
  by (simp add: ident_p_def take_while span1_none)

lemma idents_stop_blank: "list_all ident_char l \<Longrightarrow> l \<noteq> [] \<Longrightarrow> stops is_blank (l @ u)"
  using ident_stops_blank [of l u] by (simp add: ident_ok_def)

lemma printed_var_eq:
  assumes "ident_ok left" "ident_ok right"
  shows "outcome (assert_cmd_p W (''assert '' @ left @ '' == '' @ right)) = Match (AssertVarEq left right) []"
proof -
  let ?s = "left @ '' == '' @ right"
  have eq: "outcome (assert_var_eq_p W ?s) = Match (AssertVarEq left right) []"
    using assms ident_stops_blank [OF assms(2), of "[]"] ident_end [OF assms(2)]
    by (simp add: assert_var_eq_p_def ident_append blank_stops literal is_blank_def)
  have queue: "outcome (assert_queue_p W ?s) = No_Match"
  proof (cases "prefix ''queue'' ?s")
    case True
    then obtain l where l: "left = ''queue'' @ l" "list_all ident_char l"
      using keyword_ident [of "''queue''" left "''== '' @ right"] assms(1)
      by (auto simp: ident_char_def is_alphanumeric_def Let_def char_code_def)
    then show ?thesis
      using idents_stop_blank [OF l(2)]
      by (cases "l = []") (simp_all add: assert_queue_p_def literal blank_stops is_blank_def ident_none)
  qed (simp add: assert_queue_p_def literal)
  have one: "outcome (assert_exactly_one_p W ?s) = No_Match"
  proof (cases "prefix ''exactly_one_claimed'' ?s")
    case True
    then obtain l where l: "left = ''exactly_one_claimed'' @ l" "list_all ident_char l"
      using keyword_ident [of "''exactly_one_claimed''" left "''== '' @ right"] assms(1)
      by (auto simp: ident_char_def is_alphanumeric_def Let_def char_code_def)
    have none: "outcome (preceded (space1 W) (pmap VStr (ident_p W)) (l @ '' == '' @ right)) = No_Match"
      using idents_stop_blank [OF l(2)]
      by (cases "l = []") (simp_all add: literal blank_stops is_blank_def ident_none)
    have "outcome (repeat W 1 (preceded (space1 W) (pmap VStr (ident_p W))) (l @ '' == '' @ right)) = No_Match"
      by (subst repeat) (use none in \<open>simp_all del: outcome_preceded\<close>)
    then show ?thesis using l(1) by (simp add: assert_exactly_one_p_def literal)
  qed (simp add: assert_exactly_one_p_def literal)
  show ?thesis
    using ident_stops_blank [OF assms(1)] eq queue one
    by (simp add: assert_cmd_p_def alt literal blank_stops)
qed

lemma printed_exactly_one:
  assumes "vars \<noteq> []" "list_all ident_ok vars"
  shows "outcome (assert_cmd_p W (''assert exactly_one_claimed'' @ concat (map (\<lambda>v. '' '' @ v) vars))) =
    Match (AssertExactlyOneClaimed vars) []"
proof -
  let ?p = "preceded (space1 W) (pmap VStr (ident_p W))"
  have "outcome (repeat W 1 ?p (concat (map (\<lambda>v. '' '' @ v) vars) @ [])) = Match (map VStr vars) []"
  proof (rule repeat_items [where good = "stops ident_char"])
    fix x rest
    assume "x \<in> set vars" "stops ident_char rest"
    with assms(2) show "outcome (?p (('' '' @ x) @ rest)) = Match (VStr x) rest"
      using ident_stops_blank [of x rest] by (simp add: list_all_iff blank_stops ident_append)
  qed (use assms(1) in \<open>auto simp: Suc_le_eq\<close>)
  then show ?thesis
    by (simp add: assert_cmd_p_def assert_queue_p_def assert_exactly_one_p_def alt literal blank_stops
        is_blank_def comp_def)
qed

lemma printed_check:
  assumes "ident_ok var"
  shows "state \<in> set state_names \<Longrightarrow>
      outcome (check_cmd_p W J (''check '' @ var @ '' state '' @ state)) = Match (CheckState var state) []"
    and "millis_ok w \<Longrightarrow>
      outcome (check_cmd_p W J (''check '' @ var @ '' ack'' @ show_within w)) = Match (CheckAck var w) []"
    and "outcome (check_cmd_p W J (''check '' @ var @ '' empty'')) = Match (CheckEmpty var) []"
    and "json_ok J P v \<Longrightarrow>
      outcome (check_cmd_p W J (''check '' @ var @ '' data '' @ P v)) = Match (CheckData var v) []"
    and "outcome (check_cmd_p W J (''check '' @ var @ '' gone'')) = Match (CheckGone var) []"
proof -
  have step: "outcome (check_cmd_p W J (''check '' @ var @ '' '' @ u)) =
      obind (outcome (check_kind_p W J u)) (\<lambda>k r. Match (check_of_kind var k) r)"
    if "stops is_blank u" for u
    using assms ident_stops_blank [OF assms] that
    by (simp add: check_cmd_p_def literal blank_stops ident_append)
  show "outcome (check_cmd_p W J (''check '' @ var @ '' state '' @ state)) = Match (CheckState var state) []"
    if "state \<in> set state_names"
  proof -
    have f: "find (\<lambda>t. prefix t state) state_names = Some state" "stops is_blank state"
      using that unfolding state_names_def list.set insert_iff empty_iff
      by (elim disjE FalseE; simp add: is_blank_def)+
    then have "outcome (state_lit_p W state) = Match state []"
      using outcome_alt_lit [of state_names state] unfolding state_lit_p_def state_names_def by simp
    then show ?thesis
      using step [of "''state '' @ state"] f(2)
      by (simp add: check_kind_p_def alt literal blank_stops is_blank_def)
  qed
  show "outcome (check_cmd_p W J (''check '' @ var @ '' ack'' @ show_within w)) = Match (CheckAck var w) []"
    if "millis_ok w"
    using step [of "''ack'' @ show_within w"] within_append [OF that]
    by (simp add: check_kind_p_def alt literal is_blank_def)
  show "outcome (check_cmd_p W J (''check '' @ var @ '' data '' @ P v)) = Match (CheckData var v) []"
    if "json_ok J P v"
    using step [of "''data '' @ P v"] json_append [OF that] json_ok_stops [OF that]
    by (simp add: check_kind_p_def alt literal blank_stops is_blank_def)
  show "outcome (check_cmd_p W J (''check '' @ var @ '' empty'')) = Match (CheckEmpty var) []"
    "outcome (check_cmd_p W J (''check '' @ var @ '' gone'')) = Match (CheckGone var) []"
    using step [of "''empty''"] step [of "''gone''"]
    by (simp_all add: check_kind_p_def alt literal is_blank_def)
qed

lemma printed_command:
  assumes "command_ok cmd" "printable J P cmd"
  shows "outcome (command_p W J (show_command P cmd)) = Match cmd []"
proof (cases cmd)
  case (AssertExactlyOneClaimed vars)
  then show ?thesis
    using command_keyword(10) [where u = "'' exactly_one_claimed'' @ concat (map (\<lambda>v. '' '' @ v) vars)"]
      printed_exactly_one [of vars] assms by simp
qed (use assms in \<open>auto intro!: command_keyword [simplified] simp: printed_simple [simplified]
    printed_maintain printed_create [simplified] printed_push [simplified] printed_consume [simplified]
    printed_finish [simplified] printed_assert_queue [simplified] printed_var_eq [simplified]
    printed_check [simplified]\<close>)


lemma printed_statement:
  assumes "n < 2 ^ 32" "command_ok cmd" "printable J P cmd" "stops is_blank (show_command P cmd)"
  shows "parse_line W J line (show_statement P n cmd) = Inr (n, cmd)"
proof -
  have "outcome (client_prefix_p W (show_statement P n cmd)) = Match n (show_command P cmd)"
    using assms(1) digits_append [of "CHR '' '' # show_command P cmd" n] parse_uint_show [of n 32]
    by (simp add: client_prefix_p_def show_statement_def opt try_map literal blank_stops assms(4))
  then have "statement_p W J (show_statement P n cmd) = Inr ((n, cmd), [])"
    using printed_command [OF assms(2,3)] by (simp add: statement_p_def flip: outcome_Match_iff)
  then show ?thesis by (simp add: parse_line_def trim_def)
qed

lemma printed_header:
  assumes "ident_ok name"
  shows "parse_header W line (''scenario '' @ name @ '':'') = Inr name"
proof -
  have "header_p W (''scenario '' @ name @ '':'') = Inr (name, [])"
    using assms ident_stops_blank [OF assms]
    by (simp add: header_p_def literal blank_stops ident_append opt flip: outcome_Match_iff)
  then show ?thesis by (simp add: parse_header_def trim_def)
qed

end

section \<open>Lines\<close>

definition one_line :: "string \<Rightarrow> bool" where
  "one_line s \<longleftrightarrow> list_all (\<lambda>c. c \<noteq> CHR 0x0A) s"

definition ends_ok :: "string \<Rightarrow> bool" where
  "ends_ok s \<longleftrightarrow> s \<noteq> [] \<and> \<not> is_whitespace (last s)"

lemma one_line_simps [simp]:
  "one_line []" "one_line (c # s) \<longleftrightarrow> c \<noteq> CHR 0x0A \<and> one_line s"
  "one_line (s @ t) \<longleftrightarrow> one_line s \<and> one_line t"
  by (simp_all add: one_line_def)

lemma ends_ok_append: "ends_ok (s @ t) \<longleftrightarrow> (if t = [] then ends_ok s else ends_ok t)"
  by (simp add: ends_ok_def)

lemma ends_ok_Cons: "ends_ok (c # t) \<longleftrightarrow> (if t = [] then \<not> is_whitespace c else ends_ok t)"
  by (simp add: ends_ok_def)

lemma ident_char_not_space: "ident_char c \<Longrightarrow> \<not> is_whitespace c"
  by (auto simp: ident_char_def is_alphanumeric_def is_whitespace_def Let_def char_code_def)

lemma ident_line: "ident_ok s \<Longrightarrow> one_line s \<and> ends_ok s"
proof -
  assume a: "ident_ok s"
  have "c \<noteq> CHR 0x0A" if "ident_char c" for c
    using ident_char_not_space [OF that] by (auto simp: is_whitespace_def char_code_def)
  with a show ?thesis
    by (auto simp: ident_ok_def one_line_def ends_ok_def list_all_iff ident_char_not_space)
qed

lemma trim_id: "\<not> is_whitespace c \<Longrightarrow> ends_ok (c # s) \<Longrightarrow> trim (c # s) = c # s"
proof -
  assume a: "\<not> is_whitespace c" "ends_ok (c # s)"
  then obtain d t where "rev (c # s) = d # t" "\<not> is_whitespace d"
    by (metis ends_ok_def hd_rev list.collapse rev_is_Nil_conv)
  then show ?thesis using a(1) by (simp add: trim_def) (metis rev.simps(2) rev_rev_ident)
qed

lemma json_line: "json_ok J P v \<Longrightarrow> one_line (P v) \<and> ends_ok (P v)"
proof -
  assume a: "json_ok J P v"
  have "\<not> is_whitespace (last (P v))"
  proof
    assume w: "is_whitespace (last (P v))"
    have "last (trim s) = last s \<Longrightarrow> trim s \<noteq> [] \<Longrightarrow> \<not> is_whitespace (last s)" for s
      by (metis hd_dropWhile last_rev rev.simps(1) trim_def)
    with w a show False by (metis json_ok_def)
  qed
  with a show ?thesis by (simp add: json_ok_def one_line_def ends_ok_def)
qed

lemma show_int_line: "one_line (show_int z) \<and> ends_ok (show_int z)"
  using ident_line [OF show_nat_ident] by (simp add: show_int_def ends_ok_Cons)

lemma lines_of_newline:
  "one_line l \<Longrightarrow> lines_of (l @ CHR 0x0A # s) = strip_cr l # lines_of s"
proof -
  assume "one_line l"
  then have "\<And>c. c \<in> set l \<Longrightarrow> c \<noteq> CHR 0x0A" by (auto simp: one_line_def list_all_iff)
  then have "takeWhile (\<lambda>c. c \<noteq> CHR 0x0A) (l @ CHR 0x0A # s) = l"
    "dropWhile (\<lambda>c. c \<noteq> CHR 0x0A) (l @ CHR 0x0A # s) = CHR 0x0A # s"
    by (simp_all add: takeWhile_append2 dropWhile_append2)
  then show ?thesis by (subst lines_of.simps) simp
qed

lemma lines_of_last: "one_line l \<Longrightarrow> l \<noteq> [] \<Longrightarrow> lines_of l = [l]"
proof -
  assume a: "one_line l" "l \<noteq> []"
  then have "dropWhile (\<lambda>c. c \<noteq> CHR 0x0A) l = []" by (auto simp: one_line_def list_all_iff)
  then show ?thesis using a(2) by (subst lines_of.simps) (simp del: dropWhile_eq_Nil_conv)
qed

lemma strip_cr_id: "ends_ok l \<Longrightarrow> strip_cr l = l"
  by (auto simp: strip_cr_def ends_ok_def is_whitespace_def char_code_def)

end
