(* ===== verification/Scenario_Print.thy ===== *)
theory Scenario_Print
  imports Grammar_Print
begin

text \<open>
  Whole scenario files: the loop of \<open>parse_scenario\<close> (src/dsltest/src/parser.rs) over the
  numbered lines, and the reading back of a printed scenario.
\<close>

section \<open>Printed statements are lines\<close>

lemma show_int_nonempty [simp]: "show_int z \<noteq> []"
  by (simp add: show_int_def)

lemma blank_is_space [simp]: "is_whitespace (CHR '' '')"
  by (simp add: is_whitespace_def char_code_def)

lemma empty_not_ok [simp]: "\<not> ident_ok []" "\<not> ends_ok []"
  by (simp_all add: ident_ok_def ends_ok_def)

lemma show_opts_line:
  "list_all (\<lambda>(k, v). one_line k) kvs \<Longrightarrow> one_line (show_opts kvs) \<and> (kvs = [] \<or> ends_ok (show_opts kvs))"
  using show_int_line by (induction kvs) (auto simp: ends_ok_append ends_ok_Cons)

lemma pairs_line:
  "list_all (\<lambda>(k, v). one_line k) (queue_pairs qopts)" "list_all (\<lambda>(k, v). one_line k) (send_pairs sopts)"
  by (simp_all add: queue_pairs_def send_pairs_def pair_of_def split: option.split)

lemma show_within_line: "one_line (show_within w) \<and> (show_within w = [] \<or> ends_ok (show_within w))"
  using ident_line [OF show_nat_ident]
  by (simp add: show_within_def ends_ok_append ends_ok_Cons is_whitespace_def char_code_def split: option.split)

lemma show_output_line:
  "(case v of None \<Rightarrow> True | Some j \<Rightarrow> json_ok J P j) \<Longrightarrow>
   one_line (show_output P v) \<and> (show_output P v = [] \<or> ends_ok (show_output P v))"
  using json_line by (auto simp: show_output_def ends_ok_append ends_ok_Cons ends_ok_def split: option.splits)

lemma show_command_line:
  assumes "command_ok cmd" "printable J P cmd"
  shows "one_line (show_command P cmd) \<and> ends_ok (show_command P cmd)"
proof (cases cmd)
  case (CreateQueue name opts)
  then show ?thesis
    using assms ident_line show_opts_line [OF pairs_line(1), of opts] by (auto simp: ends_ok_append ends_ok_Cons)
next
  case (Push queue data opts)
  then show ?thesis
    using assms ident_line show_opts_line [OF pairs_line(2), of opts] json_line [of J P data]
    by (auto simp: ends_ok_append ends_ok_Cons)
next
  case (AssertExactlyOneClaimed vars)
  have "list_all ident_ok vars \<Longrightarrow> one_line (concat (map (\<lambda>v. '' '' @ v) vars)) \<and>
      (vars = [] \<or> ends_ok (concat (map (\<lambda>v. '' '' @ v) vars)))" for vars
    using ident_line by (induction vars) (auto simp: ends_ok_append ends_ok_Cons)
  then show ?thesis using assms AssertExactlyOneClaimed by (auto simp: ends_ok_append ends_ok_Cons)
next
  case (Ack var v)
  then show ?thesis
    using assms ident_line show_output_line [where v = v and J = J and P = P] by (auto simp: ends_ok_append ends_ok_Cons)
next
  case (Fail var v)
  then show ?thesis
    using assms ident_line show_output_line [where v = v and J = J and P = P] by (auto simp: ends_ok_append ends_ok_Cons)
next
  case (CheckData var v)
  then show ?thesis
    using assms ident_line json_line [of J P v] by (auto simp: ends_ok_append ends_ok_Cons)
next
  case (CheckState var state)
  then show ?thesis
    using assms ident_line
    by (auto simp: ends_ok_append ends_ok_Cons state_names_def is_whitespace_def char_code_def)
qed (use assms ident_line show_within_line show_int_line in
    \<open>auto simp: ends_ok_append ends_ok_Cons is_whitespace_def char_code_def\<close>)

lemma show_command_head:
  assumes "command_ok cmd"
  shows "\<exists>c s. show_command P cmd = c # s \<and> \<not> is_whitespace c"
  by (cases cmd) (auto simp: is_whitespace_def char_code_def)

lemma show_command_stops:
  assumes "command_ok cmd"
  shows "stops is_blank (show_command P cmd)"
  using show_command_head [OF assms, of P]
  by (auto simp: is_blank_def is_whitespace_def char_code_def)

lemma show_statement_line:
  assumes "command_ok cmd" "printable J P cmd"
  shows "one_line (show_statement P n cmd) \<and> ends_ok (show_statement P n cmd)"
    and "\<exists>d s. show_statement P n cmd = CHR ''#'' # d # s \<and> is_digit d"
proof -
  obtain d s where d: "show_nat n = d # s" by (cases "show_nat n") simp_all
  show "\<exists>d s. show_statement P n cmd = CHR ''#'' # d # s \<and> is_digit d"
    using show_nat_digits [of n] d by (auto simp: show_statement_def)
  show "one_line (show_statement P n cmd) \<and> ends_ok (show_statement P n cmd)"
    using show_command_line [OF assms] show_command_head [OF assms(1), of P] ident_line [OF show_nat_ident, of n]
    by (auto simp: show_statement_def ends_ok_append ends_ok_Cons)
qed

lemma trim_blank [simp]: "trim (CHR '' '' # s) = trim s"
  by (simp add: trim_def)

section \<open>The loop over the lines\<close>

fun numbered :: "nat \<Rightarrow> statement list \<Rightarrow> bool" where
  "numbered k [] = True"
| "numbered k (st # sts) = (st_line st = k \<and> numbered (k + 1) sts)"

definition statement_ok :: "serde \<Rightarrow> (json \<Rightarrow> string) \<Rightarrow> statement \<Rightarrow> bool" where
  "statement_ok J P st \<longleftrightarrow>
     st_client st < 2 ^ 32 \<and> command_ok (st_command st) \<and> printable J P (st_command st)"

abbreviation show_st :: "(json \<Rightarrow> string) \<Rightarrow> statement \<Rightarrow> string" where
  "show_st P st \<equiv> show_statement P (st_client st) (st_command st)"

lemma lines_of_statements:
  "list_all (statement_ok J P) sts \<Longrightarrow>
   lines_of (concat (map (\<lambda>st. show_st P st @ [CHR 0x0A]) sts)) = map (show_st P) sts"
proof (induction sts)
  case Nil
  show ?case by (simp add: lines_of.simps)
next
  case (Cons st sts)
  then have "one_line (show_st P st) \<and> ends_ok (show_st P st)"
    using show_statement_line(1) [of "st_command st" J P "st_client st"] by (simp add: statement_ok_def)
  then show ?case using Cons by (simp add: lines_of_newline strip_cr_id)
qed

text \<open>What the loop returns: every statement comes from its own line.\<close>

definition from_line :: "lib \<Rightarrow> serde \<Rightarrow> string list \<Rightarrow> nat \<Rightarrow> statement \<Rightarrow> bool" where
  "from_line W J raws i st \<longleftrightarrow>
     i < st_line st \<and> st_line st \<le> i + length raws \<and>
     parse_line W J (st_line st) (trim (raws ! (st_line st - i - 1))) = Inr (st_client st, st_command st)"

context grammar
begin

lemma scan_printed:
  assumes "list_all (statement_ok J P) sts" "numbered (i + 1) sts"
  shows "scan_lines W J i (Some name) acc (map (show_st P) sts) = Inr (Some name, acc @ sts)"
  using assms
proof (induction sts arbitrary: i acc)
  case (Cons st sts)
  let ?l = "show_st P st"
  have ok: "st_client st < 2 ^ 32" "command_ok (st_command st)" "printable J P (st_command st)"
    using Cons.prems(1) by (simp_all add: statement_ok_def)
  have l: "ends_ok ?l" using show_statement_line(1) [OF ok(2,3)] by simp
  obtain d s where ds: "?l = CHR ''#'' # d # s" "is_digit d"
    using show_statement_line(2) [OF ok(2,3)] by blast
  then have trim: "trim ?l = ?l" and comment: "\<not> is_comment ?l"
    using l by (simp_all add: trim_id is_whitespace_def char_code_def)
  have parsed: "parse_line W J (Suc i) ?l = Inr (st_client st, st_command st)"
    using ok show_command_stops [OF ok(2)] by (intro printed_statement) simp_all
  have st: "\<lparr>st_line = Suc i, st_client = st_client st, st_command = st_command st\<rparr> = st"
    using Cons.prems(2) by (cases st) simp
  have "scan_lines W J i (Some name) acc (map (show_st P) (st # sts)) =
      scan_lines W J (i + 1) (Some name) (acc @ [st]) (map (show_st P) sts)"
    using parsed trim comment ds(1) st by (simp add: Let_def)
  then show ?case using Cons by simp
qed simp

lemma from_line_Cons: "from_line W J raws (Suc i) st \<Longrightarrow> from_line W J (raw # raws) i st"
  by (auto simp: from_line_def nth_Cons')

lemma scan_lines_sound:
  "scan_lines W J i name acc raws = Inr (name', sts) \<Longrightarrow>
   \<exists>new. sts = acc @ new \<and> sorted_wrt (<) (map st_line new) \<and> list_all (from_line W J raws i) new"
proof (induction raws arbitrary: i name acc)
  case (Cons raw raws)
  have shift: "list_all (from_line W J (raw # raws) i) new" if "list_all (from_line W J raws (Suc i)) new" for new
    using that by (auto simp: list_all_iff from_line_Cons)
  have skip: ?case if r: "scan_lines W J (Suc i) name1 acc raws = Inr (name', sts)" for name1
    using Cons.IH [OF r] shift by blast
  show ?case
  proof (cases "trim raw = [] \<or> is_comment (trim raw)")
    case True
    then show ?thesis using Cons.prems by (intro skip) (simp add: Let_def)
  next
    case False
    show ?thesis
    proof (cases name)
      case None
      then obtain n where "scan_lines W J (Suc i) (Some n) acc raws = Inr (name', sts)"
        using Cons.prems False by (auto simp: Let_def)
      then show ?thesis by (rule skip)
    next
      case (Some n)
      then obtain client cmd where p: "parse_line W J (Suc i) (trim raw) = Inr (client, cmd)"
        and r: "scan_lines W J (Suc i) name
          (acc @ [\<lparr>st_line = Suc i, st_client = client, st_command = cmd\<rparr>]) raws = Inr (name', sts)"
        using Cons.prems False by (auto simp: Let_def)
      let ?st = "\<lparr>st_line = Suc i, st_client = client, st_command = cmd\<rparr>"
      from Cons.IH [OF r] obtain new where new: "sts = acc @ ?st # new"
        "sorted_wrt (<) (map st_line new)" "list_all (from_line W J raws (Suc i)) new"
        by auto
      have "from_line W J (raw # raws) i ?st" using p by (simp add: from_line_def)
      moreover have "sorted_wrt (<) (map st_line (?st # new))"
        using new(2,3) by (auto simp: from_line_def list_all_iff)
      ultimately show ?thesis
        using new(1) shift [OF new(3)] by (intro exI [of _ "?st # new"]) simp
    qed
  qed
qed simp

lemma parse_header_no_panic: "parse_header W l s \<noteq> Inl Panicked"
proof -
  have "outcome (header_p W s) \<noteq> Panics"
    by (simp add: header_p_def ident_p_def literal space1 take_while opt span1_def split: option.split)
  then show ?thesis
    by (auto simp: parse_header_def outcome_def split: sum.splits perr.splits prod.splits if_splits)
qed

lemma scan_lines_panic:
  "scan_lines W J i name acc raws = Inl Panicked \<Longrightarrow> \<exists>raw \<in> set raws. has_minutes_overflow (trim raw)"
proof (induction raws arbitrary: i name acc)
  case (Cons raw raws)
  show ?case
  proof (cases "trim raw = [] \<or> is_comment (trim raw)")
    case True
    then show ?thesis using Cons by (auto simp: Let_def)
  next
    case False
    show ?thesis
    proof (cases "parse_line W J (Suc i) (trim raw) = Inl Panicked")
      case True
      then show ?thesis using parse_line_panic by simp
    next
      case no: False
      then show ?thesis
        using Cons False parse_header_no_panic [of "Suc i" "trim raw"]
        by (cases name; cases "parse_line W J (Suc i) (trim raw)"; cases "parse_header W (Suc i) (trim raw)")
          (auto simp: Let_def)
    qed
  qed
qed simp

lemma parse_printed_scenario:
  assumes "ident_ok (sc_name sc)" "list_all (statement_ok J P) (sc_statements sc)"
    and "numbered 2 (sc_statements sc)"
  shows "parse_scenario W J (show_scenario P sc) = Inr sc"
proof -
  let ?h = "''scenario '' @ sc_name sc @ '':''"
  have h: "one_line ?h" "ends_ok ?h"
    using ident_line [OF assms(1)] by (simp_all add: ends_ok_append ends_ok_Cons is_whitespace_def char_code_def)
  then have trim: "trim ?h = ?h" by (simp add: trim_id is_whitespace_def char_code_def)
  have "lines_of (show_scenario P sc) = ?h # map (show_st P) (sc_statements sc)"
    using lines_of_newline [OF h(1)] lines_of_statements [OF assms(2)] strip_cr_id [OF h(2)]
    by (simp add: show_scenario_def)
  moreover have "scan_lines W J 0 None [] (?h # map (show_st P) (sc_statements sc)) =
      Inr (Some (sc_name sc), sc_statements sc)"
    using trim printed_header [OF assms(1), of "Suc 0"] scan_printed [of J P "sc_statements sc" "Suc 0" "sc_name sc" "[]"]
      assms(2,3) by (simp add: Let_def numeral_2_eq_2)
  ultimately show ?thesis by (simp add: parse_scenario_def)
qed


section \<open>Statements outside the printed form\<close>

lemma no_client: "\<not> prefix ''#'' s \<Longrightarrow> outcome (client_prefix_p W s) = Match 1 s"
  by (simp add: client_prefix_p_def opt try_map literal)

lemma parse_line_cases:
  assumes "\<not> prefix ''#'' s"
  shows "outcome (command_p W J s) = Match cmd r \<Longrightarrow>
      parse_line W J n s =
        (if trim r = [] then Inr (1, cmd)
         else Inl (Err (err_parse n (''unexpected trailing input: '' @ rust_debug (trim r)))))"
    and "outcome (command_p W J s) = Panics \<Longrightarrow> parse_line W J n s = Inl Panicked"
proof -
  have st: "outcome (statement_p W J s) = obind (outcome (command_p W J s)) (\<lambda>cmd r. Match (1, cmd) r)"
    using no_client [OF assms] by (simp add: statement_p_def)
  show "parse_line W J n s = (if trim r = [] then Inr (1, cmd)
      else Inl (Err (err_parse n (''unexpected trailing input: '' @ rust_debug (trim r)))))"
    if "outcome (command_p W J s) = Match cmd r"
  proof -
    have "statement_p W J s = Inr ((1, cmd), r)" using that st by (simp flip: outcome_Match_iff)
    then show ?thesis by (simp add: parse_line_def)
  qed
  show "parse_line W J n s = Inl Panicked" if "outcome (command_p W J s) = Panics"
  proof -
    have "statement_p W J s = Inl Panic"
      using that st by (auto simp: outcome_def split: sum.splits perr.splits)
    then show ?thesis by (simp add: parse_line_def)
  qed
qed

lemma command_consume_panics:
  "outcome (consume_cmd_p W (''consume'' @ u)) = Panics \<Longrightarrow>
   outcome (command_p W J (''consume'' @ u)) = Panics"
  by (simp add: command_p_def alt other_keyword)

lemma within_text:
  "stops is_blank u \<Longrightarrow> outcome (within_p W ('' within '' @ u)) =
     (case outcome (duration_p W u) of
        No_Match \<Rightarrow> Match None ('' within '' @ u)
      | Panics \<Rightarrow> Panics
      | Match n r \<Rightarrow> Match (Some n) r)"
  by (simp add: within_p_def opt literal blank_stops is_blank_def split: outcome.split)

lemma consume_text:
  assumes "ident_ok q" "ident_ok v" "stops is_blank u"
  shows "outcome (consume_cmd_p W (''consume '' @ q @ '' -> '' @ v @ '' within '' @ u)) =
     (case outcome (duration_p W u) of
        No_Match \<Rightarrow> Match (Consume q v None) ('' within '' @ u)
      | Panics \<Rightarrow> Panics
      | Match n r \<Rightarrow> Match (Consume q v (Some n)) r)"
  using assms ident_stops_blank [OF assms(1)] ident_stops_blank [OF assms(2)] within_text [OF assms(3)]
  by (simp add: consume_cmd_p_def outcome_alt_lit literal blank_stops is_blank_def ident_append
      split: outcome.split)

lemma duration_text:
  assumes "u = ''ms'' \<or> u = ''s'' \<or> u = ''m''"
  shows "outcome (duration_p W (show_nat k @ u)) =
     (if 2 ^ 64 \<le> k then No_Match
      else if u = ''m'' \<and> 2 ^ 64 \<le> k * 60 then Panics
      else Match (k * (if u = ''ms'' then 1 else if u = ''s'' then 1000 else 60000)) [])"
proof -
  have "stops is_digit u" using assms by (auto simp: is_digit_def char_code_def)
  then have "takeWhile is_digit (show_nat k @ u) = show_nat k" "dropWhile is_digit (show_nat k @ u) = u"
    using show_nat_digits [of k] by (cases u; auto simp: list_all_iff takeWhile_append2 dropWhile_append2)+
  then show ?thesis using assms by (auto simp: outcome_duration Let_def)
qed

lemma queue_opt_none:
  assumes "list_all (\<lambda>k. \<not> prefix (k @ ''='') w) queue_keys"
  shows "outcome (queue_opt_p W w) = No_Match"
proof -
  have q: "queue_keys \<noteq> []" by (simp add: queue_keys_def)
  have "\<not> prefix ''='' (drop (length k) w)" if "k \<in> set queue_keys" "prefix k w" for k
    using assms that by (auto simp: list_all_iff prefix_def)
  then show ?thesis
    unfolding queue_opt_p_def queue_keys_def [symmetric]
    by (auto simp: outcome_alt_lit [OF q] literal find_Some_iff split: option.split)
qed

lemma create_trailing:
  assumes "ident_ok name" "list_all (\<lambda>(k, v). k \<in> set queue_keys \<and> in_i64 v) kvs"
    and "stops is_blank w" "list_all (\<lambda>k. \<not> prefix (k @ ''='') w) queue_keys"
  shows "\<exists>opts. outcome (create_queue_p W (''create queue '' @ name @ show_opts kvs @ '' '' @ w)) =
    Match (CreateQueue name opts) ('' '' @ w)"
proof -
  obtain opts where o: "set_options queue_options_set kvs queue_options_default = Some opts"
    using set_options_queue [OF assms(2) options_default_ok(1)] by blast
  have "outcome (preceded (space1 W) (pmap VOpt (queue_opt_p W)) ('' '' @ w)) = No_Match"
    using assms(3) queue_opt_none [OF assms(4)] by (simp add: blank_stops)
  from queue_opts_append [OF assms(2) _ this]
  have r: "outcome (repeat W 0 (preceded (space1 W) (pmap VOpt (queue_opt_p W))) (show_opts kvs @ '' '' @ w)) =
      Match (map VOpt kvs) ('' '' @ w)"
    by simp
  have "stops ident_char (show_opts kvs @ '' '' @ w)" by (cases kvs) auto
  then show ?thesis
    using assms(1) ident_stops_blank [OF assms(1)] r o
    by (simp add: create_queue_p_def literal blank_stops is_blank_def ident_append comp_def)
qed

lemma create_rejected:
  assumes "ident_ok name" "list_all (\<lambda>(k, v). k \<in> set queue_keys \<and> in_i64 v) kvs"
    and "trim w = w" "w \<noteq> []" "\<not> is_blank (hd w)" "list_all (\<lambda>k. \<not> prefix (k @ ''='') w) queue_keys"
  shows "parse_line W J n (''create queue '' @ name @ show_opts kvs @ '' '' @ w) =
    Inl (Err (err_parse n (''unexpected trailing input: '' @ rust_debug w)))"
proof -
  have "stops is_blank w" using assms(4,5) by (cases w) simp_all
  with create_trailing [OF assms(1,2) _ assms(6)]
  obtain opts where "outcome (create_queue_p W (''create queue '' @ name @ show_opts kvs @ '' '' @ w)) =
      Match (CreateQueue name opts) ('' '' @ w)"
    by blast
  then have "outcome (command_p W J (''create queue '' @ name @ show_opts kvs @ '' '' @ w)) =
      Match (CreateQueue name opts) ('' '' @ w)"
    using command_keyword(1) by simp
  then show ?thesis
    using parse_line_cases(1) assms(3,4) by simp
qed

lemma push_data_none:
  assumes "J (trim (dropWhile is_blank t)) = None"
  shows "outcome (repeat W 0 (push_item_p W J) ('' data '' @ t)) = Match [] ('' data '' @ t)"
proof (rule repeat_none)
  have "span1 (Suc 0) is_blank (CHR '' '' # u) = Match (CHR '' '' # takeWhile is_blank u) (dropWhile is_blank u)" for u
    by (simp add: span1_def)
  then show "outcome (push_item_p W J ('' data '' @ t)) = No_Match"
    using assms by (simp add: push_item_p_def message_clause_p_def data_clause_p_def alt literal
        blank_stops is_blank_def space1 json_value_p_def try_map rest_of_line_p_def send_opt_p_def outcome_alt_lit)
qed

lemma push_data_text:
  assumes "ident_ok q"
  shows "outcome (push_cmd_p W J (''push '' @ q @ '' data '' @ t)) =
    (case J (trim (dropWhile is_blank t)) of
       Some v \<Rightarrow> Match (Push q v send_options_default) []
     | None \<Rightarrow> Match (Push q (JObj []) send_options_default) ('' data '' @ t))"
  using assms ident_stops_blank [OF assms] push_data_none [of J t] push_data_item [of J t]
  by (simp add: push_cmd_p_def outcome_alt_lit literal blank_stops ident_append split: option.split)

lemma parse_consume_within:
  assumes "ident_ok q" "ident_ok v" "u = ''ms'' \<or> u = ''s'' \<or> u = ''m''"
  shows "parse_line W J n (''consume '' @ q @ '' -> '' @ v @ '' within '' @ show_nat k @ u) =
     (if 2 ^ 64 \<le> k
      then Inl (Err (err_parse n (''unexpected trailing input: '' @ rust_debug (trim (''within '' @ show_nat k @ u)))))
      else if u = ''m'' \<and> 2 ^ 64 \<le> k * 60 then Inl Panicked
      else Inr (1, Consume q v (Some (k * (if u = ''ms'' then 1 else if u = ''s'' then 1000 else 60000)))))"
proof -
  let ?t = "''consume '' @ q @ '' -> '' @ v @ '' within '' @ show_nat k @ u"
  have b: "stops is_blank (show_nat k @ u)" by (rule ident_stops_blank [OF show_nat_ident])
  have c: "outcome (consume_cmd_p W ?t) =
     (if 2 ^ 64 \<le> k then Match (Consume q v None) ('' within '' @ show_nat k @ u)
      else if u = ''m'' \<and> 2 ^ 64 \<le> k * 60 then Panics
      else Match (Consume q v (Some (k * (if u = ''ms'' then 1 else if u = ''s'' then 1000 else 60000)))) [])"
    unfolding consume_text [OF assms(1,2) b] duration_text [OF assms(3)] by simp
  have trim: "trim ('' within '' @ s) = trim (''within '' @ s)" "trim [] = []" for s
    by (simp_all add: trim_def)
  have "trim (''within '' @ show_nat k @ u) \<noteq> []"
    by (simp add: trim_def is_whitespace_def char_code_def)
  moreover have "\<not> prefix ''#'' ?t" by simp
  ultimately show ?thesis
    using c command_keyword(6) [where u = "'' '' @ q @ '' -> '' @ v @ '' within '' @ show_nat k @ u"]
      command_consume_panics [of "'' '' @ q @ '' -> '' @ v @ '' within '' @ show_nat k @ u" J]
      parse_line_cases [of ?t J] trim
    by (auto simp del: outcome_pbind)
qed

end

lemma dropWhile_imp: "(\<And>c. f c \<Longrightarrow> g c) \<Longrightarrow> dropWhile g (dropWhile f s) = dropWhile g s"
  by (induction s) auto

lemma trim_drop_blanks: "trim (dropWhile is_blank t) = trim t"
proof -
  have "is_blank c \<Longrightarrow> is_whitespace c" for c
    by (auto simp: is_blank_def is_whitespace_def char_code_def)
  then show ?thesis unfolding trim_def by (simp add: dropWhile_imp)
qed

end
