(* ===== verification/Dsl_Props.thy ===== *)
theory Dsl_Props
  imports Scenario_Print Control_Props
begin

text \<open>
  The properties of the test DSL: src/dsltest/src/parser.rs against its printer, its failures,
  and what its options mean to the functions of the extension they are sent to.
\<close>

lemma grammar_lib: "winnow_lib W \<Longrightarrow> grammar W"
  by (rule grammar.intro)

section \<open>An example\<close>

text \<open>A stand-in for \<open>serde_json\<close> that reads one value only.\<close>

definition reads_only :: "string \<Rightarrow> json \<Rightarrow> serde" where
  "reads_only t v s = (if s = t then Some v else None)"

definition hi :: json where
  "hi = JStr ''hi''"

abbreviation J_hi :: serde where
  "J_hi \<equiv> reads_only (jsonb_out hi) hi"

lemma hi_ok: "json_ok J_hi jsonb_out hi"
  by (simp add: json_ok_def reads_only_def hi_def jsonb_quote_def jsonb_escape_char_def char_code_def
      trim_def is_whitespace_def)

definition demo :: scenario where
  "demo = \<lparr>sc_name = ''demo'',
     sc_statements =
      [\<lparr>st_line = 2, st_client = 1, st_command = CreateQueue ''orders'' queue_options_default\<rparr>,
       \<lparr>st_line = 3, st_client = 2,
        st_command = Push ''orders'' hi (send_options_default\<lparr>so_priority := Some 5\<rparr>)\<rparr>,
       \<lparr>st_line = 4, st_client = 1, st_command = Consume ''orders'' ''m1'' (Some 500)\<rparr>]\<rparr>"

lemma ident_examples: "ident_ok ''demo''" "ident_ok ''orders''" "ident_ok ''m1''"
  by (simp_all add: ident_ok_def ident_char_def is_alphanumeric_def Let_def char_code_def)

lemma demo_ok: "list_all (statement_ok J_hi jsonb_out) (sc_statements demo)"
  using hi_ok ident_examples options_default_ok
  by (simp add: demo_def statement_ok_def duration_ok_def millis_ok_def send_options_ok_def
      send_options_default_def in_i64_def)

section \<open>Round trip\<close>

text \<open>
  C14: reading back. A scenario whose statements are well formed (identifiers of identifier
  characters, 64-bit option values, durations that fit, JSON values that \<open>serde_json\<close> reads
  back) and numbered by their lines is printed to a text from which \<open>parse_scenario\<close> returns
  exactly that scenario.
\<close>

theorem scenario_round_trip:
  assumes "winnow_lib W"
    and "ident_ok (sc_name sc)" "list_all (statement_ok J P) (sc_statements sc)"
    and "numbered 2 (sc_statements sc)"
  shows "parse_scenario W J (show_scenario P sc) = Inr sc"
  using assms by (intro grammar.parse_printed_scenario grammar_lib)

theorem scenario_round_trip_witness:
  "parse_scenario winnow_ref J_hi (show_scenario jsonb_out demo) = Inr demo"
  by (rule scenario_round_trip [OF ref.winnow_lib_axioms _ demo_ok])
    (simp_all add: demo_def ident_examples)

section \<open>Soundness of the parser\<close>

text \<open>
  C24: what a parsed scenario holds. Its statements come in the order of their lines, each is what
  \<open>parse_line\<close> makes of the trimmed text of its own line, its client number fits 32 bits, and its
  command is well formed: identifiers are not empty, integers fit 64 bits, a state is one of the
  six states of a job, a list of variables is not empty.
\<close>

theorem parse_scenario_sound:
  assumes "winnow_lib W" "parse_scenario W J src = Inr sc"
  shows "sorted_wrt (<) (map st_line (sc_statements sc)) \<and>
    (\<forall>st \<in> set (sc_statements sc).
       0 < st_line st \<and> st_line st \<le> length (lines_of src) \<and>
       parse_line W J (st_line st) (trim (lines_of src ! (st_line st - 1))) = Inr (st_client st, st_command st) \<and>
       st_client st < 2 ^ 32 \<and> command_ok (st_command st))"
proof -
  from assms(2) obtain name where
    "scan_lines W J 0 None [] (lines_of src) = Inr (name, sc_statements sc)"
    by (auto simp: parse_scenario_def split: option.splits)
  from grammar.scan_lines_sound [OF grammar_lib [OF assms(1)] this]
  have s: "sorted_wrt (<) (map st_line (sc_statements sc))"
    "list_all (from_line W J (lines_of src) 0) (sc_statements sc)"
    by auto
  then show ?thesis
    using grammar.parse_line_ok [OF grammar_lib [OF assms(1)]]
    by (fastforce simp: list_all_iff from_line_def)
qed

theorem parse_scenario_sound_witness:
  "sorted_wrt (<) (map st_line (sc_statements demo)) \<and> 4 \<le> length (lines_of (show_scenario jsonb_out demo))"
proof -
  have p: "parse_scenario winnow_ref J_hi (show_scenario jsonb_out demo) = Inr demo"
    using grammar.parse_printed_scenario [OF ref_grammar.grammar_axioms _ demo_ok]
    by (simp add: demo_def ident_examples)
  show ?thesis
    using parse_scenario_sound [OF ref.winnow_lib_axioms p] by (simp add: demo_def)
qed

text \<open>
  C35: when the parser panics. \<open>parse_scenario\<close> panics only on a file with a line that holds a
  number of minutes \<open>n\<close>, followed by \<open>m\<close>, with \<open>n * 60\<close> over 64 bits. In particular the
  \<open>unreachable!\<close> of \<open>QueueOptions::set\<close> and \<open>SendOptions::set\<close> is never reached.
\<close>

theorem parser_panics_only_on_minutes:
  assumes "winnow_lib W" "parse_scenario W J src = Inl Panicked"
  shows "list_ex (\<lambda>raw. has_minutes_overflow (trim raw)) (lines_of src)"
proof -
  have "scan_lines W J 0 None [] (lines_of src) = Inl Panicked"
    using assms(2) by (auto simp: parse_scenario_def rbind_def split: sum.splits prod.splits option.splits)
  then show ?thesis
    using grammar.scan_lines_panic [OF grammar_lib [OF assms(1)]] by (fastforce simp: list_ex_iff)
qed

definition late :: string where
  "late = ''consume q -> v within '' @ show_nat 400000000000000000 @ ''m''"

lemma late_panics: "winnow_lib W \<Longrightarrow> parse_line W J n late = Inl Panicked"
  using grammar.parse_consume_within [OF grammar_lib, of W "''q''" "''v''" "''m''" J n 400000000000000000]
  by (simp add: late_def ident_ok_def ident_char_def is_alphanumeric_def Let_def char_code_def)

lemma late_line: "one_line late" "trim late = late" "late \<noteq> []" "\<not> is_comment late"
proof -
  have "one_line late" "ends_ok late"
    using ident_line [OF show_nat_ident] by (simp_all add: late_def ends_ok_append ends_ok_Cons is_whitespace_def char_code_def)
  then show "one_line late" "trim late = late" "late \<noteq> []" "\<not> is_comment late"
    by (simp_all add: late_def trim_id is_whitespace_def char_code_def)
qed

theorem parser_panics_only_on_minutes_witness:
  "list_ex (\<lambda>raw. has_minutes_overflow (trim raw)) (lines_of (''scenario demo:'' @ CHR 0x0A # late))"
proof (rule parser_panics_only_on_minutes [OF ref.winnow_lib_axioms])
  let ?h = "''scenario demo:''"
  have h: "strip_cr ?h = ?h" "trim ?h = ?h" "\<not> is_comment ?h" "one_line ?h"
    by (simp_all add: strip_cr_def trim_def is_whitespace_def char_code_def)
  have n: "parse_header winnow_ref (Suc 0) ?h = Inr ''demo''"
    using grammar.printed_header [OF ref_grammar.grammar_axioms ident_examples(1)] by simp
  have l: "lines_of (?h @ CHR 0x0A # late) = [?h, late]"
    using lines_of_newline [OF h(4)] lines_of_last [OF late_line(1,3)] h(1) by simp
  show "parse_scenario winnow_ref (\<lambda>s. None) (?h @ CHR 0x0A # late) = Inl Panicked"
    unfolding parse_scenario_def l
    using h n late_line late_panics [OF ref.winnow_lib_axioms] by (simp add: Let_def)
qed

section \<open>Failures and limits\<close>

text \<open>
  C37: an unknown option. When the options of a \<open>create queue\<close> are followed by a word that starts
  with none of the four known keys and \<open>=\<close>, the line is rejected with its number, and the
  message quotes the text from that word on.
\<close>

theorem unknown_option_rejected:
  assumes "winnow_lib W" "ident_ok name"
    and "list_all (\<lambda>(k, v). k \<in> set queue_keys \<and> in_i64 v) kvs"
    and "trim w = w" "w \<noteq> []" "\<not> is_blank (hd w)"
    and "list_all (\<lambda>k. \<not> prefix (k @ ''='') w) queue_keys"
  shows "parse_line W J n (''create queue '' @ name @ show_opts kvs @ '' '' @ w) =
    Inl (Err (err_parse n (''unexpected trailing input: '' @ rust_debug w)))"
  by (rule grammar.create_rejected [OF grammar_lib [OF assms(1)] assms(2-7)])

theorem unknown_option_rejected_witness:
  "parse_line winnow_ref J_hi 2 (''create queue orders'' @ show_opts [(''retryLimit'', 3)] @ '' capacity=100'') =
     Inl (Err (err_parse 2 (''unexpected trailing input: '' @ rust_debug ''capacity=100'')))"
  using unknown_option_rejected [OF ref.winnow_lib_axioms ident_examples(2),
      of "[(''retryLimit'', 3)]" "''capacity=100''" J_hi 2]
  by (simp add: queue_keys_def in_i64_def trim_def is_whitespace_def char_code_def is_blank_def)

text \<open>
  C38: \<open>data\<close> takes the rest of the line. What follows \<open>data\<close> in a \<open>push\<close> is never read as an
  option: it is either one JSON value, and then the job has default options, or the line is
  rejected, with a message that quotes the text from \<open>data\<close> on.
\<close>

theorem push_data_takes_rest:
  assumes "winnow_lib W" "ident_ok q"
  shows "parse_line W J n (''push '' @ q @ '' data '' @ t) =
    (case J (trim t) of
       Some v \<Rightarrow> Inr (1, Push q v send_options_default)
     | None \<Rightarrow> Inl (Err (err_parse n (''unexpected trailing input: '' @ rust_debug (trim (''data '' @ t))))))"
proof -
  let ?t = "''push '' @ q @ '' data '' @ t"
  note g = grammar_lib [OF assms(1)]
  have "outcome (push_cmd_p W J ?t) = (case J (trim t) of
       Some v \<Rightarrow> Match (Push q v send_options_default) []
     | None \<Rightarrow> Match (Push q (JObj []) send_options_default) ('' data '' @ t))"
    using grammar.push_data_text [OF g assms(2), of J t] unfolding trim_drop_blanks .
  then have "outcome (command_p W J ?t) = (case J (trim t) of
       Some v \<Rightarrow> Match (Push q v send_options_default) []
     | None \<Rightarrow> Match (Push q (JObj []) send_options_default) ('' data '' @ t))"
    using grammar.command_keyword(4) [OF g, of J "'' '' @ q @ '' data '' @ t"]
    by (auto split: option.splits)
  moreover have "trim (''data '' @ t) \<noteq> []" "trim [] = []"
    by (simp_all add: trim_def is_whitespace_def char_code_def)
  ultimately show ?thesis
    using grammar.parse_line_cases(1) [OF g, of ?t J] by (auto split: option.splits)
qed

theorem push_data_takes_rest_witness:
  "parse_line winnow_ref J_hi 3 (''push orders data '' @ jsonb_out hi) =
     Inr (1, Push ''orders'' hi send_options_default) \<and>
   parse_line winnow_ref J_hi 3 (''push orders data '' @ jsonb_out hi @ '' priority=5'') =
     Inl (Err (err_parse 3 (''unexpected trailing input: '' @
       rust_debug (trim (''data '' @ jsonb_out hi @ '' priority=5'')))))"
proof -
  have "trim (jsonb_out hi) = jsonb_out hi" "J_hi (jsonb_out hi) = Some hi"
    "J_hi (trim (jsonb_out hi @ '' priority=5'')) = None"
    by (simp_all add: reads_only_def hi_def jsonb_quote_def jsonb_escape_char_def char_code_def trim_def
        is_whitespace_def)
  then show ?thesis
    using push_data_takes_rest [OF ref.winnow_lib_axioms ident_examples(2), of J_hi 3 "jsonb_out hi"]
      push_data_takes_rest [OF ref.winnow_lib_axioms ident_examples(2), of J_hi 3 "jsonb_out hi @ '' priority=5''"]
    by simp
qed

text \<open>
  C36: durations. For a number \<open>k\<close> and each of the units, \<open>consume .. within\<close> waits exactly \<open>k\<close>
  milliseconds, seconds or minutes when \<open>k\<close> fits 64 bits, but the parser panics for a number of
  minutes that does not fit when read in seconds; a \<open>k\<close> over 64 bits is trailing input.
\<close>

theorem duration_exact:
  assumes "winnow_lib W" "ident_ok q" "ident_ok v" "u \<in> {''ms'', ''s'', ''m''}"
  shows "parse_line W J n (''consume '' @ q @ '' -> '' @ v @ '' within '' @ show_nat k @ u) =
     (if 2 ^ 64 \<le> k
      then Inl (Err (err_parse n (''unexpected trailing input: '' @ rust_debug (''within '' @ show_nat k @ u))))
      else if u = ''m'' \<and> 2 ^ 64 \<le> k * 60 then Inl Panicked
      else Inr (1, Consume q v (Some (k * (if u = ''ms'' then 1 else if u = ''s'' then 1000 else 60000)))))"
proof -
  have "ends_ok (''within '' @ show_nat k @ u)"
    using assms(4) by (auto simp: ends_ok_append ends_ok_Cons is_whitespace_def char_code_def)
  then have "trim (''within '' @ show_nat k @ u) = ''within '' @ show_nat k @ u"
    by (simp add: trim_id is_whitespace_def char_code_def)
  then show ?thesis
    using grammar.parse_consume_within [OF grammar_lib [OF assms(1)] assms(2,3), of u J n k] assms(4) by auto
qed

theorem duration_exact_witness:
  "parse_line winnow_ref J_hi 4 (''consume orders -> m1 within '' @ show_nat 2 @ ''m'') =
     Inr (1, Consume ''orders'' ''m1'' (Some 120000)) \<and>
   parse_line winnow_ref J_hi 4 (''consume orders -> m1 within '' @ show_nat 400000000000000000 @ ''m'') =
     Inl Panicked"
  using duration_exact [OF ref.winnow_lib_axioms ident_examples(2,3), of "''m''" J_hi 4 2]
    duration_exact [OF ref.winnow_lib_axioms ident_examples(2,3), of "''m''" J_hi 4 400000000000000000]
  by simp

section \<open>The options at the extension\<close>

definition given :: "int option \<Rightarrow> int \<Rightarrow> int" where
  "given v dflt = (case v of None \<Rightarrow> dflt | Some n \<Rightarrow> n)"

lemma queue_options_json_get:
  "json_get (queue_options_to_json opts) ''retryLimit'' = map_option (\<lambda>n. JNum n 0) (qo_retry_limit opts)"
  "json_get (queue_options_to_json opts) ''retryDelay'' = map_option (\<lambda>n. JNum n 0) (qo_retry_delay opts)"
  "json_get (queue_options_to_json opts) ''expireInSeconds'' = map_option (\<lambda>n. JNum n 0) (qo_expire_in_seconds opts)"
  "json_get (queue_options_to_json opts) ''retentionSeconds'' = map_option (\<lambda>n. JNum n 0) (qo_retention_seconds opts)"
  by (auto simp: queue_options_to_json_def put_get)

lemma send_options_json_get:
  "json_get (send_options_to_json opts) ''priority'' = map_option (\<lambda>n. JNum n 0) (so_priority opts)"
  "json_get (send_options_to_json opts) ''startAfter'' = map_option (\<lambda>n. JNum n 0) (so_start_after opts)"
  "json_get (send_options_to_json opts) ''retryLimit'' = map_option (\<lambda>n. JNum n 0) (so_retry_limit opts)"
  "json_get (send_options_to_json opts) ''retryDelay'' = map_option (\<lambda>n. JNum n 0) (so_retry_delay opts)"
  "json_get (send_options_to_json opts) ''expireInSeconds'' = map_option (\<lambda>n. JNum n 0) (so_expire_in_seconds opts)"
  by (auto simp: send_options_to_json_def put_get)

lemma opt_i32_given:
  "json_get v k = map_option (\<lambda>n. JNum n 0) x \<Longrightarrow> opt_i64 x \<Longrightarrow>
   opt_i32 v k dflt = (case x of None \<Rightarrow> dflt | Some n \<Rightarrow> as_i32 n)"
  by (cases x) (simp_all add: opt_i32_def)

lemma int_option_given:
  "json_get v k = map_option (\<lambda>n. JNum n 0) x \<Longrightarrow> int_option v k dflt = given x dflt"
  by (cases x) (simp_all add: int_option_def given_def)

lemma int_or_absent_given:
  "json_get v k = map_option (\<lambda>n. JNum n 0) x \<Longrightarrow> int_or_absent v k \<longleftrightarrow> in_int4 (given x 0)"
  by (cases x) (simp_all add: int_or_absent_def given_def in_int4_def)

text \<open>
  C34: the options of a \<open>create queue\<close> statement. On a database without that queue, sending them as
  JSON to \<open>boss.create_queue\<close> registers the queue with each given value reduced to 32 bits, and
  with the documented default (2 retries, no delay, 900 seconds, 14 days = 1209600 seconds) for each option left out.
\<close>

theorem dsl_queue_options:
  assumes "name \<notin> q_name ` set (queues d)" "queue_options_ok opts"
  shows "create_queue now name (queue_options_to_json opts) d =
    (True, d\<lparr>queues := queues d @
      [\<lparr>q_name = name,
        q_retry_limit = (case qo_retry_limit opts of None \<Rightarrow> 2 | Some v \<Rightarrow> as_i32 v),
        q_retry_delay = (case qo_retry_delay opts of None \<Rightarrow> 0 | Some v \<Rightarrow> as_i32 v),
        q_expire_seconds = (case qo_expire_in_seconds opts of None \<Rightarrow> 900 | Some v \<Rightarrow> as_i32 v),
        q_retention_seconds = (case qo_retention_seconds opts of None \<Rightarrow> 1209600 | Some v \<Rightarrow> as_i32 v),
        q_created_on = now\<rparr>]\<rparr>)"
  using assms opt_i32_given [OF queue_options_json_get(1)] opt_i32_given [OF queue_options_json_get(2)]
    opt_i32_given [OF queue_options_json_get(3)] opt_i32_given [OF queue_options_json_get(4)]
  by (simp add: create_queue_def insert_queue_def queue_options_ok_def)

theorem dsl_queue_options_witness:
  "map q_retry_limit (queues (snd (create_queue 5 ''mail''
     (queue_options_to_json (queue_options_default\<lparr>qo_retry_limit := Some 7\<rparr>)) (orders_db [])))) = [2, 7]"
  using dsl_queue_options [of "''mail''" "orders_db []" "queue_options_default\<lparr>qo_retry_limit := Some 7\<rparr>" 5]
  by (simp add: queue_options_ok_def queue_options_default_def in_i64_def orders_db_def orders_def
      as_i32_id in_int4_def)

text \<open>
  C33: the options of a \<open>push\<close> statement. When the given values fit 32 bits, the start is not
  negative and the channel is valid, sending them as JSON to \<open>boss.send\<close> enqueues the job with each
  given value, with the queue's default for each retry and expiry option left out, with priority 0
  and an immediate start otherwise.
\<close>

theorem dsl_send_options:
  assumes "db_inv d" "q \<in> set (queues d)" "new_id \<notin> ids d"
    and "utf8_len (channel P (q_name q)) \<in> {1..63}"
    and "\<forall>v \<in> {so_priority opts, so_start_after opts, so_retry_limit opts, so_retry_delay opts,
      so_expire_in_seconds opts}. in_int4 (given v 0)"
    and "0 \<le> given (so_start_after opts) 0"
  shows "send P now new_id (q_name q) (Some data) (Some (send_options_to_json opts)) d = Inr (new_id,
    d\<lparr>jobs := jobs d @
        [\<lparr>j_id = new_id, j_name = q_name q, j_priority = given (so_priority opts) 0,
          j_data = Some data, j_state = Created,
          j_retry_limit = given (so_retry_limit opts) (q_retry_limit q), j_retry_count = 0,
          j_retry_delay = given (so_retry_delay opts) (q_retry_delay q),
          j_expire_seconds = given (so_expire_in_seconds opts) (q_expire_seconds q),
          j_start_after = now + seconds (given (so_start_after opts) 0), j_created_on = now,
          j_started_on = None, j_completed_on = None,
          j_keep_until = now + seconds (q_retention_seconds q), j_output = None\<rparr>],
      notifies := notifies d @ [(channel P (q_name q), uuid_out new_id)]\<rparr>)"
proof -
  note got = int_option_given [OF send_options_json_get(1)] int_option_given [OF send_options_json_get(2)]
    int_option_given [OF send_options_json_get(3)] int_option_given [OF send_options_json_get(4)]
    int_option_given [OF send_options_json_get(5)]
  have "int_options (send_options_to_json opts)"
    using assms(5,6) int_or_absent_given [OF send_options_json_get(1)] int_or_absent_given [OF send_options_json_get(2)]
      int_or_absent_given [OF send_options_json_get(3)] int_or_absent_given [OF send_options_json_get(4)]
      int_or_absent_given [OF send_options_json_get(5)]
    by (simp add: int_options_def got)
  then show ?thesis
    using assms(4) by (simp add: send_int_options [OF assms(1-3)] pg_notify_def sent_job_def got)
qed

theorem dsl_send_options_witness:
  "\<exists>d'. send pg0 5 7 ''orders'' (Some hi) (Some (send_options_to_json
       (send_options_default\<lparr>so_priority := Some 5\<rparr>))) (orders_db []) = Inr (7, d') \<and>
     map j_priority (jobs d') = [5] \<and> map j_retry_limit (jobs d') = [2]"
proof -
  have "db_inv (orders_db [])" "orders \<in> set (queues (orders_db []))" "7 \<notin> ids (orders_db [])"
    by (simp_all add: example_inv) (simp_all add: orders_db_def ids_def)
  moreover have "utf8_len (channel pg0 (q_name orders)) \<in> {1..63}"
    by (simp add: channel_def is_ascii_def char_code_def orders_def)
  ultimately show ?thesis
    using dsl_send_options [of "orders_db []" orders 7 pg0 "send_options_default\<lparr>so_priority := Some 5\<rparr>" 5 hi]
    by (simp add: given_def send_options_default_def in_int4_def orders_def orders_db_def)
qed

end
