(* ===== verification/Dsl_Runner.thy ===== *)
theory Dsl_Runner
  imports Dsl_Ast Dsl_Error "HOL-Library.While_Combinator"
begin

text \<open>
  The runner of the test DSL, src/dsltest/src/runner.rs. The \<open>postgres\<close> client library, the
  clock and the threads of the operating system are the record \<open>server\<close> of parameters; \<open>sql\<close> lists
  the statements the runner sends and \<open>sql_reply\<close> the values it reads from their rows.

  Concurrency. A thread of \<open>spawn consume\<close> is a state machine whose steps are its calls to the
  server. A schedule says which threads take steps before each call of the foreground; every
  theorem holds for every schedule. A loop that never ends is the value \<open>None\<close>.
\<close>

section \<open>Actions\<close>

type_synonym ('s, 'a) tact = "'s \<Rightarrow> (failure + 'a) \<times> 's"
type_synonym ('s, 'a) act = "'s \<Rightarrow> ((failure + 'a) \<times> 's) option"

definition tret :: "'a \<Rightarrow> ('s, 'a) tact" where
  "tret a s = (Inr a, s)"

definition tfail :: "failure \<Rightarrow> ('s, 'a) tact" where
  "tfail e s = (Inl e, s)"

definition tbind :: "('s, 'a) tact \<Rightarrow> ('a \<Rightarrow> ('s, 'b) tact) \<Rightarrow> ('s, 'b) tact" where
  "tbind p f s = (case p s of (Inl e, s') \<Rightarrow> (Inl e, s') | (Inr a, s') \<Rightarrow> f a s')"

definition lift :: "('s, 'a) tact \<Rightarrow> ('s, 'a) act" where
  "lift p s = Some (p s)"

definition abind :: "('s, 'a) act \<Rightarrow> ('a \<Rightarrow> ('s, 'b) act) \<Rightarrow> ('s, 'b) act" where
  "abind p f s = (case p s of
     None \<Rightarrow> None | Some (Inl e, s') \<Rightarrow> Some (Inl e, s') | Some (Inr a, s') \<Rightarrow> f a s')"

text \<open>\<open>loop { .. }\<close>: the body gives the next state of the loop, or its result.\<close>

definition loop :: "('x \<Rightarrow> ('s, 'x + 'a) tact) \<Rightarrow> 'x \<Rightarrow> ('s, 'a) act" where
  "loop body x s =
     map_option (\<lambda>(r, s'). (case r of Inl e \<Rightarrow> Inl e | Inr (Inl _) \<Rightarrow> Inl Panicked | Inr (Inr a) \<Rightarrow> Inr a, s'))
       (while_option (\<lambda>(r, s'). case r of Inr (Inl _) \<Rightarrow> True | _ \<Rightarrow> False)
         (\<lambda>(r, s'). case r of Inr (Inl y) \<Rightarrow> body y s' | _ \<Rightarrow> (r, s')) (Inr (Inl x), s))"

section \<open>The server\<close>

datatype sql =
    Q_Extension
  | Q_Create_Queue string json
  | Q_Delete_Queue string
  | Q_Maintain
  | Q_Send string json json
  | Q_Fetch string
  | Q_Complete string string json
  | Q_Fail string string json
  | Q_Count string
  | Q_State string string
  | Q_Data string string
  | Q_Channel string
  | Q_Listen string

datatype sql_reply =
    A_None
  | A_Bool bool
  | A_Int int
  | A_Text string
  | A_Texts "string list"
  | A_Text_Opt "string option"
  | A_Data "json option option"

text \<open>
  Times are microseconds. \<open>srv_wait\<close> is one \<open>next\<close> of \<open>timeout_iter\<close>, \<open>srv_instant_max\<close> the last
  representable instant, \<open>srv_drain\<close> the order in which a map is drained, and \<open>srv_json\<close> the
  text of a JSON value.
\<close>

record 'w server =
  srv_connect :: "string \<Rightarrow> 'w \<Rightarrow> (string + nat) \<times> 'w"
  srv_query :: "nat \<Rightarrow> sql \<Rightarrow> 'w \<Rightarrow> (string + sql_reply) \<times> 'w"
  srv_wait :: "nat \<Rightarrow> int \<Rightarrow> 'w \<Rightarrow> (string + unit) \<times> 'w"
  srv_now :: "'w \<Rightarrow> int \<times> 'w"
  srv_sleep :: "int \<Rightarrow> 'w \<Rightarrow> 'w"
  srv_instant_max :: int
  srv_drain :: "(string \<times> nat) list \<Rightarrow> (string \<times> nat) list"
  srv_json :: "json \<Rightarrow> string"

definition db_err :: "string \<Rightarrow> failure" where
  "db_err e = Err (err_db (''db: '' @ e))"

definition query :: "'w server \<Rightarrow> nat \<Rightarrow> sql \<Rightarrow> ('w, sql_reply) tact" where
  "query S c q w = (case srv_query S c q w of (Inl e, w') \<Rightarrow> (Inl (db_err e), w') | (Inr r, w') \<Rightarrow> (Inr r, w'))"

text \<open>\<open>row.get\<close> panics on a value of another type.\<close>

definition get_bool :: "sql_reply \<Rightarrow> ('s, bool) tact" where
  "get_bool r = (case r of A_Bool b \<Rightarrow> tret b | _ \<Rightarrow> tfail Panicked)"

definition get_int :: "sql_reply \<Rightarrow> ('s, int) tact" where
  "get_int r = (case r of A_Int n \<Rightarrow> tret n | _ \<Rightarrow> tfail Panicked)"

definition get_text :: "sql_reply \<Rightarrow> ('s, string) tact" where
  "get_text r = (case r of A_Text s \<Rightarrow> tret s | _ \<Rightarrow> tfail Panicked)"

definition get_texts :: "sql_reply \<Rightarrow> ('s, string list) tact" where
  "get_texts r = (case r of A_Texts xs \<Rightarrow> tret xs | _ \<Rightarrow> tfail Panicked)"

definition get_text_opt :: "sql_reply \<Rightarrow> ('s, string option) tact" where
  "get_text_opt r = (case r of A_Text_Opt x \<Rightarrow> tret x | _ \<Rightarrow> tfail Panicked)"

definition get_data :: "sql_reply \<Rightarrow> ('s, json option option) tact" where
  "get_data r = (case r of A_Data x \<Rightarrow> tret x | _ \<Rightarrow> tfail Panicked)"

section \<open>Claiming a job\<close>

record job_handle =
  h_queue :: string
  h_id :: string

datatype var_value = Var_Job job_handle | Var_Empty

definition fetch_one :: "'w server \<Rightarrow> nat \<Rightarrow> string \<Rightarrow> ('w, job_handle option) tact" where
  "fetch_one S c queue =
     tbind (query S c (Q_Fetch queue)) (\<lambda>r. tbind (get_texts r) (\<lambda>rows.
       tret (case rows of [] \<Rightarrow> None | i # _ \<Rightarrow> Some \<lparr>h_queue = queue, h_id = i\<rparr>)))"

definition job_state_of :: "'w server \<Rightarrow> nat \<Rightarrow> job_handle \<Rightarrow> ('w, string option) tact" where
  "job_state_of S c j = tbind (query S c (Q_State (h_queue j) (h_id j))) get_text_opt"

definition channel_name :: "'w server \<Rightarrow> nat \<Rightarrow> string \<Rightarrow> ('w, string) tact" where
  "channel_name S c queue = tbind (query S c (Q_Channel queue)) get_text"

text \<open>The two calls of \<open>connect\<close>.\<close>

definition open_session :: "'w server \<Rightarrow> string \<Rightarrow> ('w, nat) tact" where
  "open_session S dsn w =
     (case srv_connect S dsn w of
        (Inl e, w') \<Rightarrow> (Inl (Err (err_conn (''connect: '' @ e))), w')
      | (Inr c, w') \<Rightarrow> (Inr c, w'))"

definition create_extension :: "'w server \<Rightarrow> nat \<Rightarrow> ('w, unit) tact" where
  "create_extension S c w =
     (case srv_query S c Q_Extension w of
        (Inl e, w') \<Rightarrow> (Inl (Err (err_conn (''create extension: '' @ e))), w')
      | (Inr _, w') \<Rightarrow> (Inr (), w'))"

definition quote_ident :: "string \<Rightarrow> string" where
  "quote_ident ident = [CHR 0x22] @ concat (map (\<lambda>c. if c = CHR 0x22 then [c, c] else [c]) ident) @ [CHR 0x22]"

text \<open>\<open>Instant::now() + within\<close>, which panics when the instant cannot be represented.\<close>

definition deadline_after :: "'w server \<Rightarrow> nat \<Rightarrow> ('w, int) tact" where
  "deadline_after S within w =
     (case srv_now S w of (t, w') \<Rightarrow>
        (let d = t + int within * 1000 in
         (if d \<le> srv_instant_max S then Inr d else Inl Panicked, w')))"

text \<open>
  \<open>consume_wait\<close> as a state machine: one state per call it makes to the server or the clock.
  \<open>CW_Check\<close>, \<open>CW_Wait\<close> and \<open>CW_Fetch\<close> are its loop.
\<close>

datatype cw_pc =
    CW_First
  | CW_Channel
  | CW_Listen string
  | CW_Second
  | CW_Deadline
  | CW_Check int
  | CW_Wait int int
  | CW_Fetch int

definition poll_interval :: int where
  "poll_interval = 50 * 1000"

fun cw_step :: "'w server \<Rightarrow> nat \<Rightarrow> string \<Rightarrow> nat option \<Rightarrow> cw_pc \<Rightarrow> ('w, cw_pc + job_handle option) tact" where
  "cw_step S c queue within CW_First =
     tbind (fetch_one S c queue) (\<lambda>j. case j of
         Some h \<Rightarrow> tret (Inr (Some h))
       | None \<Rightarrow> (case within of None \<Rightarrow> tret (Inr None) | Some _ \<Rightarrow> tret (Inl CW_Channel)))"
| "cw_step S c queue within CW_Channel =
     tbind (channel_name S c queue) (\<lambda>ch. tret (Inl (CW_Listen ch)))"
| "cw_step S c queue within (CW_Listen ch) =
     tbind (query S c (Q_Listen (quote_ident ch))) (\<lambda>_. tret (Inl CW_Second))"
| "cw_step S c queue within CW_Second =
     tbind (fetch_one S c queue) (\<lambda>j. case j of
         Some h \<Rightarrow> tret (Inr (Some h)) | None \<Rightarrow> tret (Inl CW_Deadline))"
| "cw_step S c queue within CW_Deadline =
     (case within of
        None \<Rightarrow> tret (Inr None)
      | Some w \<Rightarrow> tbind (deadline_after S w) (\<lambda>d. tret (Inl (CW_Check d))))"
| "cw_step S c queue within (CW_Check d) =
     (\<lambda>w. case srv_now S w of (t, w') \<Rightarrow>
        (if t \<ge> d then Inr (Inr None) else Inr (Inl (CW_Wait d (min (d - t) poll_interval))), w'))"
| "cw_step S c queue within (CW_Wait d t) =
     (\<lambda>w. case srv_wait S c t w of
        (Inl e, w') \<Rightarrow> (Inl (db_err e), w') | (Inr _, w') \<Rightarrow> (Inr (Inl (CW_Fetch d)), w'))"
| "cw_step S c queue within (CW_Fetch d) =
     tbind (fetch_one S c queue) (\<lambda>j. case j of
         Some h \<Rightarrow> tret (Inr (Some h)) | None \<Rightarrow> tret (Inl (CW_Check d)))"

section \<open>Threads\<close>

datatype thread_pc =
    T_Connect
  | T_Extension nat
  | T_Consume nat cw_pc
  | T_End "(string + job_handle option) option"   \<comment> \<open>\<open>None\<close>: the thread panicked\<close>

record thread =
  th_dsn :: string
  th_queue :: string
  th_within :: "nat option"
  th_pc :: thread_pc

definition thread_step :: "'w server \<Rightarrow> thread \<Rightarrow> 'w \<Rightarrow> thread \<times> 'w" where
  "thread_step S th w =
     (case th_pc th of
        T_Connect \<Rightarrow>
          (case srv_connect S (th_dsn th) w of
             (Inl e, w') \<Rightarrow> (th\<lparr>th_pc := T_End (Some (Inl e))\<rparr>, w')
           | (Inr c, w') \<Rightarrow> (th\<lparr>th_pc := T_Extension c\<rparr>, w'))
      | T_Extension c \<Rightarrow>
          (case srv_query S c Q_Extension w of (_, w') \<Rightarrow> (th\<lparr>th_pc := T_Consume c CW_First\<rparr>, w'))
      | T_Consume c pc \<Rightarrow>
          (case cw_step S c (th_queue th) (th_within th) pc w of
             (Inl (Err e), w') \<Rightarrow> (th\<lparr>th_pc := T_End (Some (Inl (e_msg e)))\<rparr>, w')
           | (Inl Panicked, w') \<Rightarrow> (th\<lparr>th_pc := T_End None\<rparr>, w')
           | (Inr (Inl pc'), w') \<Rightarrow> (th\<lparr>th_pc := T_Consume c pc'\<rparr>, w')
           | (Inr (Inr j), w') \<Rightarrow> (th\<lparr>th_pc := T_End (Some (Inr j))\<rparr>, w'))
      | T_End r \<Rightarrow> (th, w))"

section \<open>The runner\<close>

record runner =
  r_dsn :: string
  r_clients :: "nat \<Rightarrow> nat option"
  r_vars :: "string \<Rightarrow> var_value option"
  r_pending :: "(string \<times> nat) list"

definition runner_new :: "string \<Rightarrow> runner" where
  "runner_new dsn = \<lparr>r_dsn = dsn, r_clients = Map.empty, r_vars = Map.empty, r_pending = []\<rparr>"

text \<open>The runner with its threads (a join handle is an index), the schedule and the server's world.\<close>

record 'w sys =
  runner_of :: runner
  threads :: "thread list"
  schedule :: "nat list list"
  world :: 'w

definition step_thread :: "'w server \<Rightarrow> nat \<Rightarrow> 'w sys \<Rightarrow> 'w sys" where
  "step_thread S i s =
     (if i < length (threads s) then
        (case thread_step S (threads s ! i) (world s) of (th, w) \<Rightarrow>
           s\<lparr>threads := (threads s)[i := th], world := w\<rparr>)
      else s)"

text \<open>What the threads do before the next call of the foreground.\<close>

definition background :: "'w server \<Rightarrow> 'w sys \<Rightarrow> 'w sys" where
  "background S s =
     (case schedule s of
        [] \<Rightarrow> s
      | is # rest \<Rightarrow> fold (step_thread S) is (s\<lparr>schedule := rest\<rparr>))"

definition call :: "'w server \<Rightarrow> ('w, 'a) tact \<Rightarrow> ('w sys, 'a) tact" where
  "call S p s = (let s1 = background S s in case p (world s1) of (r, w) \<Rightarrow> (r, s1\<lparr>world := w\<rparr>))"

definition on_runner :: "(runner \<Rightarrow> runner) \<Rightarrow> ('w sys, unit) tact" where
  "on_runner f s = (Inr (), s\<lparr>runner_of := f (runner_of s)\<rparr>)"

definition connect :: "'w server \<Rightarrow> string \<Rightarrow> ('w sys, nat) tact" where
  "connect S dsn =
     tbind (call S (open_session S dsn)) (\<lambda>c. tbind (call S (create_extension S c)) (\<lambda>_. tret c))"

definition client_for :: "'w server \<Rightarrow> nat \<Rightarrow> ('w sys, nat) tact" where
  "client_for S n s =
     (case r_clients (runner_of s) n of
        Some c \<Rightarrow> (Inr c, s)
      | None \<Rightarrow>
          tbind (connect S (r_dsn (runner_of s))) (\<lambda>c.
          tbind (on_runner (\<lambda>r. r\<lparr>r_clients := (r_clients r)(n \<mapsto> c)\<rparr>)) (\<lambda>_. tret c)) s)"

definition the_job :: "string \<Rightarrow> nat \<Rightarrow> ('w sys, job_handle) tact" where
  "the_job var line s =
     (case r_vars (runner_of s) var of
        Some (Var_Job j) \<Rightarrow> (Inr j, s)
      | Some Var_Empty \<Rightarrow> (Inl (Err (err_runtime line (var @ '' is empty (no job was claimed)''))), s)
      | None \<Rightarrow> (Inl (Err (err_runtime line (var @ '' is not bound''))), s))"

definition pending_count :: "'w server \<Rightarrow> nat \<Rightarrow> string \<Rightarrow> ('w sys, int) tact" where
  "pending_count S client queue =
     tbind (client_for S client) (\<lambda>c. tbind (call S (query S c (Q_Count queue))) get_int)"

definition consume_wait :: "'w server \<Rightarrow> nat \<Rightarrow> string \<Rightarrow> nat option \<Rightarrow> ('w sys, job_handle option) act" where
  "consume_wait S c queue within = loop (\<lambda>pc. call S (cw_step S c queue within pc)) CW_First"

text \<open>\<open>handle.join()\<close>: the thread runs until it ends; \<open>None\<close> when it panicked.\<close>

definition join :: "'w server \<Rightarrow> nat \<Rightarrow> ('w sys, (string + job_handle option) option) act" where
  "join S i = loop (\<lambda>_ s.
     (let s1 = background S s in
      if i < length (threads s1) then
        (case th_pc (threads s1 ! i) of
           T_End r \<Rightarrow> (Inr (Inr r), s1)
         | _ \<Rightarrow> (Inr (Inl ()), step_thread S i s1))
      else (Inr (Inr None), s1))) ()"

definition assert_that :: "bool \<Rightarrow> nat \<Rightarrow> string \<Rightarrow> ('s, unit) tact" where
  "assert_that ok line msg = (if ok then tret () else tfail (Err (err_assert line msg)))"

definition empty_obj :: json where
  "empty_obj = JObj []"

definition render :: "'w server \<Rightarrow> json option \<Rightarrow> string" where
  "render S data = (case data of Some v \<Rightarrow> srv_json S v | None \<Rightarrow> ''NULL'')"

definition debug_opt :: "string option \<Rightarrow> string" where
  "debug_opt x = (case x of None \<Rightarrow> ''None'' | Some s \<Rightarrow> ''Some('' @ rust_debug s @ '')'')"

definition debug_list :: "string list \<Rightarrow> string" where
  "debug_list xs = ''['' @ comma_sep (map rust_debug xs) @ '']''"

text \<open>The count of \<open>assert exactly_one_claimed\<close>, or the first variable that is not bound.\<close>

fun count_claimed :: "(string \<Rightarrow> var_value option) \<Rightarrow> string list \<Rightarrow> string + nat" where
  "count_claimed vars [] = Inr 0"
| "count_claimed vars (v # vs) =
     (case vars v of
        None \<Rightarrow> Inl v
      | Some x \<Rightarrow> rbind (count_claimed vars vs) (\<lambda>n. Inr (case x of Var_Job _ \<Rightarrow> Suc n | Var_Empty \<Rightarrow> n)))"

section \<open>Statements\<close>

definition foreground :: "'w server \<Rightarrow> nat \<Rightarrow> sql \<Rightarrow> ('w sys, sql_reply) tact" where
  "foreground S client q = tbind (client_for S client) (\<lambda>c. call S (query S c q))"

definition bind_var :: "string \<Rightarrow> var_value \<Rightarrow> ('w sys, unit) tact" where
  "bind_var var x = on_runner (\<lambda>r. r\<lparr>r_vars := (r_vars r)(var \<mapsto> x)\<rparr>)"

definition exec_push :: "'w server \<Rightarrow> nat \<Rightarrow> string \<Rightarrow> json \<Rightarrow> send_options \<Rightarrow> ('w sys, unit) tact" where
  "exec_push S client queue data options =
     tbind (foreground S client (Q_Send queue data (send_options_to_json options))) (\<lambda>_. tret ())"

definition exec_consume ::
  "'w server \<Rightarrow> nat \<Rightarrow> nat \<Rightarrow> string \<Rightarrow> string \<Rightarrow> nat option \<Rightarrow> ('w sys, unit) act" where
  "exec_consume S line client queue var within =
     abind (abind (lift (client_for S client)) (\<lambda>c. consume_wait S c queue within)) (\<lambda>j. lift (case j of
       Some h \<Rightarrow> bind_var var (Var_Job h)
     | None \<Rightarrow> tfail (Err (err_assert line
         (''consume '' @ queue @ '' -> '' @ var @ '': no job became available'')))))"

definition exec_spawn :: "string \<Rightarrow> string \<Rightarrow> nat option \<Rightarrow> ('w sys, unit) tact" where
  "exec_spawn queue var within s =
     (let i = length (threads s);
          th = \<lparr>th_dsn = r_dsn (runner_of s), th_queue = queue, th_within = within, th_pc = T_Connect\<rparr>
      in on_runner (\<lambda>r. r\<lparr>r_pending := (var, i) # filter (\<lambda>(v, _). v \<noteq> var) (r_pending r)\<rparr>)
           (s\<lparr>threads := threads s @ [th]\<rparr>))"

definition exec_await :: "'w server \<Rightarrow> nat \<Rightarrow> string \<Rightarrow> ('w sys, unit) act" where
  "exec_await S line var s =
     (case map_of (r_pending (runner_of s)) var of
        None \<Rightarrow> Some (Inl (Err (err_runtime line (''await '' @ var @ '': no spawned consume''))), s)
      | Some i \<Rightarrow>
          abind (lift (on_runner (\<lambda>r. r\<lparr>r_pending := filter (\<lambda>(v, _). v \<noteq> var) (r_pending r)\<rparr>))) (\<lambda>_.
          abind (join S i) (\<lambda>joined. lift (case joined of
            None \<Rightarrow> tfail (Err (err_runtime line (''await '' @ var @ '': consumer thread panicked'')))
          | Some (Inl e) \<Rightarrow> tfail (Err (err_runtime line (''await '' @ var @ '': '' @ e)))
          | Some (Inr (Some j)) \<Rightarrow> bind_var var (Var_Job j)
          | Some (Inr None) \<Rightarrow> bind_var var Var_Empty))) s)"

text \<open>\<open>ack\<close> and \<open>fail\<close>, which differ in the statement they send.\<close>

definition exec_finish ::
  "'w server \<Rightarrow> (string \<Rightarrow> string \<Rightarrow> json \<Rightarrow> sql) \<Rightarrow> string \<Rightarrow> nat \<Rightarrow> nat \<Rightarrow> string \<Rightarrow> json option \<Rightarrow>
   ('w sys, unit) tact" where
  "exec_finish S stmt name line client var output =
     tbind (the_job var line) (\<lambda>j.
     tbind (foreground S client (stmt (h_queue j) (h_id j)
       (case output of None \<Rightarrow> empty_obj | Some v \<Rightarrow> v))) (\<lambda>r.
     tbind (get_bool r) (\<lambda>ok.
       assert_that ok line (name @ '' '' @ var @ '': job was not active''))))"

definition exec_check_state :: "'w server \<Rightarrow> nat \<Rightarrow> nat \<Rightarrow> string \<Rightarrow> string \<Rightarrow> ('w sys, unit) tact" where
  "exec_check_state S line client var state =
     tbind (the_job var line) (\<lambda>j. tbind (client_for S client) (\<lambda>c.
     tbind (call S (job_state_of S c j)) (\<lambda>actual. case actual of
       Some s \<Rightarrow> assert_that (s = state) line (''check '' @ var @ '' state '' @ state @ '': got '' @ s)
     | None \<Rightarrow> tfail (Err (err_assert line (''check '' @ var @ '' state '' @ state @ '': job not found''))))))"

text \<open>The loop of \<open>check .. ack\<close>: one round, with the deadline if there is one.\<close>

definition check_ack_round ::
  "'w server \<Rightarrow> nat \<Rightarrow> nat \<Rightarrow> string \<Rightarrow> job_handle \<Rightarrow> int option \<Rightarrow> ('w sys, unit + unit) tact" where
  "check_ack_round S line client var j deadline =
     tbind (client_for S client) (\<lambda>c. tbind (call S (job_state_of S c j)) (\<lambda>state.
       if state = Some ''completed'' then tret (Inr ())
       else
         let expired = tfail (Err (err_assert line
               (''check '' @ var @ '' ack: state='' @ debug_opt state @ '', expected completed'')))
         in case deadline of
              None \<Rightarrow> expired
            | Some d \<Rightarrow> tbind (call S (\<lambda>w. case srv_now S w of (t, w') \<Rightarrow> (Inr t, w'))) (\<lambda>now.
                if now < d
                then tbind (call S (\<lambda>w. (Inr (), srv_sleep S (20 * 1000) w))) (\<lambda>_. tret (Inl ()))
                else expired)))"

definition exec_check_ack ::
  "'w server \<Rightarrow> nat \<Rightarrow> nat \<Rightarrow> string \<Rightarrow> nat option \<Rightarrow> ('w sys, unit) act" where
  "exec_check_ack S line client var within =
     abind (lift (the_job var line)) (\<lambda>j.
     abind (lift (case within of
         None \<Rightarrow> tret None
       | Some w \<Rightarrow> tbind (call S (deadline_after S w)) (\<lambda>d. tret (Some d)))) (\<lambda>deadline.
       loop (\<lambda>_. check_ack_round S line client var j deadline) ()))"

definition exec_check_empty :: "nat \<Rightarrow> string \<Rightarrow> ('w sys, unit) tact" where
  "exec_check_empty line var s =
     (case r_vars (runner_of s) var of
        Some Var_Empty \<Rightarrow> (Inr (), s)
      | Some (Var_Job _) \<Rightarrow> (Inl (Err (err_assert line (''check '' @ var @ '' empty: a job was claimed''))), s)
      | None \<Rightarrow> (Inl (Err (err_runtime line (''check '' @ var @ '' empty: '' @ var @ '' is not bound''))), s))"

definition exec_check_data :: "'w server \<Rightarrow> nat \<Rightarrow> nat \<Rightarrow> string \<Rightarrow> json \<Rightarrow> ('w sys, unit) tact" where
  "exec_check_data S line client var expected =
     tbind (the_job var line) (\<lambda>j.
     tbind (foreground S client (Q_Data (h_queue j) (h_id j))) (\<lambda>r.
     tbind (get_data r) (\<lambda>actual. case actual of
       Some other \<Rightarrow> assert_that (other = Some expected) line
         (''check '' @ var @ '' data: expected '' @ srv_json S expected @ '', got '' @ render S other)
     | None \<Rightarrow> tfail (Err (err_assert line (''check '' @ var @ '' data: job not found''))))))"

definition exec_check_gone :: "'w server \<Rightarrow> nat \<Rightarrow> nat \<Rightarrow> string \<Rightarrow> ('w sys, unit) tact" where
  "exec_check_gone S line client var =
     tbind (the_job var line) (\<lambda>j. tbind (client_for S client) (\<lambda>c.
     tbind (call S (job_state_of S c j)) (\<lambda>state. case state of
       None \<Rightarrow> tret ()
     | Some s \<Rightarrow> tfail (Err (err_assert line
         (''check '' @ var @ '' gone: job still exists (state='' @ s @ '')''))))))"

definition exec_var_eq :: "nat \<Rightarrow> string \<Rightarrow> string \<Rightarrow> ('w sys, unit) tact" where
  "exec_var_eq line left right =
     tbind (the_job left line) (\<lambda>a. tbind (the_job right line) (\<lambda>b.
       assert_that (h_id a = h_id b) line
         (''assert '' @ left @ '' == '' @ right @ '': '' @ h_id a @ '' != '' @ h_id b)))"

definition exec_exactly_one :: "nat \<Rightarrow> string list \<Rightarrow> ('w sys, unit) tact" where
  "exec_exactly_one line vars s =
     (case count_claimed (r_vars (runner_of s)) vars of
        Inl v \<Rightarrow> (Inl (Err (err_runtime line (''assert exactly_one_claimed: '' @ v @ '' is not bound''))), s)
      | Inr n \<Rightarrow> assert_that (n = 1) line
          (''assert exactly_one_claimed '' @ debug_list vars @ '': '' @ show_nat n @ '' claimed (expected 1)'') s)"

definition exec_queue_size :: "'w server \<Rightarrow> nat \<Rightarrow> nat \<Rightarrow> string \<Rightarrow> int \<Rightarrow> ('w sys, unit) tact" where
  "exec_queue_size S line client queue wanted =
     tbind (pending_count S client queue) (\<lambda>n. assert_that (n = wanted) line
       (''assert queue '' @ queue @ '' size '' @ show_int wanted @ '': got '' @ show_int n))"

definition exec_queue_empty :: "'w server \<Rightarrow> nat \<Rightarrow> nat \<Rightarrow> string \<Rightarrow> ('w sys, unit) tact" where
  "exec_queue_empty S line client queue =
     tbind (pending_count S client queue) (\<lambda>n. assert_that (n = 0) line
       (''assert queue '' @ queue @ '' empty: '' @ show_int n @ '' job(s) still pending''))"

definition ignore_reply :: "('s, sql_reply) tact \<Rightarrow> ('s, unit) tact" where
  "ignore_reply p = tbind p (\<lambda>_. tret ())"

fun exec_command :: "'w server \<Rightarrow> nat \<Rightarrow> nat \<Rightarrow> command \<Rightarrow> ('w sys, unit) act" where
  "exec_command S line client (CreateQueue name options) =
     lift (ignore_reply (foreground S client (Q_Create_Queue name (queue_options_to_json options))))"
| "exec_command S line client (DeleteQueue name) =
     lift (ignore_reply (foreground S client (Q_Delete_Queue name)))"
| "exec_command S line client Maintain = lift (ignore_reply (foreground S client Q_Maintain))"
| "exec_command S line client (Push queue data options) = lift (exec_push S client queue data options)"
| "exec_command S line client (Consume queue var within) = exec_consume S line client queue var within"
| "exec_command S line client (SpawnConsume queue var within) = lift (exec_spawn queue var within)"
| "exec_command S line client (Await var) = exec_await S line var"
| "exec_command S line client (Ack var output) = lift (exec_finish S Q_Complete ''ack'' line client var output)"
| "exec_command S line client (Fail var output) = lift (exec_finish S Q_Fail ''fail'' line client var output)"
| "exec_command S line client (AssertQueueEmpty queue) = lift (exec_queue_empty S line client queue)"
| "exec_command S line client (AssertQueueSize queue n) = lift (exec_queue_size S line client queue n)"
| "exec_command S line client (CheckState var state) = lift (exec_check_state S line client var state)"
| "exec_command S line client (CheckAck var within) = exec_check_ack S line client var within"
| "exec_command S line client (CheckEmpty var) = lift (exec_check_empty line var)"
| "exec_command S line client (CheckData var expected) = lift (exec_check_data S line client var expected)"
| "exec_command S line client (CheckGone var) = lift (exec_check_gone S line client var)"
| "exec_command S line client (AssertVarEq left right) = lift (exec_var_eq line left right)"
| "exec_command S line client (AssertExactlyOneClaimed vars) = lift (exec_exactly_one line vars)"

definition exec :: "'w server \<Rightarrow> statement \<Rightarrow> ('w sys, unit) act" where
  "exec S st = exec_command S (st_line st) (st_client st) (st_command st)"

section \<open>Scenarios\<close>

definition push_seen :: "string \<Rightarrow> string list \<Rightarrow> string list" where
  "push_seen q seen = (if q \<in> set seen then seen else seen @ [q])"

fun queue_of :: "command \<Rightarrow> string option" where
  "queue_of (CreateQueue name options) = Some name"
| "queue_of (DeleteQueue name) = Some name"
| "queue_of (Push queue data options) = Some queue"
| "queue_of (Consume queue var within) = Some queue"
| "queue_of (SpawnConsume queue var within) = Some queue"
| "queue_of (AssertQueueEmpty queue) = Some queue"
| "queue_of (AssertQueueSize queue n) = Some queue"
| "queue_of _ = None"

definition collect_queues :: "scenario \<Rightarrow> string list" where
  "collect_queues sc =
     fold (\<lambda>st seen. case queue_of (st_command st) of None \<Rightarrow> seen | Some q \<Rightarrow> push_seen q seen)
       (sc_statements sc) []"

text \<open>The errors of \<open>client_for\<close> and of the deletion are dropped; a panic is not.\<close>

fun cleanup_queues :: "'w server \<Rightarrow> string list \<Rightarrow> ('w sys, unit) tact" where
  "cleanup_queues S [] s = (Inr (), s)"
| "cleanup_queues S (q # qs) s =
     (case foreground S 1 (Q_Delete_Queue q) s of
        (Inl Panicked, s') \<Rightarrow> (Inl Panicked, s')
      | (_, s') \<Rightarrow> cleanup_queues S qs s')"

fun join_all :: "'w server \<Rightarrow> (string \<times> nat) list \<Rightarrow> ('w sys, unit) act" where
  "join_all S [] s = Some (Inr (), s)"
| "join_all S ((_, i) # hs) s = abind (join S i) (\<lambda>_. join_all S hs) s"

definition join_all_pending :: "'w server \<Rightarrow> ('w sys, unit) act" where
  "join_all_pending S s =
     join_all S (srv_drain S (r_pending (runner_of s)))
       (s\<lparr>runner_of := (runner_of s)\<lparr>r_pending := []\<rparr>\<rparr>)"

text \<open>The loop over the statements: the first error ends it, with its line filled in.\<close>

definition with_line :: "nat \<Rightarrow> dsl_error \<Rightarrow> dsl_error" where
  "with_line line e = (if e_line e = 0 then e\<lparr>e_line := line\<rparr> else e)"

fun run_statements :: "'w server \<Rightarrow> statement list \<Rightarrow> ('w sys, dsl_error option) act" where
  "run_statements S [] s = Some (Inr None, s)"
| "run_statements S (st # sts) s =
     (case exec S st s of
        None \<Rightarrow> None
      | Some (Inl Panicked, s') \<Rightarrow> Some (Inl Panicked, s')
      | Some (Inl (Err e), s') \<Rightarrow> Some (Inr (Some (with_line (st_line st) e)), s')
      | Some (Inr _, s') \<Rightarrow> run_statements S sts s')"

definition run_scenario :: "'w server \<Rightarrow> scenario \<Rightarrow> ('w sys, unit) act" where
  "run_scenario S sc =
     abind (lift (client_for S 1)) (\<lambda>_.
     let queues = collect_queues sc in
     abind (lift (cleanup_queues S queues)) (\<lambda>_.
     abind (run_statements S (sc_statements sc)) (\<lambda>result.
     abind (join_all_pending S) (\<lambda>_.
     abind (lift (cleanup_queues S queues)) (\<lambda>_.
     lift (case result of None \<Rightarrow> tret () | Some e \<Rightarrow> tfail (Err e)))))))"

end
