(* ===== verification/Runner_Logic.thy ===== *)
theory Runner_Logic
  imports Dsl_Runner
begin

text \<open>
  The program logic of the runner (src/dsltest/src/runner.rs): how the state may change along an
  action (\<open>steps\<close>, \<open>asteps\<close>), which lines its errors carry (\<open>errs\<close>), the unfolding of its loops
  and a rule for their termination. \<open>world_order\<close> is the contract between the runner and a server for
  one relation on the server's world; everything the runner and its threads do keeps that relation.
\<close>

named_theorems steps_intros \<open>rules for the change of the state\<close>
named_theorems errs_intros \<open>rules for the lines of errors\<close>

section \<open>Equations\<close>

lemma tact_simps [simp]:
  "tret a s = (Inr a, s)"
  "tfail e s = (Inl e, s)"
  "lift p s = Some (p s)"
  by (simp_all add: tret_def tfail_def lift_def)

lemma tbind_cases:
  obtains (fail) e s1 where "p s = (Inl e, s1)" "tbind p f s = (Inl e, s1)"
  | (ok) a s1 where "p s = (Inr a, s1)" "tbind p f s = f a s1"
  by (cases "p s"; cases "fst (p s)") (auto simp: tbind_def)

lemma tbind_simps [simp]:
  "p s = (Inl e, s1) \<Longrightarrow> tbind p f s = (Inl e, s1)"
  "p s = (Inr a, s1) \<Longrightarrow> tbind p f s = f a s1"
  by (simp_all add: tbind_def)

lemma abind_simps [simp]:
  "p s = None \<Longrightarrow> abind p f s = None"
  "p s = Some (Inl e, s1) \<Longrightarrow> abind p f s = Some (Inl e, s1)"
  "p s = Some (Inr a, s1) \<Longrightarrow> abind p f s = f a s1"
  by (simp_all add: abind_def)

lemma abind_cases:
  obtains (stuck) "p s = None" "abind p f s = None"
  | (fail) e s1 where "p s = Some (Inl e, s1)" "abind p f s = Some (Inl e, s1)"
  | (ok) a s1 where "p s = Some (Inr a, s1)" "abind p f s = f a s1"
proof (cases "p s")
  case (Some v)
  then show thesis
    using fail ok by (cases v; cases "fst v") auto
qed (use stuck in simp)

lemma loop_unfold:
  fixes body :: "'x \<Rightarrow> ('s, 'x + 'a) tact"
  shows "loop body x s =
     (case body x s of
        (Inl e, s1) \<Rightarrow> Some (Inl e, s1)
      | (Inr (Inl y), s1) \<Rightarrow> loop body y s1
      | (Inr (Inr a), s1) \<Rightarrow> Some (Inr a, s1))"
proof -
  let ?b = "\<lambda>(r, s'). case r :: failure + 'x + 'a of Inr (Inl _) \<Rightarrow> True | _ \<Rightarrow> False"
  let ?c = "\<lambda>(r, s'). case r of Inr (Inl y) \<Rightarrow> body y s' | _ \<Rightarrow> (r, s')"
  have w: "while_option ?b ?c t = (if ?b t then while_option ?b ?c (?c t) else Some t)" for t
    by (rule while_option_unfold)
  have first: "while_option ?b ?c (Inr (Inl x), s) = while_option ?b ?c (body x s)"
    using w [of "(Inr (Inl x), s)"] by simp
  show ?thesis
  proof (cases "body x s")
    case (Pair r s1)
    consider e where "r = Inl e" | y where "r = Inr (Inl y)" | a where "r = Inr (Inr a)"
      by (metis sum.exhaust)
    then show ?thesis
      using Pair first w [of "(r, s1)"] by cases (simp_all add: loop_def)
  qed
qed

text \<open>What holds of every round holds of the result.\<close>

lemma loop_rule [consumes 1, case_names start again result error]:
  fixes body :: "'x \<Rightarrow> ('s, 'x + 'a) tact"
  assumes "loop body x s = Some (r, s1)" "I x s"
    and "\<And>x s y s1. I x s \<Longrightarrow> body x s = (Inr (Inl y), s1) \<Longrightarrow> I y s1"
    and "\<And>x s a s1. I x s \<Longrightarrow> body x s = (Inr (Inr a), s1) \<Longrightarrow> Q (Inr a) s1"
    and "\<And>x s e s1. I x s \<Longrightarrow> body x s = (Inl e, s1) \<Longrightarrow> Q (Inl e) s1"
  shows "Q r s1"
proof -
  let ?b = "\<lambda>(r, s'). case r :: failure + 'x + 'a of Inr (Inl _) \<Rightarrow> True | _ \<Rightarrow> False"
  let ?c = "\<lambda>(r, s'). case r of Inr (Inl y) \<Rightarrow> body y s' | _ \<Rightarrow> (r, s')"
  let ?P = "\<lambda>(r, s'). case r of Inl e \<Rightarrow> Q (Inl e) s' | Inr (Inl y) \<Rightarrow> I y s' | Inr (Inr a) \<Rightarrow> Q (Inr a) s'"
  obtain u where u: "while_option ?b ?c (Inr (Inl x), s) = Some u"
    using assms(1) by (auto simp: loop_def)
  have "?P u"
  proof (rule while_option_rule [where P = ?P, OF _ u])
    fix v
    assume "?P v" "?b v"
    then obtain y t where v: "v = (Inr (Inl y), t)" "I y t" by (cases v) (auto split: sum.splits)
    then show "?P (?c v)"
      using assms(3-5) [of y t] by (cases "body y t") (auto split: sum.splits)
  qed (simp add: assms(2))
  then show ?thesis
    using assms(1) u while_option_stop [OF u] by (cases u) (auto simp: loop_def split: sum.splits)
qed

text \<open>A loop ends when a measure of its state decreases with every round that goes on.\<close>

lemma loop_terminates:
  fixes body :: "'x \<Rightarrow> ('s, 'x + 'a) tact"
  assumes "wf r" "\<And>x s y s1. I s \<Longrightarrow> body x s = (Inr (Inl y), s1) \<Longrightarrow> I s1 \<and> ((y, s1), (x, s)) \<in> r" "I s"
  shows "loop body x s \<noteq> None"
  using assms(1,3)
proof (induction "(x, s)" arbitrary: x s rule: wf_induct_rule)
  case (less x s)
  show ?case
  proof (cases "body x s")
    case (Pair v s1)
    then show ?thesis
      using less assms(2) by (subst loop_unfold) (auto split: sum.split)
  qed
qed

section \<open>Change of the state\<close>

definition steps :: "('s \<Rightarrow> 's \<Rightarrow> bool) \<Rightarrow> ('s, 'a) tact \<Rightarrow> bool" where
  "steps R p \<longleftrightarrow> (\<forall>s. R s (snd (p s)))"

definition asteps :: "('s \<Rightarrow> 's \<Rightarrow> bool) \<Rightarrow> ('s, 'a) act \<Rightarrow> bool" where
  "asteps R p \<longleftrightarrow> (\<forall>s r s1. p s = Some (r, s1) \<longrightarrow> R s s1)"

lemma stepsD: "steps R p \<Longrightarrow> p s = (r, s1) \<Longrightarrow> R s s1"
  unfolding steps_def by (metis snd_conv)

lemma astepsD: "asteps R p \<Longrightarrow> p s = Some (r, s1) \<Longrightarrow> R s s1"
  by (auto simp: asteps_def)

locale state_order =
  fixes R :: "'s \<Rightarrow> 's \<Rightarrow> bool"
  assumes refl: "R s s" and trans: "R s t \<Longrightarrow> R t u \<Longrightarrow> R s u"
begin

lemma steps_tret [steps_intros]: "steps R (tret a)"
  by (simp add: steps_def refl)

lemma steps_tfail [steps_intros]: "steps R (tfail e)"
  by (simp add: steps_def refl)

lemma steps_tbind [steps_intros]:
  assumes "steps R p" "\<And>a. steps R (f a)"
  shows "steps R (tbind p f)"
proof -
  have "R s (snd (tbind p f s))" for s
    using assms(1) by (cases rule: tbind_cases [where p = p and s = s and f = f])
      (auto dest: stepsD [OF assms(1)] intro: trans simp: assms(2) [unfolded steps_def, rule_format])
  then show ?thesis by (simp add: steps_def)
qed

lemma asteps_lift [steps_intros]: "steps R p \<Longrightarrow> asteps R (lift p)"
  by (auto simp: asteps_def dest: stepsD)

lemma asteps_abind [steps_intros]:
  assumes "asteps R p" "\<And>a. asteps R (f a)"
  shows "asteps R (abind p f)"
proof -
  have "R s s1" if "abind p f s = Some (r, s1)" for s r s1
    using that by (cases rule: abind_cases [where p = p and s = s and f = f])
      (auto dest: astepsD [OF assms(1)] astepsD [OF assms(2)] intro: trans)
  then show ?thesis by (simp add: asteps_def)
qed

lemma asteps_loop [steps_intros]:
  fixes body :: "'x \<Rightarrow> ('s, 'x + 'a) tact"
  assumes "\<And>x. steps R (body x)"
  shows "asteps R (loop body x)"
proof -
  have "R s s1" if "loop body x s = Some (r, s1)" for s r s1
    using that by (rule loop_rule [where I = "\<lambda>_. R s" and Q = "\<lambda>_. R s"])
      (auto intro: refl trans dest: stepsD [OF assms])
  then show ?thesis by (simp add: asteps_def)
qed

end

section \<open>Calls leave the runner alone\<close>

lemma runner_of_step_thread [simp]: "runner_of (step_thread S i s) = runner_of s"
  by (simp add: step_thread_def split: prod.split)

lemma runner_of_background [simp]: "runner_of (background S s) = runner_of s"
proof -
  have "runner_of (fold (step_thread S) is t) = runner_of t" for "is" t
    by (induction "is" arbitrary: t) simp_all
  then show ?thesis by (simp add: background_def split: list.split)
qed

lemma runner_of_call: "call S p s = (r, s1) \<Longrightarrow> runner_of s1 = runner_of s"
  by (auto simp: call_def Let_def split: prod.splits)

lemma runner_of_connect: "connect S dsn s = (r, s1) \<Longrightarrow> runner_of s1 = runner_of s"
  unfolding connect_def
  by (cases rule: tbind_cases [where p = "call S (open_session S dsn)" and s = s])
    (auto simp: tbind_def dest!: runner_of_call split: prod.splits sum.splits)

section \<open>What a server keeps\<close>

text \<open>
  A relation \<open>T\<close> on the world that every call of the server keeps, except for the statements that
  are not \<open>allowed\<close>; the statements of \<open>consume_wait\<close> are allowed.
\<close>

locale world_order = world: state_order T
  for T :: "'w \<Rightarrow> 'w \<Rightarrow> bool" +
  fixes S :: "'w server" and allowed :: "sql \<Rightarrow> bool"
  assumes connect_keeps: "T w (snd (srv_connect S dsn w))"
    and query_keeps: "allowed q \<Longrightarrow> T w (snd (srv_query S c q w))"
    and wait_keeps: "T w (snd (srv_wait S c t w))"
    and now_keeps: "T w (snd (srv_now S w))"
    and sleep_keeps: "T w (srv_sleep S t w)"
    and consume_allowed: "allowed Q_Extension" "allowed (Q_Fetch queue)" "allowed (Q_Channel queue)"
      "allowed (Q_Listen text)"

context world_order
begin

lemma world_query [steps_intros]: "allowed q \<Longrightarrow> steps T (query S c q)"
proof -
  assume "allowed q"
  then have "T w (snd (query S c q w))" for w
    using query_keeps [of q w c] by (auto simp: query_def split: prod.splits sum.splits)
  then show ?thesis by (simp add: steps_def)
qed

lemma world_get [steps_intros]:
  "steps T (get_bool r)" "steps T (get_int r)" "steps T (get_text r)" "steps T (get_texts r)"
  "steps T (get_text_opt r)" "steps T (get_data r)"
  by (auto simp: get_bool_def get_int_def get_text_def get_texts_def get_text_opt_def get_data_def
      intro: world.steps_tret world.steps_tfail split: sql_reply.split)

lemma world_fetch [steps_intros]: "steps T (fetch_one S c queue)"
  unfolding fetch_one_def
  by (intro world.steps_tbind world_query world_get world.steps_tret consume_allowed)

lemma world_channel [steps_intros]: "steps T (channel_name S c queue)"
  unfolding channel_name_def by (intro world.steps_tbind world_query world_get consume_allowed)

lemma world_state [steps_intros]: "allowed (Q_State (h_queue j) (h_id j)) \<Longrightarrow> steps T (job_state_of S c j)"
  unfolding job_state_of_def by (intro world.steps_tbind world_query world_get)

lemma world_deadline [steps_intros]: "steps T (deadline_after S within)"
proof -
  have "T w (snd (deadline_after S within w))" for w
    using now_keeps [of w] by (auto simp: deadline_after_def Let_def split: prod.splits)
  then show ?thesis by (simp add: steps_def)
qed

lemma world_open [steps_intros]: "steps T (open_session S dsn)" "steps T (create_extension S c)"
proof -
  have "T w (snd (open_session S dsn w))" "T w (snd (create_extension S c w))" for w
    using connect_keeps [of w dsn] query_keeps [OF consume_allowed(1), of w c]
    by (auto simp: open_session_def create_extension_def split: prod.splits sum.splits)
  then show "steps T (open_session S dsn)" "steps T (create_extension S c)" by (simp_all add: steps_def)
qed

lemma world_cw_step [steps_intros]: "steps T (cw_step S c queue within pc)"
proof (cases pc)
  case (CW_Check d)
  have "T w (snd (cw_step S c queue within pc w))" for w
    using CW_Check now_keeps [of w] by (auto split: prod.splits)
  then show ?thesis by (simp add: steps_def)
next
  case (CW_Wait d t)
  have "T w (snd (cw_step S c queue within pc w))" for w
    using CW_Wait wait_keeps [of w c t] by (auto split: prod.splits sum.splits)
  then show ?thesis by (simp add: steps_def)
qed (auto intro!: world.steps_tbind world.steps_tret world_fetch world_channel world_query world_deadline
      consume_allowed split: option.split)

lemma thread_step_keeps: "T w (snd (thread_step S th w))"
proof (cases "th_pc th")
  case T_Connect
  then show ?thesis
    using connect_keeps [of w "th_dsn th"] by (auto simp: thread_step_def split: prod.splits sum.splits)
next
  case (T_Extension c)
  then show ?thesis
    using query_keeps [OF consume_allowed(1), of w c] by (auto simp: thread_step_def split: prod.splits)
next
  case (T_Consume c pc)
  have "T w (snd (cw_step S c (th_queue th) (th_within th) pc w))"
    using world_cw_step by (simp add: steps_def)
  then show ?thesis
    using T_Consume by (auto simp: thread_step_def split: prod.splits sum.splits failure.splits)
qed (simp add: thread_step_def world.refl)

end

section \<open>What a call keeps\<close>

text \<open>A statement that binds no variable and spawns nothing.\<close>

fun plain :: "command \<Rightarrow> bool" where
  "plain (Consume queue var within) = False"
| "plain (SpawnConsume queue var within) = False"
| "plain (Await var) = False"
| "plain _ = True"

text \<open>
  A relation \<open>R\<close> on the whole state that the threads keep, that a change of the world by \<open>T\<close>, of the
  schedule and the opening of a session keep: the statements that bind no variable and spawn nothing keep it.
\<close>

locale sys_order = world_order T S allowed + sys: state_order R
  for T :: "'w \<Rightarrow> 'w \<Rightarrow> bool" and S :: "'w server" and allowed :: "sql \<Rightarrow> bool" and R :: "'w sys \<Rightarrow> 'w sys \<Rightarrow> bool" +
  assumes step_keeps: "R s (step_thread S i s)"
    and world_keeps: "T (world s) w \<Longrightarrow> R s (s\<lparr>world := w\<rparr>)"
    and schedule_keeps: "R s (s\<lparr>schedule := rest\<rparr>)"
    and client_keeps: "r_clients (runner_of s) n = None \<Longrightarrow>
      R s (s\<lparr>runner_of := (runner_of s)\<lparr>r_clients := (r_clients (runner_of s))(n \<mapsto> c)\<rparr>\<rparr>)"
begin

lemma sys_get [steps_intros]:
  "steps R (get_bool r)" "steps R (get_int r)" "steps R (get_text r)" "steps R (get_texts r)"
  "steps R (get_text_opt r)" "steps R (get_data r)"
  by (auto simp: get_bool_def get_int_def get_text_def get_texts_def get_text_opt_def get_data_def
      intro: sys.steps_tret sys.steps_tfail split: sql_reply.split)

lemma fold_keeps: "R s (fold (step_thread S) is s)"
  by (induction "is" arbitrary: s) (auto intro: sys.refl sys.trans step_keeps)

lemma background_keeps: "R s (background S s)"
proof (cases "schedule s")
  case (Cons x rest)
  then show ?thesis
    using sys.trans [OF schedule_keeps fold_keeps] by (simp add: background_def)
qed (simp add: background_def sys.refl)

lemma steps_call [steps_intros]:
  assumes "steps T p"
  shows "steps R (call S p)"
proof -
  have "R s (snd (call S p s))" for s
  proof -
    let ?s1 = "background S s"
    have "T (world ?s1) (snd (p (world ?s1)))" using assms by (simp add: steps_def)
    then have "R ?s1 (snd (call S p s))"
      using world_keeps by (auto simp: call_def Let_def split: prod.splits)
    then show ?thesis using background_keeps sys.trans by blast
  qed
  then show ?thesis by (simp add: steps_def)
qed

lemma steps_connect [steps_intros]: "steps R (connect S dsn)"
  unfolding connect_def by (intro sys.steps_tbind sys.steps_tret steps_call world_open)

lemma steps_client_for [steps_intros]: "steps R (client_for S n)"
proof -
  have "R s (snd (client_for S n s))" for s
  proof (cases "r_clients (runner_of s) n")
    case None
    obtain r s1 where c: "connect S (r_dsn (runner_of s)) s = (r, s1)" by fastforce
    then have "R s s1" using stepsD [OF steps_connect] by blast
    moreover have "runner_of s1 = runner_of s" using runner_of_connect [OF c] .
    ultimately show ?thesis
      using None c client_keeps [of s1 n] by (cases r) (auto simp: client_for_def on_runner_def intro: sys.trans)
  qed (simp add: client_for_def sys.refl)
  then show ?thesis by (simp add: steps_def)
qed

lemma steps_foreground [steps_intros]: "allowed q \<Longrightarrow> steps R (foreground S n q)"
  unfolding foreground_def by (intro sys.steps_tbind steps_client_for steps_call world_query)

lemma steps_consume_wait [steps_intros]: "asteps R (consume_wait S c queue within)"
  unfolding consume_wait_def by (intro sys.asteps_loop steps_call world_cw_step)

lemma steps_join [steps_intros]: "asteps R (join S i)"
  unfolding join_def
proof (rule sys.asteps_loop)
  fix x :: unit
  show "steps R (\<lambda>s. let s1 = background S s in
      if i < length (threads s1) then
        (case th_pc (threads s1 ! i) of T_End r \<Rightarrow> (Inr (Inr r), s1) | _ \<Rightarrow> (Inr (Inl ()), step_thread S i s1))
      else (Inr (Inr None), s1))"
    unfolding steps_def Let_def
    by (auto split: thread_pc.split intro: background_keeps sys.trans [OF background_keeps step_keeps])
qed

lemma steps_join_all: "asteps R (join_all S hs)"
proof (induction hs)
  case (Cons h hs)
  obtain v i where "h = (v, i)" by fastforce
  then have "join_all S (h # hs) = abind (join S i) (\<lambda>_. join_all S hs)" by (rule_tac ext) simp
  then show ?case using Cons by (auto intro: sys.asteps_abind steps_join)
qed (simp add: asteps_def sys.refl)

lemma steps_cleanup: "(\<And>q. allowed (Q_Delete_Queue q)) \<Longrightarrow> steps R (cleanup_queues S qs)"
proof (induction qs)
  case (Cons q qs)
  have "R s (snd (cleanup_queues S (q # qs) s))" for s
  proof -
    obtain r s1 where f: "foreground S 1 (Q_Delete_Queue q) s = (r, s1)" by fastforce
    then have "R s s1" using stepsD [OF steps_foreground [OF Cons.prems]] by blast
    moreover have "R s1 (snd (cleanup_queues S qs s1))"
      using Cons by (simp add: steps_def)
    ultimately show ?thesis
      using f by (auto intro: sys.trans split: sum.split failure.split)
  qed
  then show ?case by (simp add: steps_def)
qed (simp add: steps_def sys.refl)

lemma steps_simple [steps_intros]:
  "steps R (the_job var line)" "steps R (assert_that ok line msg)"
  "steps R (exec_check_empty line var)" "steps R (exec_exactly_one line vars)"
  by (auto simp: steps_def the_job_def assert_that_def exec_check_empty_def exec_exactly_one_def sys.refl
      split: option.split var_value.split sum.split)

lemma steps_clock [steps_intros]:
  "steps R (call S (\<lambda>w. case srv_now S w of (t, w1) \<Rightarrow> (Inr t, w1)))"
  "steps R (call S (\<lambda>w. (Inr (), srv_sleep S t w)))"
proof -
  show "steps R (call S (\<lambda>w. case srv_now S w of (t, w1) \<Rightarrow> (Inr t, w1)))"
  proof (rule steps_call, unfold steps_def, rule allI)
    fix w
    show "T w (snd (case srv_now S w of (t, w1) \<Rightarrow> (Inr t, w1)))"
      using now_keeps [of w] by (cases "srv_now S w") simp
  qed
  show "steps R (call S (\<lambda>w. (Inr (), srv_sleep S t w)))"
    by (intro steps_call) (simp add: steps_def sleep_keeps)
qed

lemma steps_round [steps_intros]:
  "allowed (Q_State (h_queue j) (h_id j)) \<Longrightarrow> steps R (check_ack_round S line client var j deadline)"
  unfolding check_ack_round_def Let_def
  by (auto intro!: sys.steps_tbind sys.steps_tret sys.steps_tfail steps_client_for steps_call world_state steps_clock
      split: option.split)

lemma steps_plain:
  assumes "plain cmd"
    and a: "\<And>q. (\<forall>n i v. q = Q_Fail n i v \<longrightarrow> (\<exists>x y. cmd = Fail x y)) \<Longrightarrow> (q = Q_Maintain \<longrightarrow> cmd = Maintain) \<Longrightarrow>
      (\<forall>n d opts. q = Q_Send n d opts \<longrightarrow> (\<exists>x y z. cmd = Push x y z)) \<Longrightarrow> allowed q"
  shows "asteps R (exec_command S line client cmd)"
proof -
  note simple = sys.steps_tbind sys.steps_tret sys.steps_tfail steps_foreground sys_get
    steps_simple steps_client_for steps_call world_state world_query steps_clock world_deadline steps_round a
  show ?thesis
    using assms(1)
    by (cases cmd)
      (auto simp: ignore_reply_def exec_push_def exec_finish_def exec_check_state_def
        exec_check_ack_def exec_check_data_def exec_check_gone_def exec_var_eq_def exec_queue_size_def
        exec_queue_empty_def pending_count_def
        intro!: sys.asteps_lift sys.asteps_abind sys.asteps_loop simple
        split: option.split)
qed

end

section \<open>How the whole state evolves\<close>

text \<open>The world may change by \<open>T\<close>; a client keeps its session; the address stays.\<close>

definition evolves :: "('w \<Rightarrow> 'w \<Rightarrow> bool) \<Rightarrow> 'w sys \<Rightarrow> 'w sys \<Rightarrow> bool" where
  "evolves T s s1 \<longleftrightarrow>
     T (world s) (world s1) \<and> r_clients (runner_of s) \<subseteq>\<^sub>m r_clients (runner_of s1) \<and>
     length (threads s) \<le> length (threads s1)"

context world_order
begin

lemma step_thread_evolves: "evolves T s (step_thread S i s)"
  using thread_step_keeps [of "world s" "threads s ! i"]
  by (auto simp: evolves_def step_thread_def world.refl split: prod.splits)

end

sublocale world_order \<subseteq> evo: sys_order T S allowed "evolves T"
proof
  show "evolves T s s" for s by (simp add: evolves_def world.refl)
  show "evolves T s u" if "evolves T s t" "evolves T t u" for s t u
    using that by (auto simp: evolves_def intro: world.trans map_le_trans)
qed (auto simp: evolves_def world.refl map_le_def step_thread_evolves [unfolded evolves_def])

context world_order
begin

lemma steps_join_all_pending: "asteps (evolves T) (join_all_pending S)"
proof -
  have "evolves T s s1" if "join_all_pending S s = Some (r, s1)" for s r s1
  proof -
    have "evolves T s (s\<lparr>runner_of := (runner_of s)\<lparr>r_pending := []\<rparr>\<rparr>)"
      by (simp add: evolves_def world.refl)
    then show ?thesis
      using that astepsD [OF evo.steps_join_all] evo.sys.trans unfolding join_all_pending_def by blast
  qed
  then show ?thesis by (simp add: asteps_def)
qed

lemma steps_binding [steps_intros]:
  "steps (evolves T) (bind_var var x)" "steps (evolves T) (exec_spawn queue var within)"
  "(\<And>r. r_clients r \<subseteq>\<^sub>m r_clients (f r)) \<Longrightarrow> steps (evolves T) (on_runner f)"
  by (auto simp: steps_def bind_var_def on_runner_def exec_spawn_def evolves_def Let_def world.refl)

lemma steps_exec:
  assumes a: "\<And>q. allowed q"
  shows "asteps (evolves T) (exec_command S line client cmd)"
proof -
  have await: "asteps (evolves T) (exec_await S line var)" for var
  proof -
    have go: "asteps (evolves T) (abind (lift (on_runner (\<lambda>r. r\<lparr>r_pending := filter (\<lambda>(v, _). v \<noteq> var) (r_pending r)\<rparr>)))
        (\<lambda>_. abind (join S i) (\<lambda>joined. lift (case joined of
            None \<Rightarrow> tfail (Err (err_runtime line (''await '' @ var @ '': consumer thread panicked'')))
          | Some (Inl e) \<Rightarrow> tfail (Err (err_runtime line (''await '' @ var @ '': '' @ e)))
          | Some (Inr (Some j)) \<Rightarrow> bind_var var (Var_Job j)
          | Some (Inr None) \<Rightarrow> bind_var var Var_Empty))))" for i
      by (auto intro!: evo.sys.asteps_abind evo.sys.asteps_lift evo.steps_join steps_binding evo.sys.steps_tfail
          split: option.split sum.split)
    show ?thesis
      unfolding asteps_def exec_await_def
      by (auto split: option.splits intro: evo.sys.refl dest: astepsD [OF go])
  qed
  show ?thesis
  proof (cases "plain cmd")
    case True
    then show ?thesis by (intro evo.steps_plain a)
  next
    case False
    then show ?thesis
      by (cases cmd)
        (auto simp: exec_consume_def intro!: await evo.sys.asteps_lift evo.sys.asteps_abind evo.steps_consume_wait
          evo.steps_client_for steps_binding evo.sys.steps_tfail split: option.split)
  qed
qed

lemma steps_statements:
  assumes a: "\<And>q. allowed q"
  shows "asteps (evolves T) (run_statements S sts)"
proof (induction sts)
  case (Cons st sts)
  have "evolves T s s1" if r: "run_statements S (st # sts) s = Some (r, s1)" for s r s1
  proof -
    obtain v t where e: "exec S st s = Some (v, t)" using r by (auto split: option.splits)
    have st: "evolves T s t"
      using astepsD [OF steps_exec [OF a]] e unfolding exec_def by blast
    consider e' where "v = Inl e'" | "v = Inr ()" by (cases v) auto
    then show ?thesis
    proof cases
      case 1
      then show ?thesis using r e st by (cases e') simp_all
    next
      case 2
      then have "evolves T t s1" using r e astepsD [OF Cons] by simp
      with st show ?thesis by (rule evo.sys.trans)
    qed
  qed
  then show ?case by (simp add: asteps_def)
qed (simp add: asteps_def evo.sys.refl)

end

end
