(* ===== verification/Runner_Time.thy ===== *)
theory Runner_Time
  imports Runner_Logic
begin

text \<open>
  Termination of the runner (src/dsltest/src/runner.rs) on any server whose clock never goes back
  and moves with every statement: the polling loops of \<open>consume_wait\<close> and \<open>check .. ack\<close> end at
  their deadlines, and so do the threads that the runner joins, whatever the schedule.
\<close>

locale timed_server =
  fixes S :: "'w server" and time :: "'w \<Rightarrow> int"
  assumes connect_time: "time w \<le> time (snd (srv_connect S dsn w))"
    and query_time: "time w < time (snd (srv_query S c q w))"
    and wait_time: "time w \<le> time (snd (srv_wait S c t w))"
    and now_time: "time w \<le> time (snd (srv_now S w))" "fst (srv_now S w) = time (snd (srv_now S w))"
    and sleep_time: "time w \<le> time (srv_sleep S t w)"

sublocale timed_server \<subseteq> clock: world_order "\<lambda>w w1. time w \<le> time w1" S "\<lambda>_. True"
  by unfold_locales (use connect_time query_time wait_time now_time sleep_time in \<open>auto intro: less_imp_le\<close>)

fun cw_measure :: "int \<Rightarrow> cw_pc \<Rightarrow> nat \<times> nat" where
  "cw_measure t CW_First = (5, 0)"
| "cw_measure t CW_Channel = (4, 0)"
| "cw_measure t (CW_Listen ch) = (3, 0)"
| "cw_measure t CW_Second = (2, 0)"
| "cw_measure t CW_Deadline = (1, 0)"
| "cw_measure t (CW_Check d) = (0, if d \<le> t then 0 else 4 * nat (d - t) + 3)"
| "cw_measure t (CW_Wait d x) = (0, 4 * nat (d - t) + 2)"
| "cw_measure t (CW_Fetch d) = (0, 4 * nat (d - t) + 1)"

fun thread_measure :: "int \<Rightarrow> thread_pc \<Rightarrow> nat \<times> nat" where
  "thread_measure t T_Connect = (8, 0)"
| "thread_measure t (T_Extension c) = (7, 0)"
| "thread_measure t (T_Consume c pc) = (Suc (fst (cw_measure t pc)), snd (cw_measure t pc))"
| "thread_measure t (T_End r) = (0, 0)"

lemma cw_measure_mono: "t \<le> t1 \<Longrightarrow> cw_measure t1 pc \<le> cw_measure t pc"
  by (cases pc) (auto simp: nat_mono)

lemma cw_measure_phase: "fst (cw_measure t pc) \<le> 5"
  by (cases pc) auto

lemma thread_measure_mono: "t \<le> t1 \<Longrightarrow> thread_measure t1 pc \<le> thread_measure t pc"
  using cw_measure_mono [of t t1] by (cases pc) (auto simp: less_eq_prod_def)

lemma wf_pairs: "wf {(x, y). f x < (f y :: nat \<times> nat)}"
  using wf_inv_image [OF wf, of f] by (simp add: inv_image_def)

context timed_server
begin

lemma fetch_time:
  assumes "fetch_one S c queue w = (r, w1)"
  shows "time w < time w1"
  using assms query_time [of w c "Q_Fetch queue"]
  by (auto simp: fetch_one_def query_def tbind_def get_texts_def split: prod.splits sum.splits sql_reply.splits)

lemma cw_step_decreases:
  assumes "cw_step S c queue within pc w = (Inr (Inl pc1), w1)"
  shows "cw_measure (time w1) pc1 < cw_measure (time w) pc"
proof (cases pc)
  case CW_First
  then show ?thesis
    using assms by (auto simp: tbind_def split: prod.splits sum.splits option.splits)
next
  case CW_Second
  then show ?thesis
    using assms by (auto simp: tbind_def split: prod.splits sum.splits option.splits)
next
  case CW_Channel
  then show ?thesis
    using assms by (auto simp: tbind_def split: prod.splits sum.splits option.splits)
next
  case (CW_Listen ch)
  then show ?thesis
    using assms by (auto simp: tbind_def split: prod.splits sum.splits option.splits)
next
  case CW_Deadline
  then show ?thesis
    using assms by (auto simp: tbind_def split: prod.splits sum.splits option.splits)
next
  case (CW_Check d)
  obtain t w2 where n: "srv_now S w = (t, w2)" by fastforce
  with now_time [of w] have "t = time w2" "time w \<le> time w2" by simp_all
  then show ?thesis
    using CW_Check assms n by (auto split: if_splits)
next
  case (CW_Wait d x)
  then show ?thesis
    using assms wait_time [of w c x] by (auto split: prod.splits sum.splits)
next
  case (CW_Fetch d)
  then obtain j w2 where f: "fetch_one S c queue w = (j, w2)" by fastforce
  then have "time w < time w2" by (rule fetch_time)
  then show ?thesis
    using CW_Fetch assms f by (auto simp: tbind_def split: sum.splits option.splits)
qed

lemma thread_step_decreases:
  assumes "thread_step S th w = (th1, w1)" "\<And>r. th_pc th \<noteq> T_End r"
  shows "thread_measure (time w1) (th_pc th1) < thread_measure (time w) (th_pc th)"
proof (cases "th_pc th")
  case T_Connect
  then show ?thesis using assms by (auto simp: thread_step_def split: prod.splits sum.splits)
next
  case (T_Extension c)
  then show ?thesis using assms by (auto simp: thread_step_def split: prod.splits)
next
  case (T_Consume c pc)
  obtain v w2 where v: "cw_step S c (th_queue th) (th_within th) pc w = (v, w2)" by fastforce
  show ?thesis
  proof (cases v)
    case (Inl e)
    then show ?thesis using T_Consume v assms(1) by (cases e) (auto simp: thread_step_def)
  next
    case (Inr x)
    then show ?thesis
      using T_Consume v assms(1) cw_step_decreases [of c "th_queue th" "th_within th" pc w]
      by (cases x) (auto simp: thread_step_def less_prod_def')
  qed
qed (use assms in simp)

text \<open>Steps of any thread never increase the measure of thread \<open>i\<close>; its own steps decrease it.\<close>

definition thread_left :: "nat \<Rightarrow> 'w sys \<Rightarrow> nat \<times> nat" where
  "thread_left i s = thread_measure (time (world s)) (th_pc (threads s ! i))"

lemma length_threads [simp]:
  "length (threads (step_thread S j s)) = length (threads s)"
  "length (threads (background S s)) = length (threads s)"
proof -
  have step: "length (threads (step_thread S j s)) = length (threads s)" for j s
    by (auto simp: step_thread_def split: prod.split)
  then show "length (threads (step_thread S j s)) = length (threads s)" .
  have "length (threads (fold (step_thread S) is t)) = length (threads t)" for "is" t
    by (induction "is" arbitrary: t) (simp_all add: step)
  then show "length (threads (background S s)) = length (threads s)"
    by (simp add: background_def split: list.split)
qed

lemma step_thread_left:
  assumes "i < length (threads s)"
  shows "thread_left i (step_thread S j s) \<le> thread_left i s"
    and "(\<And>r. th_pc (threads s ! i) \<noteq> T_End r) \<Longrightarrow> thread_left i (step_thread S i s) < thread_left i s"
proof -
  have own: "thread_left i (step_thread S i s) < thread_left i s" if "\<And>r. th_pc (threads s ! i) \<noteq> T_End r"
    using assms that thread_step_decreases
    by (auto simp: thread_left_def step_thread_def split: prod.split)
  then show "(\<And>r. th_pc (threads s ! i) \<noteq> T_End r) \<Longrightarrow> thread_left i (step_thread S i s) < thread_left i s" .
  show "thread_left i (step_thread S j s) \<le> thread_left i s"
  proof (cases "j = i \<and> (\<forall>r. th_pc (threads s ! i) \<noteq> T_End r)")
    case True
    then show ?thesis using own by (auto intro: less_imp_le)
  next
    case False
    have "th_pc (threads (step_thread S j s) ! i) = th_pc (threads s ! i)"
    proof (cases "j = i")
      case True
      then obtain r where "th_pc (threads s ! i) = T_End r" using False by auto
      then show ?thesis using True assms by (simp add: step_thread_def thread_step_def)
    qed (simp add: step_thread_def split: prod.split)
    moreover have "time (world s) \<le> time (world (step_thread S j s))"
      using clock.step_thread_evolves [of s j] by (simp add: evolves_def)
    ultimately show ?thesis by (simp add: thread_left_def thread_measure_mono)
  qed
qed

lemma background_left: "i < length (threads s) \<Longrightarrow> thread_left i (background S s) \<le> thread_left i s"
proof -
  assume i: "i < length (threads s)"
  have steps: "i < length (threads t) \<Longrightarrow> thread_left i (fold (step_thread S) is t) \<le> thread_left i t" for "is" t
  proof (induction "is" arbitrary: t)
    case (Cons j "is")
    then have "thread_left i (fold (step_thread S) is (step_thread S j t)) \<le> thread_left i (step_thread S j t)"
      by simp
    also have "\<dots> \<le> thread_left i t" using Cons.prems by (rule step_thread_left(1))
    finally show ?case by simp
  qed simp
  show ?thesis
  proof (cases "schedule s")
    case (Cons x rest)
    then show ?thesis
      using steps [of "s\<lparr>schedule := rest\<rparr>" x] i by (simp add: background_def thread_left_def)
  qed (simp add: background_def)
qed

lemma join_terminates: "join S i s \<noteq> None"
  unfolding join_def
proof (rule loop_terminates [where I = "\<lambda>_. True" and r = "{(x, y). thread_left i (snd x) < thread_left i (snd y)}"])
  show "wf {(x, y). thread_left i (snd x) < thread_left i (snd y)}" by (rule wf_pairs)
  fix x y :: unit and s s1
  assume b: "(let s1 = background S s in
      if i < length (threads s1) then
        (case th_pc (threads s1 ! i) of T_End r \<Rightarrow> (Inr (Inr r), s1) | _ \<Rightarrow> (Inr (Inl ()), step_thread S i s1))
      else (Inr (Inr None), s1)) = (Inr (Inl y), s1)"
  let ?b = "background S s"
  have i: "i < length (threads ?b)" and s1: "s1 = step_thread S i ?b"
    and pc: "th_pc (threads ?b ! i) \<noteq> T_End r" for r
    using b by (auto simp: Let_def split: if_splits thread_pc.splits)
  have "thread_left i s1 < thread_left i ?b" using step_thread_left(2) [OF i pc] s1 by simp
  also have "thread_left i ?b \<le> thread_left i s" using background_left i by simp
  finally show "True \<and> ((y, s1), (x, s)) \<in> {(x, y). thread_left i (snd x) < thread_left i (snd y)}" by simp
qed simp

lemma consume_wait_terminates: "consume_wait S c queue within s \<noteq> None"
  unfolding consume_wait_def
proof (rule loop_terminates [where I = "\<lambda>_. True" and
    r = "{(x, y). cw_measure (time (world (snd x))) (fst x) < cw_measure (time (world (snd y))) (fst y)}"])
  show "wf {(x, y). cw_measure (time (world (snd x))) (fst x) < cw_measure (time (world (snd y))) (fst y)}"
    by (rule wf_pairs)
  fix pc pc1 and s s1 :: "'w sys"
  assume "call S (cw_step S c queue within pc) s = (Inr (Inl pc1), s1)"
  then have "cw_measure (time (world s1)) pc1 < cw_measure (time (world (background S s))) pc"
    by (auto simp: call_def Let_def split: prod.splits intro: cw_step_decreases)
  also have "\<dots> \<le> cw_measure (time (world s)) pc"
    using clock.evo.background_keeps [of s] by (auto simp: evolves_def intro: cw_measure_mono)
  finally show "True \<and> ((pc1, s1), (pc, s)) \<in>
      {(x, y). cw_measure (time (world (snd x))) (fst x) < cw_measure (time (world (snd y))) (fst y)}"
    by simp
qed simp

lemma steps_time:
  "steps (evolves (\<lambda>w w1. time w \<le> time w1)) p \<Longrightarrow> p s = (r, s1) \<Longrightarrow> time (world s) \<le> time (world s1)"
  by (drule (1) stepsD) (simp add: evolves_def)

lemma check_ack_round_time:
  assumes "check_ack_round S line client var j deadline s = (Inr (Inl y), s1)"
  shows "\<exists>d. deadline = Some d \<and> time (world s) < d \<and> time (world s) < time (world s1)"
proof -
  obtain c s2 where c: "client_for S client s = (Inr c, s2)"
    using assms by (cases rule: tbind_cases [where p = "client_for S client" and s = s])
      (auto simp: check_ack_round_def)
  obtain st s3 where st: "call S (job_state_of S c j) s2 = (Inr st, s3)" 
    using assms c by (cases rule: tbind_cases [where p = "call S (job_state_of S c j)" and s = s2])
      (auto simp: check_ack_round_def)
  let ?b = "background S s2"
  have "time (world ?b) < time (world s3)"
  proof -
    have "job_state_of S c j (world ?b) = (Inr st, world s3)"
      using st by (auto simp: call_def Let_def split: prod.splits)
    then show ?thesis
      using query_time [of "world ?b" c "Q_State (h_queue j) (h_id j)"]
      by (auto simp: job_state_of_def tbind_def query_def get_text_opt_def split: prod.splits sum.splits sql_reply.splits)
  qed
  moreover have "time (world s) \<le> time (world s2)"
    using steps_time [OF clock.evo.steps_client_for c] .
  moreover have "time (world s2) \<le> time (world ?b)"
    using clock.evo.background_keeps [of s2] by (simp add: evolves_def)
  ultimately have t3: "time (world s) < time (world s3)" by simp
  obtain d where d: "deadline = Some d"
    using assms c st by (cases deadline) (auto simp: check_ack_round_def split: if_splits)
  let ?now = "call S (\<lambda>w. case srv_now S w of (t, w1) \<Rightarrow> (Inr t, w1))"
  let ?sleep = "call S (\<lambda>w. (Inr (), srv_sleep S (20 * 1000) w))"
  obtain t s4 where n: "?now s3 = (Inr t, s4)"
    by (cases "srv_now S (world (background S s3))") (auto simp: call_def Let_def)
  have t4: "t = time (world s4)"
    using n now_time(2) [of "world (background S s3)"]
    by (auto simp: call_def Let_def split: prod.splits)
  obtain s5 where sl: "?sleep s4 = (Inr (), s5)" by (auto simp: call_def Let_def)
  have "time (world s3) \<le> time (world s4)" "time (world s4) \<le> time (world s5)"
    using steps_time [OF clock.evo.steps_clock(1) n] steps_time [OF clock.evo.steps_clock(2) sl] by simp_all
  moreover have "t < d" "s1 = s5"
    using assms c st d n sl by (auto simp: check_ack_round_def split: if_splits)
  ultimately show ?thesis using d t3 t4 by simp
qed

lemma check_ack_terminates: "exec_check_ack S line client var within s \<noteq> None"
proof -
  have "loop (\<lambda>_. check_ack_round S line client var j deadline) () s \<noteq> None" for j deadline s
  proof (rule loop_terminates [where I = "\<lambda>_. True" and
      r = "measure (\<lambda>(_, s). nat (the deadline - time (world s)))"])
    fix x y :: unit and s s1
    assume "check_ack_round S line client var j deadline s = (Inr (Inl y), s1)"
    from check_ack_round_time [OF this]
    show "True \<and> ((y, s1), (x, s)) \<in> measure (\<lambda>(_, s). nat (the deadline - time (world s)))" by auto
  qed simp_all
  then show ?thesis
    unfolding exec_check_ack_def abind_def by (auto split: option.splits prod.splits sum.splits)
qed

lemma abind_terminates: "p s \<noteq> None \<Longrightarrow> (\<And>a s1. f a s1 \<noteq> None) \<Longrightarrow> abind p f s \<noteq> None"
  by (cases rule: abind_cases [where p = p and s = s and f = f]) simp_all

lemma exec_terminates: "exec_command S line client cmd s \<noteq> None"
proof (cases cmd)
  case (Consume queue var within)
  have "abind (lift (client_for S client)) (\<lambda>c. consume_wait S c queue within) s \<noteq> None"
    by (rule abind_terminates) (simp, rule consume_wait_terminates)
  then show ?thesis
    unfolding Consume exec_command.simps exec_consume_def by (rule abind_terminates) simp
next
  case (Await var)
  have "abind (lift p) (\<lambda>_. abind (join S i) (\<lambda>joined. lift (f joined))) s \<noteq> None"
    for p :: "('w sys, unit) tact" and i and f :: "(string + job_handle option) option \<Rightarrow> ('w sys, unit) tact"
      and s :: "'w sys"
    by (rule abind_terminates, simp, rule abind_terminates [OF join_terminates], simp)
  then show ?thesis
    unfolding Await exec_command.simps exec_await_def
    by (cases "map_of (r_pending (runner_of s)) var") simp_all
next
  case (CheckAck var within)
  then show ?thesis using check_ack_terminates by simp
qed simp_all

lemma statements_terminate: "run_statements S sts s \<noteq> None"
proof (induction sts arbitrary: s)
  case (Cons st sts)
  obtain v s1 where "exec S st s = Some (v, s1)"
    using exec_terminates unfolding exec_def by fastforce
  then show ?case using Cons by (auto split: sum.split failure.split)
qed simp

lemma join_all_terminates: "join_all S hs s \<noteq> None"
proof (induction hs arbitrary: s)
  case (Cons h hs)
  obtain v i where "h = (v, i)" by fastforce
  moreover have "abind (join S i) (\<lambda>_. join_all S hs) s \<noteq> None"
    by (rule abind_terminates [OF join_terminates Cons])
  ultimately show ?case by simp
qed simp

lemma run_scenario_terminates: "run_scenario S sc s \<noteq> None"
  unfolding run_scenario_def join_all_pending_def Let_def
  by (intro abind_terminates) (simp_all add: statements_terminate join_all_terminates)

end

end
