(* ===== verification/Runner_Safety.thy ===== *)
theory Runner_Safety
  imports Runner_Logic
begin

text \<open>
  What a run of a scenario (src/dsltest/src/runner.rs) leaves behind and what its errors say: on a
  server where deleting a queue works and only \<open>boss.create_queue\<close> makes one, no queue of the scenario
  survives the run; and, on any server, an error of a statement carries the line of that statement, one of the
  first connection no line.
\<close>

section \<open>The failures of an action\<close>

definition fails :: "(failure \<Rightarrow> bool) \<Rightarrow> ('s, 'a) tact \<Rightarrow> bool" where
  "fails F p \<longleftrightarrow> (\<forall>s e s1. p s = (Inl e, s1) \<longrightarrow> F e)"

definition afails :: "(failure \<Rightarrow> bool) \<Rightarrow> ('s, 'a) act \<Rightarrow> bool" where
  "afails F p \<longleftrightarrow> (\<forall>s e s1. p s = Some (Inl e, s1) \<longrightarrow> F e)"

lemma failsD: "fails F p \<Longrightarrow> p s = (Inl e, s1) \<Longrightarrow> F e"
  by (auto simp: fails_def)

lemma afailsD: "afails F p \<Longrightarrow> p s = Some (Inl e, s1) \<Longrightarrow> F e"
  by (auto simp: afails_def)

lemma fails_basic [errs_intros]:
  "fails F (tret a)" "F e \<Longrightarrow> fails F (tfail e)" "fails F (on_runner f)"
  by (simp_all add: fails_def on_runner_def)

lemma fails_tbind [errs_intros]:
  assumes "fails F p" "\<And>a. fails F (f a)"
  shows "fails F (tbind p f)"
proof -
  have "F e" if "tbind p f s = (Inl e, s1)" for s e s1
    using that by (cases rule: tbind_cases [where p = p and s = s and f = f])
      (auto dest: failsD [OF assms(1)] failsD [OF assms(2)])
  then show ?thesis by (simp add: fails_def)
qed

lemma fails_call [errs_intros]: "fails F p \<Longrightarrow> fails F (call S p)"
  by (auto simp: fails_def call_def Let_def split: prod.splits)

lemma fails_lift [errs_intros]: "fails F p \<Longrightarrow> afails F (lift p)"
  by (simp add: fails_def afails_def)

lemma fails_abind [errs_intros]:
  assumes "afails F p" "\<And>a. afails F (f a)"
  shows "afails F (abind p f)"
proof -
  have "F e" if "abind p f s = Some (Inl e, s1)" for s e s1
    using that by (cases rule: abind_cases [where p = p and s = s and f = f])
      (auto dest: afailsD [OF assms(1)] afailsD [OF assms(2)])
  then show ?thesis by (simp add: afails_def)
qed

lemma fails_loop [errs_intros]:
  fixes body :: "'x \<Rightarrow> ('s, 'x + 'a) tact"
  assumes "\<And>x. fails F (body x)"
  shows "afails F (loop body x)"
proof -
  have "\<forall>e. r = Inl e \<longrightarrow> F e" if "loop body x s = Some (r, s1)" for s r s1
    using that by (rule loop_rule [where I = "\<lambda>_ _. True" and Q = "\<lambda>r _. \<forall>e. r = Inl e \<longrightarrow> F e"])
      (auto dest: failsD [OF assms])
  then show ?thesis by (simp add: afails_def)
qed

lemma join_never_fails: "afails (\<lambda>_. False) (join S i)"
  unfolding join_def by (rule fails_loop) (auto simp: fails_def Let_def split: thread_pc.splits if_splits)

lemma join_all_never_fails: "afails (\<lambda>_. False) (join_all S hs)"
proof (induction hs)
  case (Cons h hs)
  obtain v i where "h = (v, i)" by fastforce
  then have "join_all S (h # hs) = abind (join S i) (\<lambda>_. join_all S hs)" by (rule_tac ext) simp
  then show ?case using fails_abind [OF join_never_fails Cons] by simp
qed (simp add: afails_def)

lemma run_statements_fail: "run_statements S sts s = Some (Inl e, s1) \<Longrightarrow> e = Panicked"
proof (induction sts arbitrary: s)
  case (Cons st sts)
  obtain v t where "exec S st s = Some (v, t)" using Cons.prems by (auto split: option.splits)
  then show ?case using Cons by (cases v) (auto split: failure.splits)
qed simp

text \<open>A run that does not panic, stage by stage.\<close>

lemma run_scenario_stages:
  assumes "run_scenario S sc s = Some (r, s1)" "r \<noteq> Inl Panicked" "client_for S 1 s = (Inr c, s0)"
  obtains u s2 res s3 v s4 w where
    "cleanup_queues S (collect_queues sc) s0 = (u, s2)" "run_statements S (sc_statements sc) s2 = Some (Inr res, s3)"
    "join_all_pending S s3 = Some (v, s4)" "cleanup_queues S (collect_queues sc) s4 = (w, s1)"
    "r = (case res of None \<Rightarrow> Inr () | Some e \<Rightarrow> Inl (Err e))"
proof -
  have clean: "x = Inr () \<or> x = Inl Panicked" if "cleanup_queues S qs t = (x, t1)" for x qs t t1
    using that by (induction qs arbitrary: t) (auto split: prod.splits sum.splits failure.splits)
  obtain u s2 where u: "cleanup_queues S (collect_queues sc) s0 = (u, s2)" by fastforce
  have u1: "u = Inr ()"
    using clean [OF u] assms u by (elim disjE) (simp_all add: run_scenario_def Let_def)
  have run: "run_scenario S sc s = abind (run_statements S (sc_statements sc)) (\<lambda>result.
     abind (join_all_pending S) (\<lambda>_. abind (lift (cleanup_queues S (collect_queues sc))) (\<lambda>_.
     lift (case result of None \<Rightarrow> tret () | Some e \<Rightarrow> tfail (Err e))))) s2"
    using assms(3) u u1 by (simp add: run_scenario_def Let_def)
  then obtain x s3 where x: "run_statements S (sc_statements sc) s2 = Some (x, s3)"
    using assms(1) by (cases "run_statements S (sc_statements sc) s2") auto
  have "x \<noteq> Inl e" for e
    using assms(1,2) x run run_statements_fail [of S "sc_statements sc" s2 e s3] by auto
  then obtain res where res: "x = Inr res" by (cases x) auto
  obtain v s4 where v: "join_all_pending S s3 = Some (v, s4)"
    using assms(1) run x res by (cases "join_all_pending S s3") auto
  have v1: "v = Inr ()"
    using v afailsD [OF join_all_never_fails] unfolding join_all_pending_def by (cases v) auto
  obtain w s5 where w: "cleanup_queues S (collect_queues sc) s4 = (w, s5)" by fastforce
  have w1: "w = Inr ()"
    using clean [OF w] assms(1,2) run x res v v1 w by (elim disjE) simp_all
  have fin: "run_scenario S sc s = Some (case res of None \<Rightarrow> tret () s5 | Some e \<Rightarrow> tfail (Err e) s5)"
    using run x res v v1 w w1 by (cases res) simp_all
  then have "s5 = s1" "r = (case res of None \<Rightarrow> Inr () | Some e \<Rightarrow> Inl (Err e))"
    using assms(1) by (cases res; simp)+
  then show ?thesis using that u x [unfolded res] v w by blast
qed

section \<open>The lines of errors\<close>

definition at_line :: "nat \<Rightarrow> failure \<Rightarrow> bool" where
  "at_line line f = (case f of Panicked \<Rightarrow> True | Err e \<Rightarrow> e_line e \<in> {0, line} \<and> e_kind e \<noteq> Parse)"

lemma at_line_simps [simp]:
  "at_line line Panicked" "at_line line (db_err m)" "at_line line (Err (err_assert line m))"
  "at_line line (Err (err_runtime line m))" "at_line line (Err (err_conn m))"
  by (simp_all add: at_line_def db_err_def err_db_def err_assert_def err_runtime_def err_conn_def err_new_def)

lemma fails_world [errs_intros]:
  "fails (at_line line) (query S c q)" "fails (at_line line) (open_session S dsn)"
  "fails (at_line line) (create_extension S c)" "fails (at_line line) (deadline_after S within)"
  by (auto simp: fails_def query_def open_session_def create_extension_def deadline_after_def Let_def
      split: prod.splits sum.splits if_splits)

lemma fails_get [errs_intros]:
  "fails (at_line line) (get_bool r)" "fails (at_line line) (get_int r)" "fails (at_line line) (get_text r)"
  "fails (at_line line) (get_texts r)" "fails (at_line line) (get_text_opt r)" "fails (at_line line) (get_data r)"
  by (auto simp: fails_def get_bool_def get_int_def get_text_def get_texts_def get_text_opt_def get_data_def
      split: sql_reply.splits)

lemma fails_cw_step [errs_intros]: "fails (at_line line) (cw_step S c queue within pc)"
proof (cases pc)
  case (CW_Check d)
  then show ?thesis by (auto simp: fails_def split: prod.splits)
next
  case (CW_Wait d t)
  then show ?thesis by (auto simp: fails_def split: prod.splits sum.splits)
qed (auto simp: fetch_one_def channel_name_def intro!: fails_tbind fails_basic fails_world fails_get
    split: option.split)

lemma fails_client [errs_intros]: "fails (at_line line) (client_for S n)"
proof -
  have c: "fails (at_line line) (tbind (connect S dsn) (\<lambda>c. tbind (on_runner (f c)) (\<lambda>_. tret c)))" for dsn f
    unfolding connect_def by (intro fails_tbind fails_call fails_world fails_basic)
  show ?thesis
    unfolding fails_def client_for_def by (auto split: option.splits dest: failsD [OF c])
qed

lemma fails_simple [errs_intros]:
  "fails (at_line line) (foreground S n q)" "fails (at_line line) (the_job var line)"
  "fails (at_line line) (assert_that ok line msg)" "fails (at_line line) (bind_var var x)"
  "fails (at_line line) (exec_spawn queue var within)" "fails (at_line line) (exec_check_empty line var)"
  "fails (at_line line) (exec_exactly_one line vars)" "fails (at_line line) (job_state_of S c j)"
  unfolding foreground_def job_state_of_def
  by (auto intro!: fails_tbind fails_client fails_call fails_world fails_get)
    (auto simp: fails_def the_job_def assert_that_def bind_var_def on_runner_def exec_spawn_def
      exec_check_empty_def exec_exactly_one_def Let_def split: option.splits var_value.splits sum.splits if_splits)

lemma fails_exec: "afails (at_line line) (exec_command S line client cmd)"
proof -
  note simple = fails_tbind fails_basic fails_simple fails_client fails_call fails_world fails_get
  have never: "afails (at_line line) (join S i)" for i
    unfolding afails_def by (blast dest: afailsD [OF join_never_fails])
  have await: "afails (at_line line) (exec_await S line var)" for var
  proof -
    have go: "afails (at_line line) (abind (lift (on_runner g)) (\<lambda>_. abind (join S i) (\<lambda>joined. lift (case joined of
            None \<Rightarrow> tfail (Err (err_runtime line (''await '' @ var @ '': consumer thread panicked'')))
          | Some (Inl e) \<Rightarrow> tfail (Err (err_runtime line (''await '' @ var @ '': '' @ e)))
          | Some (Inr (Some j)) \<Rightarrow> bind_var var (Var_Job j)
          | Some (Inr None) \<Rightarrow> bind_var var Var_Empty))))" for g i
      by (auto intro!: fails_abind fails_lift never simple split: option.split sum.split)
    show ?thesis
      unfolding afails_def exec_await_def by (auto split: option.splits dest: afailsD [OF go])
  qed
  have clock: "fails (at_line line) (call S (\<lambda>w. case srv_now S w of (t, w1) \<Rightarrow> (Inr t, w1)))"
    "fails (at_line line) (call S (\<lambda>w. (Inr (), srv_sleep S t w)))" for t
    by (rule fails_call, simp add: fails_def split: prod.split)+
  have round: "fails (at_line line) (check_ack_round S line client var j deadline)" for var j deadline
    unfolding check_ack_round_def Let_def by (auto intro!: simple clock split: option.split)
  have consume: "afails (at_line line) (consume_wait S c queue within)" for c queue within
    unfolding consume_wait_def by (intro fails_loop fails_call fails_cw_step)
  show ?thesis
    by (cases cmd)
      (auto simp: ignore_reply_def exec_push_def exec_consume_def exec_finish_def exec_check_state_def
        exec_check_ack_def exec_check_data_def exec_check_gone_def exec_var_eq_def exec_queue_size_def
        exec_queue_empty_def pending_count_def
        intro!: fails_lift fails_abind fails_loop consume simple await round split: option.split)
qed

lemma client_error:
  assumes "client_for S n s = (Inl f, s1)"
  obtains e where "f = Err e" "e_line e = 0" "e_kind e = Conn"
proof -
  let ?F = "\<lambda>f. \<exists>e. f = Err e \<and> e_line e = 0 \<and> e_kind e = Conn"
  have world: "fails ?F (open_session S dsn)" "fails ?F (create_extension S c)" for dsn c
    by (auto simp: fails_def open_session_def create_extension_def err_conn_def split: prod.splits sum.splits)
  have "fails ?F (tbind (connect S dsn) (\<lambda>c. tbind (on_runner (g c)) (\<lambda>_. tret c)))" for dsn g
    unfolding connect_def by (intro fails_tbind fails_call world fails_basic)
  from failsD [OF this] have "?F f"
    using assms by (auto simp: client_for_def split: option.splits)
  then show ?thesis using that by blast
qed

text \<open>The statements that all succeed, one after the other.\<close>

inductive passes :: "'w server \<Rightarrow> statement list \<Rightarrow> 'w sys \<Rightarrow> 'w sys \<Rightarrow> bool" for S where
  passes_none: "passes S [] s s"
| passes_next: "exec S st s = Some (Inr (), s1) \<Longrightarrow> passes S sts s1 s2 \<Longrightarrow> passes S (st # sts) s s2"

text \<open>One of the statements fails: those before it succeed, and its error is \<open>e\<close> when the line is left out.\<close>

definition fails_at :: "'w server \<Rightarrow> statement list \<Rightarrow> statement \<Rightarrow> dsl_error \<Rightarrow> 'w sys \<Rightarrow> 'w sys \<Rightarrow> bool" where
  "fails_at S sts st e s s1 \<longleftrightarrow>
     (\<exists>pre post t e1. sts = pre @ st # post \<and> passes S pre s t \<and> exec S st t = Some (Inl (Err e1), s1) \<and>
        e_kind e = e_kind e1 \<and> e_msg e = e_msg e1)"

lemma fails_at_member: "fails_at S sts st e s s1 \<Longrightarrow> st \<in> set sts"
  by (auto simp: fails_at_def)

lemma fails_at_Cons:
  assumes "exec S st1 s = Some (Inr (), t)" "fails_at S sts st e t s1"
  shows "fails_at S (st1 # sts) st e s s1"
proof -
  obtain pre post u e1 where "sts = pre @ st # post" "passes S pre t u" "exec S st u = Some (Inl (Err e1), s1)"
    "e_kind e = e_kind e1" "e_msg e = e_msg e1"
    using assms(2) unfolding fails_at_def by blast
  moreover have "passes S (st1 # pre) s u"
    using assms(1) \<open>passes S pre t u\<close> by (rule passes_next)
  ultimately show ?thesis
    unfolding fails_at_def by (intro exI [of _ "st1 # pre"] exI [of _ post] exI [of _ u] exI [of _ e1]) simp
qed

lemma statements_outcome:
  "run_statements S sts s = Some (Inr res, s1) \<Longrightarrow>
   (case res of
      None \<Rightarrow> passes S sts s s1
    | Some e \<Rightarrow> \<exists>st. fails_at S sts st e s s1 \<and> e_line e = st_line st \<and> e_kind e \<noteq> Parse)"
proof (induction sts arbitrary: s)
  case Nil
  then show ?case by (auto intro: passes_none)
next
  case (Cons st sts)
  obtain v t where v: "exec S st s = Some (v, t)" using Cons.prems by (auto split: option.splits)
  show ?case
  proof (cases v)
    case (Inl f)
    then obtain e1 where f: "f = Err e1" and res: "res = Some (with_line (st_line st) e1)" and t: "t = s1"
      using v Cons.prems by (cases f) auto
    have "at_line (st_line st) f"
      using afailsD [OF fails_exec] v Inl unfolding exec_def by blast
    then have e: "e_line (with_line (st_line st) e1) = st_line st" "e_kind (with_line (st_line st) e1) = e_kind e1"
      "e_msg (with_line (st_line st) e1) = e_msg e1" "e_kind e1 \<noteq> Parse"
      using f by (auto simp: at_line_def with_line_def)
    have "fails_at S (st # sts) st (with_line (st_line st) e1) s s1"
      unfolding fails_at_def using v Inl f t e
      by (intro exI [of _ "[]"] exI [of _ sts] exI [of _ s] exI [of _ e1]) (simp add: passes_none)
    then show ?thesis using res e by auto
  next
    case (Inr x)
    have x: "exec S st s = Some (Inr (), t)" using v Inr by simp
    then have "run_statements S sts t = Some (Inr res, s1)" using Cons.prems by simp
    note IH = Cons.IH [OF this]
    show ?thesis
    proof (cases res)
      case None
      then show ?thesis using IH passes_next [OF x] by simp
    next
      case (Some e)
      then obtain st1 where "fails_at S sts st1 e t s1" "e_line e = st_line st1" "e_kind e \<noteq> Parse"
        using IH by auto
      then show ?thesis using Some fails_at_Cons [OF x] by (auto intro!: exI [of _ st1])
    qed
  qed
qed

lemma run_scenario_unconnected:
  "client_for S 1 s = (Inl f, s0) \<Longrightarrow> run_scenario S sc s = Some (Inl f, s0)"
  by (simp add: run_scenario_def abind_def lift_def)

lemma run_error_kind:
  assumes "run_scenario S sc s = Some (Inl (Err e), s1)"
  shows "e_kind e \<noteq> Parse"
proof -
  obtain v s0 where c: "client_for S 1 s = (v, s0)" by fastforce
  show ?thesis
  proof (cases v)
    case (Inl f)
    then have "f = Err e" using assms c run_scenario_unconnected [of S s f s0 sc] by simp
    then show ?thesis using c Inl by (auto elim: client_error)
  next
    case (Inr cl)
    then obtain s2 res s3 where "run_statements S (sc_statements sc) s2 = Some (Inr res, s3)"
      "Inl (Err e) = (case res of None \<Rightarrow> Inr () | Some e \<Rightarrow> Inl (Err e))"
      using run_scenario_stages [OF assms _ c [unfolded Inr]] by blast
    then show ?thesis using statements_outcome [of S _ s2 res s3] by (cases res) auto
  qed
qed

section \<open>Queues are cleaned up\<close>

locale queue_server =
  fixes S :: "'w server" and absent :: "'w \<Rightarrow> string \<Rightarrow> bool"
  assumes deletes: "absent (snd (srv_query S c (Q_Delete_Queue q) w)) q"
    and keeps: "(\<And>opts. x \<noteq> Q_Create_Queue q opts) \<Longrightarrow> absent w q \<Longrightarrow> absent (snd (srv_query S c x w)) q"
    and idle: "absent w q \<Longrightarrow> absent (snd (srv_connect S dsn w)) q" "absent w q \<Longrightarrow> absent (snd (srv_wait S c t w)) q"
      "absent w q \<Longrightarrow> absent (snd (srv_now S w)) q" "absent w q \<Longrightarrow> absent (srv_sleep S t w) q"

sublocale queue_server \<subseteq> gone: world_order "\<lambda>w w1. absent w q \<longrightarrow> absent w1 q" S
    "\<lambda>x. \<forall>opts. x \<noteq> Q_Create_Queue q opts" for q
  by unfold_locales (auto intro: keeps idle)

sublocale queue_server \<subseteq> any: world_order "\<lambda>_ _. True" S "\<lambda>_. True"
  by unfold_locales simp_all

lemma foreground_client:
  "r_clients (runner_of s) n = Some c \<Longrightarrow> foreground S n q s = call S (query S c q) s"
  by (simp add: foreground_def tbind_def client_for_def)

context queue_server
begin

lemma clients_stay:
  "evolves (\<lambda>_ _. True) s s1 \<Longrightarrow> r_clients (runner_of s) 1 = Some c \<Longrightarrow> r_clients (runner_of s1) 1 = Some c"
  by (auto simp: evolves_def map_le_def dom_def)

lemma foreground_deletes:
  assumes "r_clients (runner_of s) 1 = Some c" "foreground S 1 (Q_Delete_Queue q) s = (r, s1)"
  shows "absent (world s1) q" "r \<noteq> Inl Panicked" "r_clients (runner_of s1) 1 = Some c"
proof -
  let ?b = "background S s"
  have "query S c (Q_Delete_Queue q) (world ?b) = (r, world s1)" and b: "runner_of s1 = runner_of ?b"
    using assms foreground_client [of s 1 c] by (auto simp: call_def Let_def split: prod.splits)
  then show "absent (world s1) q" "r \<noteq> Inl Panicked"
    using deletes [of c q "world ?b"] by (auto simp: query_def db_err_def split: prod.splits sum.splits)
  show "r_clients (runner_of s1) 1 = Some c" using assms(1) b by simp
qed

lemma cleanup_deletes:
  assumes "r_clients (runner_of s) 1 = Some c"
  shows "\<exists>s1. cleanup_queues S qs s = (Inr (), s1) \<and> (\<forall>q \<in> set qs. absent (world s1) q)"
  using assms
proof (induction qs arbitrary: s)
  case (Cons q qs)
  obtain r s1 where f: "foreground S 1 (Q_Delete_Queue q) s = (r, s1)" by fastforce
  note d = foreground_deletes [OF Cons.prems f]
  obtain s2 where s2: "cleanup_queues S qs s1 = (Inr (), s2)" "\<forall>q \<in> set qs. absent (world s2) q"
    using Cons.IH [OF d(3)] by blast
  have "evolves (\<lambda>w w1. absent w q \<longrightarrow> absent w1 q) s1 s2"
    using stepsD [OF gone.evo.steps_cleanup s2(1)] by simp
  then have "absent (world s2) q" using d(1) by (simp add: evolves_def)
  then show ?case using f d(2) s2 by (auto split: sum.split failure.split)
qed simp

lemma run_cleans:
  assumes "run_scenario S sc s = Some (r, s1)" "r \<noteq> Inl Panicked" "client_for S 1 s = (Inr c, s0)"
  shows "\<forall>q \<in> set (collect_queues sc). absent (world s1) q"
proof -
  have c0: "r_clients (runner_of s0) 1 = Some c"
    using assms(3) by (cases rule: tbind_cases [where p = "connect S (r_dsn (runner_of s))" and s = s])
      (auto simp: client_for_def on_runner_def split: option.splits)
  obtain u s2 res s3 v s4 w where st: "cleanup_queues S (collect_queues sc) s0 = (u, s2)"
    "run_statements S (sc_statements sc) s2 = Some (Inr res, s3)"
    "join_all_pending S s3 = Some (v, s4)" "cleanup_queues S (collect_queues sc) s4 = (w, s1)"
    by (rule run_scenario_stages [OF assms])
  have "r_clients (runner_of s4) 1 = Some c"
    using clients_stay [OF stepsD [OF any.evo.steps_cleanup st(1)] c0]
      clients_stay [OF astepsD [OF any.steps_statements st(2)]]
      clients_stay [OF astepsD [OF any.steps_join_all_pending st(3)]] by simp
  then show ?thesis using cleanup_deletes [of s4 c "collect_queues sc"] st(4) by auto
qed

end

end
