(* ===== verification/Model_Server.thy ===== *)
theory Model_Server
  imports Runner_Time Runner_Safety Rows
begin

text \<open>
  The server of the runner on the model of the extension: each statement of src/dsltest/src/runner.rs
  as the operation of src/src/schema.rs or src/src/lib.rs it calls. The world is the database, the clock, the
  numbers of the next job and the next session, the channels each session listens to with the number of
  notifications that came before, and the next notification each session has not read. A statement takes a
  microsecond. A wait ends at once when the session has a notification to read, and takes its whole
  timeout otherwise; job ids are drawn from \<open>env_gen\<close>, and \<open>env_msg\<close> is the text of an error. The
  client writes a JSON parameter as text and PostgreSQL reads it as \<open>jsonb\<close>: \<open>env_jsonb\<close> is the value
  that arrives, or the error (of a string with a NUL character, say).

  Connections and \<open>CREATE EXTENSION\<close> always succeed here. What the runner and the command do when they fail is
  stated for every server, in Runner_Safety, Exit_Codes and Runner_Props.

  The contracts of the runner are interpreted on it.
\<close>

record model_world =
  mw_db :: db
  mw_now :: int
  mw_next :: nat
  mw_sessions :: nat
  mw_listens :: "(nat \<times> string \<times> nat) list"
  mw_unread :: "nat \<Rightarrow> nat"

record model_env =
  env_pg :: pg
  env_gen :: "nat \<Rightarrow> uuid"
  env_msg :: "pg_error \<Rightarrow> string"
  env_json :: "json \<Rightarrow> string"
  env_instant_max :: int
  env_jsonb :: "json \<Rightarrow> pg_error + json"

text \<open>
  What is relied on of \<open>env_jsonb\<close>: a value whose texts hold no NUL character and whose numbers are integer literals of
  64 bits arrives as it is.
\<close>

definition no_nul :: "string \<Rightarrow> bool" where
  "no_nul s = list_all (\<lambda>c. c \<noteq> CHR 0x00) s"

fun jsonb_plain :: "json \<Rightarrow> bool"
  and jsonb_plain_fields :: "(string \<times> json) list \<Rightarrow> bool" where
  "jsonb_plain (JNum m s) = (s = 0 \<and> in_i64 m)"
| "jsonb_plain (JStr s) = no_nul s"
| "jsonb_plain (JArr xs) = list_all jsonb_plain xs"
| "jsonb_plain (JObj m) = jsonb_plain_fields m"
| "jsonb_plain v = True"
| "jsonb_plain_fields [] = True"
| "jsonb_plain_fields ((k, v) # m) = (no_nul k \<and> jsonb_plain v \<and> jsonb_plain_fields m)"

definition keeps_plain :: "model_env \<Rightarrow> bool" where
  "keeps_plain E \<longleftrightarrow> (\<forall>v. jsonb_plain v \<longrightarrow> env_jsonb E v = Inr v)"

lemma keeps_plainD: "keeps_plain E \<Longrightarrow> jsonb_plain v \<Longrightarrow> env_jsonb E v = Inr v"
  by (simp add: keeps_plain_def)

lemma plain_fields_insert:
  "no_nul k \<Longrightarrow> jsonb_plain v \<Longrightarrow> jsonb_plain_fields m \<Longrightarrow> jsonb_plain_fields (obj_insert k v m)"
  by (induction k v m rule: obj_insert.induct) auto

lemma plain_put:
  "no_nul k \<Longrightarrow> (\<forall>n. v = Some n \<longrightarrow> in_i64 n) \<Longrightarrow> jsonb_plain_fields m \<Longrightarrow> jsonb_plain_fields (put m k v)"
  by (cases v) (simp_all add: put_def plain_fields_insert)

definition find_job :: "string \<Rightarrow> uuid \<Rightarrow> db \<Rightarrow> job option" where
  "find_job queue i d = find (\<lambda>j. j_name j = queue \<and> j_id j = i) (jobs d)"

definition pending_job :: "string \<Rightarrow> job \<Rightarrow> bool" where
  "pending_job queue j \<longleftrightarrow> j_name j = queue \<and> (j_state j = Created \<or> j_state j = Retry)"

fun sql_eval :: "pg \<Rightarrow> (json \<Rightarrow> pg_error + json) \<Rightarrow> int \<Rightarrow> uuid \<Rightarrow> sql \<Rightarrow> db \<Rightarrow> pg_error + (sql_reply \<times> db)" where
  "sql_eval P cv now new_id Q_Extension d = Inr (A_None, d)"
| "sql_eval P cv now new_id (Q_Create_Queue name options) d =
     rbind (cv options) (\<lambda>opts. case create_queue now name opts d of (b, d1) \<Rightarrow> Inr (A_Bool b, d1))"
| "sql_eval P cv now new_id (Q_Delete_Queue name) d =
     (case delete_queue name d of (b, d1) \<Rightarrow> Inr (A_Bool b, d1))"
| "sql_eval P cv now new_id Q_Maintain d = rbind (maintain now d) (\<lambda>d1. Inr (A_None, d1))"
| "sql_eval P cv now new_id (Q_Send queue data options) d =
     rbind (cv data) (\<lambda>v. rbind (cv options) (\<lambda>opts.
       rbind (send P now new_id queue (Some v) (Some opts) d) (\<lambda>(i, d1). Inr (A_Text (uuid_out i), d1))))"
| "sql_eval P cv now new_id (Q_Fetch queue) d =
     rbind (fetch [] now queue (Some 1) d) (\<lambda>(js, d1). Inr (A_Texts (map (uuid_out \<circ> j_id) js), d1))"
| "sql_eval P cv now new_id (Q_Complete queue i out) d =
     rbind (cv out) (\<lambda>v. rbind (uuid_in i) (\<lambda>u.
       case complete now queue u (Some v) d of (b, d1) \<Rightarrow> Inr (A_Bool b, d1)))"
| "sql_eval P cv now new_id (Q_Fail queue i out) d =
     rbind (cv out) (\<lambda>v. rbind (uuid_in i) (\<lambda>u.
       rbind (fail P now queue u (Some v) d) (\<lambda>(b, d1). Inr (A_Bool b, d1))))"
| "sql_eval P cv now new_id (Q_Count queue) d = Inr (A_Int (int (sql_count (pending_job queue) (jobs d))), d)"
| "sql_eval P cv now new_id (Q_State queue i) d =
     rbind (uuid_in i) (\<lambda>u. Inr (A_Text_Opt (map_option (state_text \<circ> j_state) (find_job queue u d)), d))"
| "sql_eval P cv now new_id (Q_Data queue i) d =
     rbind (uuid_in i) (\<lambda>u. Inr (A_Data (map_option j_data (find_job queue u d)), d))"
| "sql_eval P cv now new_id (Q_Channel queue) d = Inr (A_Text (channel P queue), d)"
| "sql_eval P cv now new_id (Q_Listen text) d = Inr (A_None, d)"

text \<open>
  LISTEN and NOTIFY. A channel is written as a quoted identifier, which PostgreSQL cuts to 63 bytes;
  a session hears the notifications on a channel from its first LISTEN to it on.
\<close>

fun undouble :: "string \<Rightarrow> string" where
  "undouble [] = []"
| "undouble [c] = [c]"
| "undouble (c # c' # s) =
     (if c = CHR 0x22 \<and> c' = CHR 0x22 then c # undouble s else c # undouble (c' # s))"

fun cut_to :: "nat \<Rightarrow> string \<Rightarrow> string" where
  "cut_to n [] = []"
| "cut_to n (c # s) = (if utf8_len [c] \<le> n then c # cut_to (n - utf8_len [c]) s else [])"

definition channel_of_ident :: "string \<Rightarrow> string" where
  "channel_of_ident t = cut_to 63 (undouble (butlast (tl t)))"

definition hears :: "model_world \<Rightarrow> nat \<Rightarrow> nat \<Rightarrow> bool" where
  "hears w c i \<longleftrightarrow>
     mw_unread w c \<le> i \<and>
     list_ex (\<lambda>(c', ch, k). c' = c \<and> ch = fst (notifies (mw_db w) ! i) \<and> k \<le> i) (mw_listens w)"

definition next_heard :: "model_world \<Rightarrow> nat \<Rightarrow> nat option" where
  "next_heard w c = find (hears w c) [0..<length (notifies (mw_db w))]"

fun listen :: "nat \<Rightarrow> sql \<Rightarrow> model_world \<Rightarrow> model_world" where
  "listen c (Q_Listen t) w =
     w\<lparr>mw_listens := (c, channel_of_ident t, length (notifies (mw_db w))) # mw_listens w\<rparr>"
| "listen c _ w = w"

definition model_wait :: "nat \<Rightarrow> int \<Rightarrow> model_world \<Rightarrow> (string + unit) \<times> model_world" where
  "model_wait c t w =
     (case next_heard w c of
        Some i \<Rightarrow> (Inr (), w\<lparr>mw_unread := (mw_unread w)(c := Suc i)\<rparr>)
      | None \<Rightarrow> (Inr (), w\<lparr>mw_now := mw_now w + max 0 t\<rparr>))"

text \<open>The id of a job is the default of its column: one is drawn when a row is inserted.\<close>

fun ids_drawn :: "sql \<Rightarrow> nat" where
  "ids_drawn (Q_Send queue data options) = 1"
| "ids_drawn q = 0"

definition model_query :: "model_env \<Rightarrow> nat \<Rightarrow> sql \<Rightarrow> model_world \<Rightarrow> (string + sql_reply) \<times> model_world" where
  "model_query E c q w =
     (case sql_eval (env_pg E) (env_jsonb E) (mw_now w) (env_gen E (mw_next w)) q (mw_db w) of
        Inl e \<Rightarrow> (Inl (env_msg E e), w\<lparr>mw_now := mw_now w + 1, mw_next := mw_next w + ids_drawn q\<rparr>)
      | Inr (r, d) \<Rightarrow>
          (Inr r, (listen c q w)\<lparr>mw_db := d, mw_now := mw_now w + 1, mw_next := mw_next w + ids_drawn q\<rparr>))"

lemma listen_fields [simp]:
  "mw_db (listen c q w) = mw_db w" "mw_now (listen c q w) = mw_now w"
  by (cases q; simp)+

lemma model_wait_fields [simp]:
  "fst (model_wait c t w) = Inr ()" "mw_db (snd (model_wait c t w)) = mw_db w"
  "mw_now w \<le> mw_now (snd (model_wait c t w))"
  by (simp_all add: model_wait_def split: option.split)

definition model_server :: "model_env \<Rightarrow> model_world server" where
  "model_server E =
     \<lparr>srv_connect = (\<lambda>dsn w. (Inr (mw_sessions w), w\<lparr>mw_sessions := mw_sessions w + 1\<rparr>)),
      srv_query = model_query E,
      srv_wait = model_wait,
      srv_now = (\<lambda>w. (mw_now w, w)),
      srv_sleep = (\<lambda>t w. w\<lparr>mw_now := mw_now w + max 0 t\<rparr>),
      srv_instant_max = env_instant_max E,
      srv_drain = (\<lambda>xs. xs),
      srv_json = env_json E\<rparr>"

lemma model_server_simps [simp]:
  "srv_connect (model_server E) dsn w = (Inr (mw_sessions w), w\<lparr>mw_sessions := mw_sessions w + 1\<rparr>)"
  "srv_query (model_server E) c = model_query E c"
  "srv_wait (model_server E) c t = model_wait c t"
  "srv_now (model_server E) w = (mw_now w, w)"
  "srv_sleep (model_server E) t w = w\<lparr>mw_now := mw_now w + max 0 t\<rparr>"
  "srv_drain (model_server E) xs = xs"
  by (simp_all add: model_server_def)

lemma model_query_now [simp]: "mw_now (snd (model_query E c q w)) = mw_now w + 1"
  by (simp add: model_query_def split: sum.split prod.split)

interpretation model_time: timed_server "model_server E" mw_now for E
  by unfold_locales simp_all

section \<open>Names of queues\<close>

definition names :: "db \<Rightarrow> string set" where
  "names d = q_name ` set (queues d) \<union> j_name ` set (jobs d)"

lemma update_res_names:
  assumes "sql_update_res p f rows = Inr rows1" "\<And>r r1. f r = Inr r1 \<Longrightarrow> j_name r1 = j_name r"
  shows "map j_name rows1 = map j_name rows"
proof -
  have "list_all2 (\<lambda>r r1. (if p r then f r else Inr r) = Inr r1) rows rows1"
    using map_res_Inr assms(1) unfolding sql_update_res_def by blast
  then show ?thesis
    by (induction rule: list_all2_induct) (auto split: if_splits dest: assms(2))
qed

lemma update_names:
  "(\<And>r. j_name (f r) = j_name r) \<Longrightarrow> j_name ` set (sql_update p f rows) = j_name ` set rows"
proof -
  assume "\<And>r. j_name (f r) = j_name r"
  then have "map j_name (sql_update p f rows) = map j_name rows" by (simp add: map_key_sql_update)
  then show ?thesis by (metis set_map)
qed

lemma fetch_names: "fetch locked now q n d = Inr (js, d1) \<Longrightarrow> names d1 = names d"
  by (drule fetch_db) (simp add: names_def update_names)

lemma complete_names: "names (snd (complete now q i out d)) = names d"
  by (simp add: complete_def names_def Let_def update_names)

lemma fail_names:
  assumes "fail P now q i out d = Inr (b, d1)"
  shows "names d1 = names d"
proof -
  have retry: "retry_row now out j = Inr j1 \<Longrightarrow> j_name j1 = j_name j" for j j1
    by (auto simp: retry_row_def)
  have name: "j_name ` set rows = j_name ` set (jobs d)"
    if "sql_update_res p (retry_row now out) (jobs d) = Inr rows" for p rows
    using update_res_names [OF that retry] by (metis set_map)
  show ?thesis
  proof (cases "find (is_active q i) (jobs d)")
    case (Some j)
    show ?thesis
    proof (cases "j_retry_count j < j_retry_limit j")
      case True
      then obtain rows where "sql_update_res (\<lambda>r. j_id r = j_id j) (retry_row now out) (jobs d) = Inr rows"
        "d1 = d\<lparr>jobs := rows, notifies := notifies d @ [(channel P q, uuid_out (j_id j))]\<rparr>"
        using assms Some by (auto simp: fail_def dest!: pg_notify_jobs)
      then show ?thesis using name by (simp add: names_def)
    next
      case False
      then have "d1 = d\<lparr>jobs := sql_update (\<lambda>r. j_id r = j_id j) (fail_row now out) (jobs d)\<rparr>"
        using assms Some by (simp add: fail_def)
      then show ?thesis by (simp add: names_def update_names)
    qed
  qed (use assms in \<open>simp add: fail_def\<close>)
qed

lemma maintain_names:
  assumes "maintain now d = Inr d1"
  shows "names d1 \<subseteq> names d"
proof -
  have row: "expire_row now j = Inr j1 \<Longrightarrow> j_name j1 = j_name j" for j j1
    by (auto simp: expire_row_def Let_def split: if_splits)
  obtain rows where rows: "sql_update_res (expired now) (expire_row now) (jobs d) = Inr rows"
    "d1 = d\<lparr>jobs := sql_delete (purgeable now) rows\<rparr>"
    using assms by (auto simp: maintain_def)
  have "j_name ` set rows = j_name ` set (jobs d)"
    using update_res_names [OF rows(1) row] by (metis set_map)
  then show ?thesis using rows(2) by (auto simp: names_def)
qed

lemma send_names: "send P now i q data options d = Inr (v, d1) \<Longrightarrow> names d1 = names d"
  by (erule send_elim) (auto simp: names_def)

lemma sql_eval_names:
  assumes "sql_eval P cv now new_id q d = Inr (r, d1)" "\<And>opts. q \<noteq> Q_Create_Queue name opts" "name \<notin> names d"
  shows "name \<notin> names d1"
proof (cases q)
  case (Q_Create_Queue n options)
  then show ?thesis
    using assms(1,3) assms(2) [of options]
    by (cases "cv options") (auto simp: create_queue_def insert_queue_def names_def Let_def split: if_splits)
next
  case (Q_Delete_Queue n)
  then show ?thesis using assms by (auto simp: delete_queue_def names_def)
next
  case (Q_Complete n i out)
  then show ?thesis
    using assms(1,3) complete_names [of now n "projr (uuid_in i)" "Some (projr (cv out))" d]
    by (cases "uuid_in i"; cases "cv out") (auto split: prod.splits)
next
  case (Q_Fetch n)
  then show ?thesis using assms(1,3) fetch_names by auto
next
  case (Q_Send n data options)
  then show ?thesis using assms(1,3) send_names by auto
next
  case (Q_Fail n i out)
  then show ?thesis using assms(1,3) fail_names by auto
next
  case Q_Maintain
  then show ?thesis using assms(1,3) maintain_names by auto
qed (use assms in auto)

definition queue_absent :: "model_world \<Rightarrow> string \<Rightarrow> bool" where
  "queue_absent w q \<longleftrightarrow> q \<notin> names (mw_db w)"

interpretation model_queues: queue_server "model_server E" queue_absent for E
proof
  fix c q w
  show "queue_absent (snd (srv_query (model_server E) c (Q_Delete_Queue q) w)) q"
    by (auto simp: model_query_def queue_absent_def delete_queue_def names_def)
  show "queue_absent (snd (srv_query (model_server E) c x w)) q"
    if "\<And>opts. x \<noteq> Q_Create_Queue q opts" "queue_absent w q" for x
    using that sql_eval_names [of "env_pg E" "env_jsonb E" "mw_now w" "env_gen E (mw_next w)" x "mw_db w"]
    by (auto simp: model_query_def queue_absent_def split: sum.split prod.split)
qed (auto simp: queue_absent_def)

lemma model_connects: "\<exists>c s0. client_for (model_server E) n s = (Inr c, s0)"
  by (cases "r_clients (runner_of s) n")
    (auto simp: client_for_def tbind_def connect_def call_def open_session_def create_extension_def
      on_runner_def Let_def model_query_def split: prod.split sum.split)

end
