(* ===== verification/Quiet_Runs.thy ===== *)
theory Quiet_Runs
  imports Model_Server Dsl_Props
begin

text \<open>
  Statements of the runner (src/dsltest/src/runner.rs) on the model of the extension while no
  consumer is spawned: what each statement does to the one job of a queue, and that it passes.
\<close>

section \<open>The foreground alone\<close>

text \<open>
  What the foreground knows between two statements, when no consumer was spawned: its session, the
  variables, the database, and a bound of the clock.
\<close>

definition quiet :: "nat \<Rightarrow> (string \<Rightarrow> var_value option) \<Rightarrow> db \<Rightarrow> int \<Rightarrow> model_world sys \<Rightarrow> bool" where
  "quiet c vars d t s \<longleftrightarrow>
     threads s = [] \<and> r_clients (runner_of s) 1 = Some c \<and> r_vars (runner_of s) = vars \<and>
     r_pending (runner_of s) = [] \<and> mw_db (world s) = d \<and> t \<le> mw_now (world s)"

lemma step_thread_none: "threads s = [] \<Longrightarrow> step_thread S i s = s"
  by (simp add: step_thread_def)

lemma background_quiet: "quiet c vars d t s \<Longrightarrow> quiet c vars d t (background S s)"
proof -
  assume q: "quiet c vars d t s"
  have "threads u = [] \<Longrightarrow> fold (step_thread S) is u = u" for "is" u
    by (induction "is") (simp_all add: step_thread_none)
  then show ?thesis using q by (auto simp: quiet_def background_def split: list.split)
qed

text \<open>A statement of the foreground, at some clock \<open>now\<close> and with some new id.\<close>

lemma tbind_assoc: "tbind (tbind p f) g = tbind p (\<lambda>a. tbind (f a) g)"
  by (rule ext) (simp add: tbind_def split: prod.split sum.split)

lemma quiet_call:
  assumes "quiet c vars d t s"
  obtains now n where "t \<le> now"
    and "\<forall>r d1 k x. sql_eval (env_pg E) (env_jsonb E) now (env_gen E n) q d = Inr (r, d1) \<longrightarrow> (\<forall>w. k r w = (x, w)) \<longrightarrow>
      (\<exists>s1. call (model_server E) (tbind (query (model_server E) c q) k) s = (x, s1) \<and> quiet c vars d1 now s1)"
proof -
  let ?b = "background (model_server E) s"
  have b: "quiet c vars d t ?b" using background_quiet [OF assms] .
  show thesis
    by (rule that [of "mw_now (world ?b)" "mw_next (world ?b)"])
      (use b in \<open>auto simp: quiet_def call_def query_def model_query_def tbind_def Let_def\<close>)
qed

lemma quiet_client: "quiet c vars d t s \<Longrightarrow> client_for S 1 s = (Inr c, s)"
  by (simp add: quiet_def client_for_def)

lemma quiet_foreground:
  assumes "quiet c vars d t s"
  obtains now n where "t \<le> now"
    and "\<forall>r d1. sql_eval (env_pg E) (env_jsonb E) now (env_gen E n) q d = Inr (r, d1) \<longrightarrow>
      (\<exists>s1. foreground (model_server E) 1 q s = (Inr r, s1) \<and> quiet c vars d1 now s1)"
proof -
  have q: "query (model_server E) c q = tbind (query (model_server E) c q) tret"
    by (rule ext) (simp add: tbind_def split: prod.split sum.split)
  have f: "foreground (model_server E) 1 q s = call (model_server E) (query (model_server E) c q) s"
    using assms by (intro foreground_client) (simp add: quiet_def)
  obtain now n where "t \<le> now"
    and n: "\<forall>r d1 k x. sql_eval (env_pg E) (env_jsonb E) now (env_gen E n) q d = Inr (r, d1) \<longrightarrow> (\<forall>w. k r w = (x :: failure + sql_reply, w)) \<longrightarrow>
      (\<exists>s1. call (model_server E) (tbind (query (model_server E) c q) k) s = (x, s1) \<and> quiet c vars d1 now s1)"
    by (rule quiet_call [OF assms, of E q])
  show thesis
  proof (rule that [OF \<open>t \<le> now\<close>])
    show "\<forall>r d1. sql_eval (env_pg E) (env_jsonb E) now (env_gen E n) q d = Inr (r, d1) \<longrightarrow>
      (\<exists>s1. foreground (model_server E) 1 q s = (Inr r, s1) \<and> quiet c vars d1 now s1)"
    proof (intro allI impI)
      fix r d1
      assume "sql_eval (env_pg E) (env_jsonb E) now (env_gen E n) q d = Inr (r, d1)"
      from n [rule_format, OF this, of tret "Inr r"]
      show "\<exists>s1. foreground (model_server E) 1 q s = (Inr r, s1) \<and> quiet c vars d1 now s1"
        using f q by simp
    qed
  qed
qed

text \<open>The jobs of a database in which queue \<open>q\<close> is registered and holds the one job \<open>j\<close>, or none.\<close>

definition holds_job :: "string \<Rightarrow> job option \<Rightarrow> db \<Rightarrow> bool" where
  "holds_job q x d \<longleftrightarrow>
     db_inv d \<and> q \<in> q_name ` set (queues d) \<and>
     (\<exists>others. jobs d = others @ (case x of None \<Rightarrow> [] | Some j \<Rightarrow> [j]) \<and> (\<forall>k \<in> set others. j_name k \<noteq> q)) \<and>
     (case x of None \<Rightarrow> True | Some j \<Rightarrow> j_name j = q)"

lemma find_append: "find p (xs @ ys) = (case find p xs of Some x \<Rightarrow> Some x | None \<Rightarrow> find p ys)"
  by (induction xs) auto

lemma update_last:
  assumes "\<And>k. k \<in> set others \<Longrightarrow> \<not> p k" "p j"
  shows "sql_update p f (others @ [j]) = others @ [f j]"
  using assms sql_update_id [of others p f] by (simp add: sql_update_def)

lemma holds_find: "holds_job q (Some j) d \<Longrightarrow> find_job q (j_id j) d = Some j"
proof -
  assume h: "holds_job q (Some j) d"
  then obtain others where o: "jobs d = others @ [j]" "\<forall>k \<in> set others. j_name k \<noteq> q" "j_name j = q"
    by (auto simp: holds_job_def)
  have "find (\<lambda>k. j_name k = q \<and> j_id k = j_id j) others = None"
    using o(2) by (auto simp: find_None_iff)
  then show ?thesis
    using o by (simp add: find_job_def find_append)
qed

lemma holds_count: "holds_job q x d \<Longrightarrow>
    sql_count (pending_job q) (jobs d) = (case x of None \<Rightarrow> 0 | Some j \<Rightarrow> if j_state j = Created \<or> j_state j = Retry then 1 else 0)"
  by (auto simp: holds_job_def sql_count_def pending_job_def filter_empty_conv split: option.splits)

lemma holds_fetch:
  assumes "holds_job q (Some j) d" "j_state j = Created \<or> j_state j = Retry" "j_start_after j \<le> now"
  shows "\<exists>d1. fetch [] now q (Some 1) d = Inr ([claim now j], d1) \<and> holds_job q (Some (claim now j)) d1"
proof -
  obtain others where o: "jobs d = others @ [j]" "\<forall>k \<in> set others. j_name k \<noteq> q" "j_name j = q"
    and inv: "db_inv d"
    using assms(1) by (auto simp: holds_job_def)
  have "filter (\<lambda>k. fetchable now q k) (jobs d) = [j]"
    using o assms(2,3) by (auto simp: fetchable_def filter_empty_conv)
  then have n: "fetch_next [] now q (Some 1) (jobs d) = [j]"
    by (simp add: fetch_next_def)
  have ids: "\<forall>k \<in> set others. j_id k \<noteq> j_id j"
    using db_inv_ids [OF inv] unfolding o(1) by (auto simp: image_iff)
  then have u: "sql_update (\<lambda>k. j_id k = j_id j) (claim now) (jobs d) = others @ [claim now j]"
    unfolding o(1) by (intro update_last) auto
  let ?d1 = "d\<lparr>jobs := others @ [claim now j]\<rparr>"
  have f: "fetch [] now q (Some 1) d = Inr ([claim now j], ?d1)"
    using n u ids by (auto simp: fetch_def Let_def filter_empty_conv)
  with fetch_inv [OF inv f] show ?thesis
    using o assms(1) by (auto simp: holds_job_def)
qed

lemma holds_complete:
  assumes "holds_job q (Some j) d" "j_state j = Active"
  shows "\<exists>d1. complete now q (j_id j) out d = (True, d1) \<and> holds_job q (Some (completed now out j)) d1"
proof -
  obtain others where o: "jobs d = others @ [j]" "\<forall>k \<in> set others. j_name k \<noteq> q" "j_name j = q"
    and inv: "db_inv d"
    using assms(1) by (auto simp: holds_job_def)
  have "sql_update (is_active q (j_id j))
      (\<lambda>j. j\<lparr>j_state := Completed, j_completed_on := Some now, j_output := out\<rparr>) (jobs d) =
      others @ [completed now out j]"
    unfolding o(1) completed_def by (rule update_last [where f = "\<lambda>j. j\<lparr>j_state := Completed, j_completed_on := Some now, j_output := out\<rparr>"]) (use o assms(2) in \<open>auto simp: is_active_def\<close>)
  then have "complete now q (j_id j) out d = (True, d\<lparr>jobs := others @ [completed now out j]\<rparr>)"
    using o assms(2) by (simp add: complete_def Let_def sql_count_pos is_active_def)
  with complete_inv [OF inv, of now q "j_id j" out] show ?thesis
    using o assms(1) by (auto simp: holds_job_def)
qed

lemma holds_fail:
  assumes "holds_job q (Some j) d" "j_state j = Active" "utf8_len (channel P q) \<in> {1..63}"
  shows "\<exists>d1. fail P now q (j_id j) out d = Inr (True, d1) \<and> holds_job q (Some (failed now out j)) d1"
proof -
  obtain others where o: "jobs d = others @ [j]" "\<forall>k \<in> set others. j_name k \<noteq> q" "j_name j = q"
    and inv: "db_inv d"
    using assms(1) by (auto simp: holds_job_def)
  have "find (is_active q (j_id j)) others = None"
    using o(2) by (auto simp: find_None_iff is_active_def)
  then have f: "find (is_active q (j_id j)) (jobs d) = Some j"
    using o(1,3) assms(2) by (simp add: find_append is_active_def)
  have ids: "j_id k \<noteq> j_id j" if "k \<in> set others" for k
    using db_inv_ids [OF inv] that unfolding o(1) by (auto simp: image_iff)
  have u: "sql_update (\<lambda>r. j_id r = j_id j) g (jobs d) = others @ [g j]" for g
    unfolding o(1) using ids by (intro update_last) auto
  obtain d1 where d1: "fail P now q (j_id j) out d = Inr (True, d1)" "jobs d1 = others @ [failed now out j]"
    "queues d1 = queues d"
    using assms(3) by (cases "j_retry_count j < j_retry_limit j") (simp_all add: fail_eq [OF inv] f u pg_notify_def failed_def)
  show ?thesis
    using d1 o assms(1) fail_inv [OF inv d1(1)] by (auto simp: holds_job_def failed_def)
qed

section \<open>The statements of a delivery\<close>

lemma queue_options_plain: "queue_options_ok opts \<Longrightarrow> jsonb_plain (queue_options_to_json opts)"
  by (auto simp: queue_options_to_json_def queue_options_ok_def opt_i64_def no_nul_def intro!: plain_put)

definition small_options :: "send_options \<Rightarrow> bool" where
  "small_options opts \<longleftrightarrow>
     (\<forall>v \<in> {so_priority opts, so_start_after opts, so_retry_limit opts, so_retry_delay opts,
       so_expire_in_seconds opts}. in_int4 (given v 0)) \<and> 0 \<le> given (so_start_after opts) 0"

lemma small_i64: "in_int4 (given v 0) \<Longrightarrow> v = Some n \<Longrightarrow> in_i64 n"
  by (simp add: given_def in_int4_def in_i64_def)

lemma small_options_ok: "small_options opts \<Longrightarrow> send_options_ok opts"
  by (auto simp: small_options_def send_options_ok_def opt_i64_def small_i64 split: option.splits)

lemma small_options_plain: "small_options opts \<Longrightarrow> jsonb_plain (send_options_to_json opts)"
  by (auto simp: small_options_def send_options_to_json_def no_nul_def small_i64 intro!: plain_put)

lemma small_options_default: "small_options send_options_default"
  by (simp add: small_options_def send_options_default_def given_def in_int4_def)

lemma quiet_cleanup:
  assumes "quiet c vars d t s"
  shows "\<exists>now s1. t \<le> now \<and> cleanup_queues (model_server E) [q] s = (Inr (), s1) \<and>
    quiet c vars (snd (delete_queue q d)) now s1"
proof -
  obtain now n where "t \<le> now" and n: "\<forall>r d1. sql_eval (env_pg E) (env_jsonb E) now (env_gen E n) (Q_Delete_Queue q) d = Inr (r, d1) \<longrightarrow>
      (\<exists>s1. foreground (model_server E) 1 (Q_Delete_Queue q) s = (Inr r, s1) \<and> quiet c vars d1 now s1)"
    by (rule quiet_foreground [OF assms, of E "Q_Delete_Queue q"])
  have "sql_eval (env_pg E) (env_jsonb E) now (env_gen E n) (Q_Delete_Queue q) d = Inr (A_Bool True, snd (delete_queue q d))"
    by (simp add: delete_queue_def)
  with n obtain s1 where "foreground (model_server E) 1 (Q_Delete_Queue q) s = (Inr (A_Bool True), s1)"
    "quiet c vars (snd (delete_queue q d)) now s1"
    by blast
  with \<open>t \<le> now\<close> show ?thesis by auto
qed

lemma quiet_create:
  assumes "quiet c vars d t s" "db_inv d" "q \<notin> names d" "keeps_plain E" "queue_options_ok opts"
  shows "\<exists>now s1 d1. t \<le> now \<and> exec_command (model_server E) line 1 (CreateQueue q opts) s = Some (Inr (), s1) \<and>
    quiet c vars d1 now s1 \<and> holds_job q None d1 \<and> ids d1 = ids d"
proof -
  let ?j = "queue_options_to_json opts"
  obtain now n where "t \<le> now" and n: "\<forall>r d1. sql_eval (env_pg E) (env_jsonb E) now (env_gen E n) (Q_Create_Queue q ?j) d = Inr (r, d1) \<longrightarrow>
      (\<exists>s1. foreground (model_server E) 1 (Q_Create_Queue q ?j) s = (Inr r, s1) \<and> quiet c vars d1 now s1)"
    by (rule quiet_foreground [OF assms(1), of E "Q_Create_Queue q ?j"])
  let ?d1 = "snd (create_queue now q ?j d)"
  have e: "sql_eval (env_pg E) (env_jsonb E) now (env_gen E n) (Q_Create_Queue q ?j) d = Inr (A_Bool True, ?d1)"
    using keeps_plainD [OF assms(4) queue_options_plain [OF assms(5)]] by (simp add: create_queue_def Let_def)
  from n e obtain s1 where s1: "foreground (model_server E) 1 (Q_Create_Queue q ?j) s = (Inr (A_Bool True), s1)"
    "quiet c vars ?d1 now s1"
    by blast
  have "holds_job q None ?d1"
    using assms(3) create_queue_inv [OF assms(2), of now q ?j]
    by (auto simp: holds_job_def create_queue_def insert_queue_def names_def Let_def)
  moreover have "ids ?d1 = ids d"
    by (simp add: ids_def create_queue_def insert_queue_def Let_def)
  ultimately show ?thesis
    using s1 \<open>t \<le> now\<close> by (intro exI [of _ now] exI [of _ s1] exI [of _ ?d1]) (simp add: ignore_reply_def)
qed

lemma holds_send:
  assumes "holds_job q None d" "utf8_len (channel (env_pg E) q) \<in> {1..63}" "new_id \<notin> ids d"
    and "small_options opts" "keeps_plain E" "jsonb_plain data"
  obtains j d1 where "sql_eval (env_pg E) (env_jsonb E) now new_id (Q_Send q data (send_options_to_json opts)) d =
      Inr (A_Text (uuid_out new_id), d1)"
    and "holds_job q (Some j) d1" "notifies d1 = notifies d @ [(channel (env_pg E) q, uuid_out new_id)]"
    and "j_state j = Created" "j_start_after j = now + seconds (given (so_start_after opts) 0)"
    and "j_data j = Some data" "j_retry_count j = 0"
    and "\<forall>n. so_retry_limit opts = Some n \<longrightarrow> j_retry_limit j = n"
    and "\<forall>n. so_retry_delay opts = Some n \<longrightarrow> j_retry_delay j = n"
proof -
  obtain row where row: "row \<in> set (queues d)" "q_name row = q" and inv: "db_inv d"
    using assms(1) by (auto simp: holds_job_def)
  note got = int_option_given [OF send_options_json_get(1)] int_option_given [OF send_options_json_get(2)]
    int_option_given [OF send_options_json_get(3)] int_option_given [OF send_options_json_get(4)]
    int_option_given [OF send_options_json_get(5)]
  have opts: "int_options (send_options_to_json opts)"
    using assms(4) int_or_absent_given [OF send_options_json_get(1)] int_or_absent_given [OF send_options_json_get(2)]
      int_or_absent_given [OF send_options_json_get(3)] int_or_absent_given [OF send_options_json_get(4)]
      int_or_absent_given [OF send_options_json_get(5)]
    by (simp add: int_options_def got small_options_def)
  let ?j = "sent_job now new_id row (Some data) (send_options_to_json opts)"
  let ?d1 = "d\<lparr>jobs := jobs d @ [?j], notifies := notifies d @ [(channel (env_pg E) q, uuid_out new_id)]\<rparr>"
  have send: "send (env_pg E) now new_id q (Some data) (Some (send_options_to_json opts)) d = Inr (new_id, ?d1)"
    using send_int_options [OF inv row(1) assms(3) opts, of "env_pg E" now "Some data"] row(2) assms(2)
    by (simp add: pg_notify_def)
  show thesis
  proof (rule that [of ?d1 ?j])
    show "sql_eval (env_pg E) (env_jsonb E) now new_id (Q_Send q data (send_options_to_json opts)) d =
        Inr (A_Text (uuid_out new_id), ?d1)"
      using send keeps_plainD [OF assms(5)] assms(6) small_options_plain [OF assms(4)] by simp
    show "holds_job q (Some ?j) ?d1"
      using assms(1) send_inv [OF inv send] row(2) by (auto simp: holds_job_def sent_job_def)
  qed (simp_all add: sent_job_def got given_def)
qed

lemma quiet_push:
  assumes "quiet c vars d t s" "holds_job q None d" "utf8_len (channel (env_pg E) q) \<in> {1..63}"
    and "\<forall>n. env_gen E n \<notin> ids d" "small_options opts" "keeps_plain E" "jsonb_plain data"
  shows "\<exists>now s1 d1 j. t \<le> now \<and>
    exec_command (model_server E) line 1 (Push q data opts) s = Some (Inr (), s1) \<and>
    quiet c vars d1 now s1 \<and> holds_job q (Some j) d1 \<and>
    j_state j = Created \<and> j_start_after j = now + seconds (given (so_start_after opts) 0) \<and>
    j_data j = Some data \<and> j_retry_count j = 0 \<and>
    (\<forall>n. so_retry_limit opts = Some n \<longrightarrow> j_retry_limit j = n) \<and>
    (\<forall>n. so_retry_delay opts = Some n \<longrightarrow> j_retry_delay j = n)"
proof -
  let ?q = "Q_Send q data (send_options_to_json opts)"
  obtain now n where "t \<le> now" and n: "\<forall>r d1. sql_eval (env_pg E) (env_jsonb E) now (env_gen E n) ?q d = Inr (r, d1) \<longrightarrow>
      (\<exists>s1. foreground (model_server E) 1 ?q s = (Inr r, s1) \<and> quiet c vars d1 now s1)"
    by (rule quiet_foreground [OF assms(1), of E ?q])
  obtain j d1 where j: "sql_eval (env_pg E) (env_jsonb E) now (env_gen E n) ?q d = Inr (A_Text (uuid_out (env_gen E n)), d1)"
    "holds_job q (Some j) d1" "j_state j = Created" "j_start_after j = now + seconds (given (so_start_after opts) 0)"
    "j_data j = Some data" "j_retry_count j = 0"
    "\<forall>n. so_retry_limit opts = Some n \<longrightarrow> j_retry_limit j = n"
    "\<forall>n. so_retry_delay opts = Some n \<longrightarrow> j_retry_delay j = n"
    by (rule holds_send [OF assms(2,3) assms(4) [rule_format, of n] assms(5-7)])
  with n obtain s1 where s1: "foreground (model_server E) 1 ?q s = (Inr (A_Text (uuid_out (env_gen E n))), s1)"
    "quiet c vars d1 now s1"
    by blast
  then have "exec_command (model_server E) line 1 (Push q data opts) s = Some (Inr (), s1)"
    by (simp add: exec_push_def)
  then show ?thesis using s1(2) \<open>t \<le> now\<close> j by blast
qed

abbreviation handle_of :: "string \<Rightarrow> job \<Rightarrow> job_handle" where
  "handle_of q j \<equiv> \<lparr>h_queue = q, h_id = uuid_out (j_id j)\<rparr>"

lemma quiet_consume:
  assumes "quiet c vars d t s" "holds_job q (Some j) d" "j_state j = Created \<or> j_state j = Retry"
    and "j_start_after j \<le> t"
  shows "\<exists>now s1 d1. t \<le> now \<and> exec_command (model_server E) line 1 (Consume q v within) s = Some (Inr (), s1) \<and>
    quiet c (vars(v \<mapsto> Var_Job (handle_of q j))) d1 now s1 \<and> holds_job q (Some (claim now j)) d1"
proof -
  let ?k = "\<lambda>r. tbind (get_texts r) (\<lambda>rows.
    tbind (tret (case rows of [] \<Rightarrow> None | i # _ \<Rightarrow> Some \<lparr>h_queue = q, h_id = i\<rparr>)) (\<lambda>j. case j of
         Some h \<Rightarrow> tret (Inr (Some h))
       | None \<Rightarrow> (case within of None \<Rightarrow> tret (Inr None) | Some _ \<Rightarrow> tret (Inl CW_Channel))))"
  obtain now n where now: "t \<le> now" and n: "\<forall>r d1 k x. sql_eval (env_pg E) (env_jsonb E) now (env_gen E n) (Q_Fetch q) d = Inr (r, d1) \<longrightarrow>
      (\<forall>w. k r w = (x :: failure + (cw_pc + job_handle option), w)) \<longrightarrow>
      (\<exists>s1. call (model_server E) (tbind (query (model_server E) c (Q_Fetch q)) k) s = (x, s1) \<and> quiet c vars d1 now s1)"
    by (rule quiet_call [OF assms(1), of E "Q_Fetch q"])
  obtain d1 where d1: "fetch [] now q (Some 1) d = Inr ([claim now j], d1)" "holds_job q (Some (claim now j)) d1"
    using holds_fetch [OF assms(2,3), of now] assms(4) now by auto
  then have e: "sql_eval (env_pg E) (env_jsonb E) now (env_gen E n) (Q_Fetch q) d = Inr (A_Texts [uuid_out (j_id j)], d1)" by simp
  have "?k (A_Texts [uuid_out (j_id j)]) w = (Inr (Inr (Some (handle_of q j))), w)" for w :: model_world
    by (simp add: get_texts_def tbind_def)
  from n [rule_format, where k = ?k, OF e this] obtain s1 where s1: "call (model_server E) (tbind (query (model_server E) c (Q_Fetch q)) ?k) s =
      (Inr (Inr (Some (handle_of q j))), s1)" "quiet c vars d1 now s1"
    by blast
  have "cw_step (model_server E) c q within CW_First = tbind (query (model_server E) c (Q_Fetch q)) ?k"
    by (simp add: fetch_one_def tbind_assoc)
  then have "consume_wait (model_server E) c q within s = Some (Inr (Some (handle_of q j)), s1)"
    using s1(1) unfolding consume_wait_def by (subst loop_unfold) simp
  then have "exec_command (model_server E) line 1 (Consume q v within) s =
      Some (Inr (), s1\<lparr>runner_of := (runner_of s1)\<lparr>r_vars := (r_vars (runner_of s1))(v \<mapsto> Var_Job (handle_of q j))\<rparr>\<rparr>)"
    using quiet_client [OF assms(1)] by (simp add: exec_consume_def bind_var_def on_runner_def)
  moreover have "quiet c (vars(v \<mapsto> Var_Job (handle_of q j))) d1 now
      (s1\<lparr>runner_of := (runner_of s1)\<lparr>r_vars := (r_vars (runner_of s1))(v \<mapsto> Var_Job (handle_of q j))\<rparr>\<rparr>)"
    using s1(2) by (simp add: quiet_def)
  ultimately show ?thesis using now d1(2) by blast
qed

lemma quiet_the_job:
  "quiet c vars d t s \<Longrightarrow> vars v = Some (Var_Job h) \<Longrightarrow> the_job v line s = (Inr h, s)"
  by (simp add: quiet_def the_job_def)

lemma quiet_job_state:
  assumes "quiet c vars d t s" "holds_job q (Some j) d"
  obtains now s1 where "t \<le> now"
    and "call (model_server E) (job_state_of (model_server E) c (handle_of q j)) s = (Inr (Some (state_text (j_state j))), s1)"
    and "quiet c vars d now s1"
proof -
  let ?q = "Q_State q (uuid_out (j_id j))"
  obtain now n where now: "t \<le> now" and n: "\<forall>r d1 k x. sql_eval (env_pg E) (env_jsonb E) now (env_gen E n) ?q d = Inr (r, d1) \<longrightarrow>
      (\<forall>w. k r w = (x :: failure + string option, w)) \<longrightarrow>
      (\<exists>s1. call (model_server E) (tbind (query (model_server E) c ?q) k) s = (x, s1) \<and> quiet c vars d1 now s1)"
    by (rule quiet_call [OF assms(1), of E ?q])
  have e: "sql_eval (env_pg E) (env_jsonb E) now (env_gen E n) ?q d = Inr (A_Text_Opt (Some (state_text (j_state j))), d)"
    using holds_find [OF assms(2)] by (simp add: uuid_in_out)
  have "get_text_opt (A_Text_Opt (Some (state_text (j_state j)))) w = (Inr (Some (state_text (j_state j))), w)"
    for w :: model_world
    by (simp add: get_text_opt_def)
  from n [rule_format, where k = get_text_opt, OF e this] that [OF now] show thesis
    unfolding job_state_of_def by auto
qed

lemma quiet_check_state:
  assumes "quiet c vars d t s" "holds_job q (Some j) d" "vars v = Some (Var_Job (handle_of q j))"
    and "st = state_text (j_state j)"
  shows "\<exists>now s1. t \<le> now \<and> exec_command (model_server E) line 1 (CheckState v st) s = Some (Inr (), s1) \<and>
    quiet c vars d now s1"
proof -
  obtain now s1 where "t \<le> now" "quiet c vars d now s1"
    "call (model_server E) (job_state_of (model_server E) c (handle_of q j)) s = (Inr (Some (state_text (j_state j))), s1)"
    by (rule quiet_job_state [OF assms(1,2)])
  then show ?thesis
    using quiet_the_job [OF assms(1,3)] quiet_client [OF assms(1)] assms(4)
    by (auto simp: exec_check_state_def assert_that_def)
qed

lemma quiet_check_ack:
  assumes "quiet c vars d t s" "holds_job q (Some j) d" "vars v = Some (Var_Job (handle_of q j))"
    and "j_state j = Completed"
  shows "\<exists>now s1. t \<le> now \<and> exec_command (model_server E) line 1 (CheckAck v None) s = Some (Inr (), s1) \<and>
    quiet c vars d now s1"
proof -
  obtain now s1 where s1: "t \<le> now" "quiet c vars d now s1"
    "call (model_server E) (job_state_of (model_server E) c (handle_of q j)) s = (Inr (Some (state_text (j_state j))), s1)"
    by (rule quiet_job_state [OF assms(1,2)])
  have "check_ack_round (model_server E) line 1 v (handle_of q j) None s = (Inr (Inr ()), s1)"
    using quiet_client [OF assms(1)] s1(3) assms(4) by (simp add: check_ack_round_def)
  then have "loop (\<lambda>_. check_ack_round (model_server E) line 1 v (handle_of q j) None) () s = Some (Inr (), s1)"
    by (subst loop_unfold) simp
  then show ?thesis
    using quiet_the_job [OF assms(1,3)] s1 by (auto simp: exec_check_ack_def)
qed

lemma quiet_check_data:
  assumes "quiet c vars d t s" "holds_job q (Some j) d" "vars v = Some (Var_Job (handle_of q j))"
    and "j_data j = Some data"
  shows "\<exists>now s1. t \<le> now \<and> exec_command (model_server E) line 1 (CheckData v data) s = Some (Inr (), s1) \<and>
    quiet c vars d now s1"
proof -
  let ?q = "Q_Data q (uuid_out (j_id j))"
  obtain now n where "t \<le> now" and n: "\<forall>r d1. sql_eval (env_pg E) (env_jsonb E) now (env_gen E n) ?q d = Inr (r, d1) \<longrightarrow>
      (\<exists>s1. foreground (model_server E) 1 ?q s = (Inr r, s1) \<and> quiet c vars d1 now s1)"
    by (rule quiet_foreground [OF assms(1), of E ?q])
  have "sql_eval (env_pg E) (env_jsonb E) now (env_gen E n) ?q d = Inr (A_Data (Some (Some data)), d)"
    using holds_find [OF assms(2)] assms(4) by (simp add: uuid_in_out)
  with n obtain s1 where "foreground (model_server E) 1 ?q s = (Inr (A_Data (Some (Some data))), s1)" "quiet c vars d now s1"
    by blast
  with \<open>t \<le> now\<close> show ?thesis
    using quiet_the_job [OF assms(1,3)] by (auto simp: exec_check_data_def get_data_def assert_that_def)
qed

lemma quiet_ack:
  assumes "quiet c vars d t s" "holds_job q (Some j) d" "vars v = Some (Var_Job (handle_of q j))"
    and "j_state j = Active" "keeps_plain E" "case out of None \<Rightarrow> True | Some x \<Rightarrow> jsonb_plain x"
  shows "\<exists>now s1 d1 x. t \<le> now \<and> exec_command (model_server E) line 1 (Ack v out) s = Some (Inr (), s1) \<and>
    quiet c vars d1 now s1 \<and> holds_job q (Some (completed now x j)) d1"
proof -
  let ?out = "case out of None \<Rightarrow> empty_obj | Some x \<Rightarrow> x"
  let ?q = "Q_Complete q (uuid_out (j_id j)) ?out"
  obtain now n where "t \<le> now" and n: "\<forall>r d1. sql_eval (env_pg E) (env_jsonb E) now (env_gen E n) ?q d = Inr (r, d1) \<longrightarrow>
      (\<exists>s1. foreground (model_server E) 1 ?q s = (Inr r, s1) \<and> quiet c vars d1 now s1)"
    by (rule quiet_foreground [OF assms(1), of E ?q])
  obtain d1 where d1: "complete now q (j_id j) (Some ?out) d = (True, d1)" "holds_job q (Some (completed now (Some ?out) j)) d1"
    using holds_complete [OF assms(2,4)] by blast
  then have "sql_eval (env_pg E) (env_jsonb E) now (env_gen E n) ?q d = Inr (A_Bool True, d1)"
    using keeps_plainD [OF assms(5), of ?out] assms(6) by (simp add: uuid_in_out empty_obj_def split: option.splits)
  with n obtain s1 where "foreground (model_server E) 1 ?q s = (Inr (A_Bool True), s1)" "quiet c vars d1 now s1"
    by blast
  with \<open>t \<le> now\<close> d1(2) show ?thesis
    using quiet_the_job [OF assms(1,3)] by (auto simp: exec_finish_def get_bool_def assert_that_def)
qed

lemma quiet_fail:
  assumes "quiet c vars d t s" "holds_job q (Some j) d" "vars v = Some (Var_Job (handle_of q j))"
    and "j_state j = Active" "keeps_plain E" "case out of None \<Rightarrow> True | Some x \<Rightarrow> jsonb_plain x"
    and "utf8_len (channel (env_pg E) q) \<in> {1..63}"
  shows "\<exists>now s1 d1 x. t \<le> now \<and> exec_command (model_server E) line 1 (Fail v out) s = Some (Inr (), s1) \<and>
    quiet c vars d1 now s1 \<and> holds_job q (Some (failed now x j)) d1"
proof -
  let ?out = "case out of None \<Rightarrow> empty_obj | Some x \<Rightarrow> x"
  let ?q = "Q_Fail q (uuid_out (j_id j)) ?out"
  obtain now n where "t \<le> now" and n: "\<forall>r d1. sql_eval (env_pg E) (env_jsonb E) now (env_gen E n) ?q d = Inr (r, d1) \<longrightarrow>
      (\<exists>s1. foreground (model_server E) 1 ?q s = (Inr r, s1) \<and> quiet c vars d1 now s1)"
    by (rule quiet_foreground [OF assms(1), of E ?q])
  obtain d1 where d1: "fail (env_pg E) now q (j_id j) (Some ?out) d = Inr (True, d1)"
    "holds_job q (Some (failed now (Some ?out) j)) d1"
    using holds_fail [OF assms(2,4,7)] by blast
  then have "sql_eval (env_pg E) (env_jsonb E) now (env_gen E n) ?q d = Inr (A_Bool True, d1)"
    using keeps_plainD [OF assms(5), of ?out] assms(6) by (auto simp: uuid_in_out empty_obj_def intro: exI [of _ True] split: option.splits)
  with n obtain s1 where s1: "foreground (model_server E) 1 ?q s = (Inr (A_Bool True), s1)" "quiet c vars d1 now s1"
    by blast
  then have "exec_command (model_server E) line 1 (Fail v out) s = Some (Inr (), s1)"
    using quiet_the_job [OF assms(1,3)] by (simp add: exec_finish_def get_bool_def assert_that_def)
  with \<open>t \<le> now\<close> s1(2) d1(2) show ?thesis by blast
qed

lemma quiet_empty:
  assumes "quiet c vars d t s" "holds_job q (Some j) d" "j_state j \<noteq> Created" "j_state j \<noteq> Retry"
  shows "\<exists>now s1. t \<le> now \<and> exec_command (model_server E) line 1 (AssertQueueEmpty q) s = Some (Inr (), s1) \<and>
    quiet c vars d now s1"
proof -
  obtain now n where "t \<le> now" and n: "\<forall>r d1. sql_eval (env_pg E) (env_jsonb E) now (env_gen E n) (Q_Count q) d = Inr (r, d1) \<longrightarrow>
      (\<exists>s1. foreground (model_server E) 1 (Q_Count q) s = (Inr r, s1) \<and> quiet c vars d1 now s1)"
    by (rule quiet_foreground [OF assms(1), of E "Q_Count q"])
  have "sql_eval (env_pg E) (env_jsonb E) now (env_gen E n) (Q_Count q) d = Inr (A_Int 0, d)"
    using holds_count [OF assms(2)] assms(3,4) by simp
  with n obtain s1 where s1: "foreground (model_server E) 1 (Q_Count q) s = (Inr (A_Int 0), s1)" "quiet c vars d now s1"
    by blast
  have "pending_count (model_server E) 1 q = tbind (foreground (model_server E) 1 (Q_Count q)) get_int"
    by (simp add: pending_count_def foreground_def tbind_assoc)
  with \<open>t \<le> now\<close> s1 show ?thesis
    by (auto simp: exec_queue_empty_def get_int_def assert_that_def)
qed

end
