(* ===== verification/Dsl_Main.thy ===== *)
theory Dsl_Main
  imports Dsl_Parser Dsl_Runner
begin

text \<open>
  The command of the test DSL, src/dsltest/src/main.rs: which files it runs, how it runs one, and
  its exit code. The file system is the record \<open>fs\<close> of parameters; a path is its text.
\<close>

record fs =
  fs_is_dir :: "string \<Rightarrow> bool"
  fs_read_dir :: "string \<Rightarrow> string + (string + string) list"   \<comment> \<open>entries by their paths\<close>
  fs_exists :: "string \<Rightarrow> bool"
  fs_read :: "string \<Rightarrow> string + string"

definition default_dsn :: string where
  "default_dsn = ''postgres://sasha@localhost:5432/postgres''"

definition default_dir :: string where
  "default_dir = ''scenarios''"

section \<open>Paths\<close>

text \<open>The components of a path, in the order of the variants of \<open>Component\<close>; paths compare by them.\<close>

fun split_slash :: "string \<Rightarrow> string list" where
  "split_slash [] = [[]]"
| "split_slash (c # s) =
     (if c = CHR ''/'' then [] # split_slash s
      else case split_slash s of [] \<Rightarrow> [[c]] | p # ps \<Rightarrow> (c # p) # ps)"

definition path_components :: "string \<Rightarrow> (nat \<times> string) list" where
  "path_components s =
     (let parts = filter (\<lambda>p. p \<noteq> []) (split_slash s);
          root = (s \<noteq> [] \<and> hd s = CHR ''/'');
          named = map (\<lambda>p. if p = ''..'' then (3, []) else (4, p))
      in if root then (1, []) # named (filter (\<lambda>p. p \<noteq> ''.'') parts)
         else case parts of
                [] \<Rightarrow> []
              | p # ps \<Rightarrow>
                  (if p = ''.'' then [(2, [])] else named [p]) @ named (filter (\<lambda>p. p \<noteq> ''.'') ps))"

text \<open>\<open>path.extension() == "scenario"\<close>: the file name has a stem before that suffix.\<close>

definition has_scenario_ext :: "string \<Rightarrow> bool" where
  "has_scenario_ext s \<longleftrightarrow>
     (case rev (path_components s) of
        [] \<Rightarrow> False
      | (k, name) # _ \<Rightarrow>
          k = 4 \<and> length ''.scenario'' < length name \<and>
          drop (length name - length ''.scenario'') name = ''.scenario'')"

section \<open>The files\<close>

fun keep_scenarios :: "(string + string) list \<Rightarrow> string + string list" where
  "keep_scenarios [] = Inr []"
| "keep_scenarios (Inl e # es) = Inl e"
| "keep_scenarios (Inr p # es) =
     rbind (keep_scenarios es) (\<lambda>ps. Inr (if has_scenario_ext p then p # ps else ps))"

definition files_of :: "fs \<Rightarrow> string \<Rightarrow> string + string list" where
  "files_of F input =
     (if fs_is_dir F input then
        (case fs_read_dir F input of
           Inl e \<Rightarrow> Inl (''read dir '' @ input @ '': '' @ e)
         | Inr entries \<Rightarrow> keep_scenarios entries)
      else if fs_exists F input then Inr [input]
      else Inl (''no such file or directory: '' @ input))"

definition collect_files :: "fs \<Rightarrow> string list \<Rightarrow> string + string list" where
  "collect_files F args =
     rbind (map_res (files_of F) (if args = [] then [default_dir] else args)) (\<lambda>fss.
       Inr (sort_key path_components (concat fss)))"

section \<open>One file\<close>

text \<open>Each file has a runner of its own; the threads of earlier ones go on.\<close>

definition run_file ::
  "lib \<Rightarrow> serde \<Rightarrow> 'w server \<Rightarrow> fs \<Rightarrow> string \<Rightarrow> string \<Rightarrow> ('w sys, string) act" where
  "run_file W J S F file dsn s =
     (case fs_read F file of
        Inl e \<Rightarrow> Some (Inl (Err (err_conn (''read '' @ file @ '': '' @ e))), s)
      | Inr src \<Rightarrow>
          (case parse_scenario W J src of
             Inl e \<Rightarrow> Some (Inl e, s)
           | Inr sc \<Rightarrow>
               abind (run_scenario S sc) (\<lambda>_. lift (tret (sc_name sc))) (s\<lparr>runner_of := runner_new dsn\<rparr>)))"

section \<open>All of them\<close>

definition fail_report :: "string \<Rightarrow> dsl_error \<Rightarrow> string" where
  "fail_report file e =
     ''FAIL '' @ (if 0 < e_line e then file @ '':'' @ show_nat (e_line e) else file) @ '': '' @ err_display e"

text \<open>
  The loop, with the exit code so far, the number of scenarios that passed and the lines printed;
  the result also tells whether the loop ended in a panic.
\<close>

fun run_files ::
  "lib \<Rightarrow> serde \<Rightarrow> 'w server \<Rightarrow> fs \<Rightarrow> string \<Rightarrow> string list \<Rightarrow> int \<times> nat \<times> string list \<Rightarrow> 'w sys \<Rightarrow>
   ((int \<times> nat \<times> string list) \<times> bool \<times> 'w sys) option" where
  "run_files W J S F dsn [] acc s = Some (acc, False, s)"
| "run_files W J S F dsn (file # files) (worst, passed, out) s =
     (case run_file W J S F file dsn s of
        None \<Rightarrow> None
      | Some (Inl Panicked, s1) \<Rightarrow> Some ((worst, passed, out), True, s1)
      | Some (Inl (Err e), s1) \<Rightarrow>
          run_files W J S F dsn files (max worst (exit_code e), passed, out @ [fail_report file e]) s1
      | Some (Inr name, s1) \<Rightarrow>
          run_files W J S F dsn files
            (worst, passed + 1, out @ [''PASS '' @ file @ '' ('' @ name @ '')'']) s1)"

text \<open>
  \<open>main\<close>: the exit code with the lines printed to the two outputs; \<open>None\<close> when it never ends. A
  panic of the main thread is the exit code 101 of the process (its message is not modelled).
\<close>

record exit_report =
  out_code :: nat
  out_lines :: "string list"
  err_lines :: "string list"

definition main ::
  "lib \<Rightarrow> serde \<Rightarrow> 'w server \<Rightarrow> fs \<Rightarrow> string list \<Rightarrow> string option \<Rightarrow> 'w sys \<Rightarrow> (exit_report \<times> 'w sys) option" where
  "main W J S F args dsn_var s =
     (let dsn = (case dsn_var of Some d \<Rightarrow> d | None \<Rightarrow> default_dsn) in
      case collect_files F args of
        Inl e \<Rightarrow> Some (\<lparr>out_code = 3, out_lines = [], err_lines = [''error: '' @ e]\<rparr>, s)
      | Inr files \<Rightarrow>
          if files = []
          then Some (\<lparr>out_code = 3, out_lines = [], err_lines = [''no .scenario files found'']\<rparr>, s)
          else map_option (\<lambda>((worst, passed, out), panicked, s1).
              (if panicked then \<lparr>out_code = 101, out_lines = out, err_lines = []\<rparr>
               else \<lparr>out_code = nat (worst mod 256),
                     out_lines = out @ [[], show_nat passed @ ''/'' @ show_nat (length files) @ '' scenario(s) passed''],
                     err_lines = []\<rparr>, s1))
            (run_files W J S F dsn files (0, 0, []) s))"

end
