(* ===== verification/Deliveries.thy ===== *)
theory Deliveries
  imports Quiet_Runs Dsl_Main
begin

text \<open>
  Whole scenarios on the model of the extension: a delivery, from the text of the scenario file to the
  report of src/dsltest/src/main.rs.
\<close>

section \<open>The delivery as one scenario\<close>

fun at_lines :: "nat \<Rightarrow> command list \<Rightarrow> statement list" where
  "at_lines n [] = []"
| "at_lines n (cmd # cmds) = \<lparr>st_line = n, st_client = 1, st_command = cmd\<rparr> # at_lines (n + 1) cmds"

definition delivery :: "string \<Rightarrow> string \<Rightarrow> json \<Rightarrow> json option \<Rightarrow> send_options \<Rightarrow> queue_options \<Rightarrow> scenario" where
  "delivery q v data out sopts opts =
     \<lparr>sc_name = ''delivery'',
      sc_statements = at_lines 2
        [CreateQueue q opts, Push q data sopts, Consume q v None,
         CheckState v ''active'', CheckData v data, Ack v out, CheckAck v None,
         CheckState v ''completed'', AssertQueueEmpty q]\<rparr>"

lemma collect_delivery: "collect_queues (delivery q v data out sopts opts) = [q]"
  by (simp add: delivery_def collect_queues_def push_seen_def)

lemma delivery_statements:
  assumes "quiet c vars d t s" "db_inv d" "q \<notin> names d" "utf8_len (channel (env_pg E) q) \<in> {1..63}"
    and "\<forall>n. env_gen E n \<notin> ids d" "small_options sopts" "given (so_start_after sopts) 0 = 0" "keeps_plain E" "queue_options_ok opts"
    and "jsonb_plain data" "case out of None \<Rightarrow> True | Some x \<Rightarrow> jsonb_plain x"
  shows "\<exists>vars1 d1 t1 s1. run_statements (model_server E) (sc_statements (delivery q v data out sopts opts)) s = Some (Inr None, s1) \<and>
    quiet c vars1 d1 t1 s1 \<and> (\<exists>j. holds_job q (Some j) d1 \<and> j_state j = Completed)"
proof -
  obtain t1 s1 d1 where 1: "exec_command (model_server E) 2 1 (CreateQueue q opts) s = Some (Inr (), s1)"
    "quiet c vars d1 t1 s1" "holds_job q None d1" "ids d1 = ids d"
    using quiet_create [OF assms(1-3,8,9)] by blast
  then have ids: "\<forall>n. env_gen E n \<notin> ids d1" using assms(5) by simp
  obtain t2 s2 d2 j where 2: "exec_command (model_server E) 3 1
      (Push q data sopts) s1 = Some (Inr (), s2)"
    "quiet c vars d2 t2 s2" "holds_job q (Some j) d2" "j_state j = Created" "j_start_after j = t2" "j_data j = Some data"
    using quiet_push [OF 1(2,3) assms(4) ids assms(6,8,10)] assms(7) by (fastforce simp: seconds_def)
  let ?vars = "vars(v \<mapsto> Var_Job (handle_of q j))"
  obtain t3 s3 d3 where 3: "exec_command (model_server E) 4 1 (Consume q v None) s2 = Some (Inr (), s3)"
    "quiet c ?vars d3 t3 s3" "holds_job q (Some (claim t3 j)) d3"
    using quiet_consume [OF 2(2,3)] 2(4,5) by blast
  have h: "?vars v = Some (Var_Job (handle_of q (claim t3 j)))" "j_state (claim t3 j) = Active"
    "j_data (claim t3 j) = Some data"
    using 2(6) by (simp_all add: claim_def)
  obtain t4 s4 where 4: "exec_command (model_server E) 5 1 (CheckState v ''active'') s3 = Some (Inr (), s4)"
    "quiet c ?vars d3 t4 s4"
    using quiet_check_state [OF 3(2,3) h(1)] h(2) by fastforce
  obtain t5 s5 where 5: "exec_command (model_server E) 6 1 (CheckData v data) s4 = Some (Inr (), s5)"
    "quiet c ?vars d3 t5 s5"
    using quiet_check_data [OF 4(2) 3(3) h(1,3)] by blast
  obtain t6 s6 d6 x where 6: "exec_command (model_server E) 7 1 (Ack v out) s5 = Some (Inr (), s6)"
    "quiet c ?vars d6 t6 s6" "holds_job q (Some (completed t6 x (claim t3 j))) d6"
    using quiet_ack [OF 5(2) 3(3) h(1,2) assms(8,11)] by blast
  have g: "?vars v = Some (Var_Job (handle_of q (completed t6 x (claim t3 j))))"
    "j_state (completed t6 x (claim t3 j)) = Completed"
    by (simp_all add: claim_def completed_def)
  obtain t7 s7 where 7: "exec_command (model_server E) 8 1 (CheckAck v None) s6 = Some (Inr (), s7)"
    "quiet c ?vars d6 t7 s7"
    using quiet_check_ack [OF 6(2,3) g] by blast
  obtain t8 s8 where 8: "exec_command (model_server E) 9 1 (CheckState v ''completed'') s7 = Some (Inr (), s8)"
    "quiet c ?vars d6 t8 s8"
    using quiet_check_state [OF 7(2) 6(3) g(1)] g(2) by fastforce
  have "j_state (completed t6 x (claim t3 j)) \<noteq> Created" "j_state (completed t6 x (claim t3 j)) \<noteq> Retry"
    using g(2) by simp_all
  then obtain t9 s9 where 9: "exec_command (model_server E) 10 1 (AssertQueueEmpty q) s8 = Some (Inr (), s9)"
    "quiet c ?vars d6 t9 s9"
    using quiet_empty [OF 8(2) 6(3)] by blast
  have "run_statements (model_server E) (sc_statements (delivery q v data out sopts opts)) s = Some (Inr None, s9)"
    using 1(1) 2(1) 3(1) 4(1) 5(1) 6(1) 7(1) 8(1) 9(1)
    by (simp add: delivery_def exec_def del: exec_command.simps)
  then show ?thesis using 9(2) 6(3) g(2) by blast
qed

lemma first_client:
  assumes "runner_of s = runner_new dsn" "threads s = []"
  obtains c s1 where "client_for (model_server E) 1 s = (Inr c, s1)"
    and "quiet c Map.empty (mw_db (world s)) (mw_now (world s)) s1"
proof -
  have bg: "world (background (model_server E) u) = world u \<and> threads (background (model_server E) u) = [] \<and>
      runner_of (background (model_server E) u) = runner_of u" if "threads u = []" for u
  proof -
    have "fold (step_thread (model_server E)) is u = u" if "threads u = []" for "is" u
      using that by (induction "is") (simp_all add: step_thread_none)
    then show ?thesis using that by (auto simp: background_def split: list.split)
  qed
  show thesis
    by (rule that [of "mw_sessions (world s)"], use assms bg in
      \<open>auto simp: client_for_def runner_new_def tbind_def connect_def call_def open_session_def create_extension_def
        on_runner_def Let_def model_query_def quiet_def\<close>)
qed

text \<open>Any scenario of statements that pass when the queue is missing, from the start to the end of the run.\<close>

lemma run_quiet:
  assumes "runner_of s = runner_new dsn" "threads s = []" "db_inv (mw_db (world s))" "collect_queues sc = [q]"
    and "\<And>c d t s2. quiet c Map.empty d t s2 \<Longrightarrow> db_inv d \<Longrightarrow> q \<notin> names d \<Longrightarrow> ids d \<subseteq> ids (mw_db (world s)) \<Longrightarrow>
      \<exists>vars d3 t3 s3. run_statements (model_server E) (sc_statements sc) s2 = Some (Inr None, s3) \<and> quiet c vars d3 t3 s3"
  shows "\<exists>s1. run_scenario (model_server E) sc s = Some (Inr (), s1)"
proof -
  let ?d = "snd (delete_queue q (mw_db (world s)))"
  obtain c s0 where c: "client_for (model_server E) 1 s = (Inr c, s0)"
    "quiet c Map.empty (mw_db (world s)) (mw_now (world s)) s0"
    by (rule first_client [OF assms(1,2)])
  obtain t2 s2 where 2: "cleanup_queues (model_server E) [q] s0 = (Inr (), s2)" "quiet c Map.empty ?d t2 s2"
    using quiet_cleanup [OF c(2)] by blast
  have d: "db_inv ?d" "q \<notin> names ?d" "ids ?d \<subseteq> ids (mw_db (world s))"
    using assms(3) delete_queue_inv by (auto simp: delete_queue_def names_def ids_def)
  obtain vars d3 t3 s3 where 3: "run_statements (model_server E) (sc_statements sc) s2 = Some (Inr None, s3)"
    "quiet c vars d3 t3 s3"
    using assms(5) [OF 2(2) d] by blast
  have 4: "join_all_pending (model_server E) s3 = Some (Inr (), s3)"
    using 3(2) by (simp add: join_all_pending_def quiet_def)
  obtain s5 where 5: "cleanup_queues (model_server E) [q] s3 = (Inr (), s5)"
    using quiet_cleanup [OF 3(2)] by blast
  show ?thesis
    unfolding run_scenario_def Let_def assms(4)
    using c(1) 2(1) 3(1) 4 5 by simp
qed

lemma delivery_run:
  assumes "runner_of s = runner_new dsn" "threads s = []" "db_inv (mw_db (world s))"
    and "utf8_len (channel (env_pg E) q) \<in> {1..63}" "\<forall>n. env_gen E n \<notin> ids (mw_db (world s))"
    and "small_options sopts" "given (so_start_after sopts) 0 = 0" "keeps_plain E" "queue_options_ok opts"
    and "jsonb_plain data" "case out of None \<Rightarrow> True | Some x \<Rightarrow> jsonb_plain x"
  shows "\<exists>s1. run_scenario (model_server E) (delivery q v data out sopts opts) s = Some (Inr (), s1)"
proof (rule run_quiet [OF assms(1-3) collect_delivery])
  fix c d t s2
  assume q: "quiet c Map.empty d t s2" "db_inv d" "q \<notin> names d" and sub: "ids d \<subseteq> ids (mw_db (world s))"
  have "\<forall>n. env_gen E n \<notin> ids d" using assms(5) sub by auto
  then show "\<exists>vars d3 t3 s3. run_statements (model_server E) (sc_statements (delivery q v data out sopts opts)) s2 =
      Some (Inr None, s3) \<and> quiet c vars d3 t3 s3"
    using delivery_statements [OF q assms(4) _ assms(6-11)] by blast
qed

lemma delivery_parse:
  assumes "winnow_lib W" "ident_ok q" "ident_ok v" "queue_options_ok opts" "json_ok J P data"
    and "case out of None \<Rightarrow> True | Some x \<Rightarrow> json_ok J P x" "send_options_ok sopts"
  shows "parse_scenario W J (show_scenario P (delivery q v data out sopts opts)) = Inr (delivery q v data out sopts opts)"
proof -
  have "ident_ok ''delivery''"
    by (simp add: ident_ok_def ident_char_def is_alphanumeric_def Let_def char_code_def)
  moreover have "list_all (statement_ok J P) (sc_statements (delivery q v data out sopts opts))"
    using assms(2-)
    by (simp add: delivery_def statement_ok_def duration_ok_def millis_ok_def state_names_def split: option.splits)
  ultimately show ?thesis
    using grammar.parse_printed_scenario [OF grammar_lib [OF assms(1)], of "delivery q v data out sopts opts" J P]
    by (simp add: delivery_def)
qed

lemma main_one_file:
  assumes "\<not> fs_is_dir F f" "fs_exists F f" "fs_read F f = Inr src" "parse_scenario W J src = Inr sc"
    and "run_scenario S sc (s\<lparr>runner_of := runner_new (case dsn_var of Some d \<Rightarrow> d | None \<Rightarrow> default_dsn)\<rparr>) = Some (Inr (), s1)"
  shows "main W J S F [f] dsn_var s =
    Some (\<lparr>out_code = 0, out_lines = [''PASS '' @ f @ '' ('' @ sc_name sc @ '')'', [], ''1/1 scenario(s) passed''],
      err_lines = []\<rparr>, s1)"
proof -
  have c: "collect_files F [f] = Inr [f]"
    using assms(1,2) by (simp add: collect_files_def files_of_def)
  have r: "run_file W J S F f (case dsn_var of Some d \<Rightarrow> d | None \<Rightarrow> default_dsn) s = Some (Inr (sc_name sc), s1)"
    using assms(3-5) by (simp add: run_file_def)
  have one: "show_nat (Suc 0) = ''1''" by (simp add: show_nat.simps digit_char_def)
  show ?thesis unfolding main_def Let_def c by (simp add: r one)
qed

end
