(* ===== verification/Retries.thy ===== *)
theory Retries
  imports Deliveries
begin

text \<open>
  A job that fails at every attempt, as a scenario of the runner (src/dsltest/src/runner.rs): one
  attempt more than its retry limit, and then the state \<open>failed\<close> for good.
\<close>

definition attempt :: "string \<Rightarrow> string \<Rightarrow> string \<Rightarrow> command list" where
  "attempt q v st = [Consume q v None, Fail v None, CheckState v st]"

fun attempts :: "string \<Rightarrow> string \<Rightarrow> nat \<Rightarrow> command list" where
  "attempts q v 0 = attempt q v ''failed''"
| "attempts q v (Suc n) = attempt q v ''retry'' @ attempts q v n"

definition retries :: "nat \<Rightarrow> send_options" where
  "retries n = send_options_default\<lparr>so_retry_limit := Some (int n), so_retry_delay := Some 0\<rparr>"

definition exhaustion :: "string \<Rightarrow> string \<Rightarrow> json \<Rightarrow> nat \<Rightarrow> scenario" where
  "exhaustion q v data n =
     \<lparr>sc_name = ''exhaustion'',
      sc_statements = at_lines 2
        ([CreateQueue q queue_options_default, Push q data (retries n)] @ attempts q v n @ [AssertQueueEmpty q])\<rparr>"

lemma retries_small: "int n < 2 ^ 31 \<Longrightarrow> small_options (retries n)"
  by (simp add: small_options_def retries_def send_options_default_def given_def in_int4_def)

lemma at_lines_map: "map st_command (at_lines k cmds) = cmds"
  by (induction cmds arbitrary: k) simp_all

lemma collect_at_lines:
  "collect_queues \<lparr>sc_name = name, sc_statements = at_lines k cmds\<rparr> =
    fold (\<lambda>cmd seen. case queue_of cmd of None \<Rightarrow> seen | Some q \<Rightarrow> push_seen q seen) cmds []"
proof -
  have "fold (\<lambda>st seen. case queue_of (st_command st) of None \<Rightarrow> seen | Some q \<Rightarrow> push_seen q seen) (at_lines k cmds) acc =
      fold (\<lambda>cmd seen. case queue_of cmd of None \<Rightarrow> seen | Some q \<Rightarrow> push_seen q seen) cmds acc" for acc
    by (induction cmds arbitrary: k acc) (simp_all cong: option.case_cong)
  then show ?thesis by (simp add: collect_queues_def)
qed

lemma collect_exhaustion: "collect_queues (exhaustion q v data n) = [q]"
proof -
  have "fold (\<lambda>cmd seen. case queue_of cmd of None \<Rightarrow> seen | Some q \<Rightarrow> push_seen q seen) (attempts q v n) [q] = [q]"
    by (induction n) (simp_all add: attempt_def push_seen_def)
  then show ?thesis unfolding exhaustion_def collect_at_lines by (simp add: push_seen_def)
qed

section \<open>One attempt\<close>

lemma quiet_attempt:
  assumes "quiet c vars d t s" "holds_job q (Some j) d" "j_state j = Created \<or> j_state j = Retry"
    and "j_start_after j \<le> t" "keeps_plain E" "utf8_len (channel (env_pg E) q) \<in> {1..63}"
    and "st = (if j_retry_count j < j_retry_limit j then ''retry'' else ''failed'')"
  shows "\<exists>vars1 d1 t1 t2 t3 s1 x. t2 \<le> t3 \<and>
    run_statements (model_server E) (at_lines k (attempt q v st @ rest)) s =
      run_statements (model_server E) (at_lines (Suc (Suc (Suc k))) rest) s1 \<and>
    quiet c vars1 d1 t3 s1 \<and> holds_job q (Some (failed t2 x (claim t1 j))) d1"
proof -
  obtain t1 s1 d1 where 1: "exec_command (model_server E) k 1 (Consume q v None) s = Some (Inr (), s1)"
    "quiet c (vars(v \<mapsto> Var_Job (handle_of q j))) d1 t1 s1" "holds_job q (Some (claim t1 j)) d1"
    using quiet_consume [OF assms(1-4)] by blast
  let ?vars = "vars(v \<mapsto> Var_Job (handle_of q j))"
  have h: "?vars v = Some (Var_Job (handle_of q (claim t1 j)))" "j_state (claim t1 j) = Active"
    by (simp_all add: claim_def)
  have "case None of None \<Rightarrow> True | Some x \<Rightarrow> jsonb_plain x" by simp
  from quiet_fail [OF 1(2,3) h assms(5) this assms(6)]
  obtain t2 s2 d2 x where 2: "exec_command (model_server E) (Suc k) 1 (Fail v None) s1 = Some (Inr (), s2)"
    "quiet c ?vars d2 t2 s2" "holds_job q (Some (failed t2 x (claim t1 j))) d2"
    by blast
  have g: "?vars v = Some (Var_Job (handle_of q (failed t2 x (claim t1 j))))"
    "st = state_text (j_state (failed t2 x (claim t1 j)))"
    using assms(7) by (simp_all add: claim_def failed_def retried_def fail_row_def)
  obtain t3 s3 where 3: "exec_command (model_server E) (Suc (Suc k)) 1 (CheckState v st) s2 = Some (Inr (), s3)"
    "t2 \<le> t3" "quiet c ?vars d2 t3 s3"
    using quiet_check_state [OF 2(2,3) g] by blast
  have "run_statements (model_server E) (at_lines k (attempt q v st @ rest)) s =
      run_statements (model_server E) (at_lines (Suc (Suc (Suc k))) rest) s3"
    using 1(1) 2(1) 3(1) by (simp add: attempt_def exec_def del: exec_command.simps)
  then show ?thesis using 2(3) 3(2,3) by blast
qed

section \<open>All of them\<close>

lemma quiet_attempts:
  assumes "quiet c vars d t s" "holds_job q (Some j) d" "j_state j = Created \<or> j_state j = Retry"
    and "j_start_after j \<le> t" "j_retry_delay j = 0" "j_retry_count j + int n = j_retry_limit j"
    and "keeps_plain E" "utf8_len (channel (env_pg E) q) \<in> {1..63}"
  shows "\<exists>vars1 d1 t1 k1 s1 j1.
    run_statements (model_server E) (at_lines k (attempts q v n @ rest)) s =
      run_statements (model_server E) (at_lines k1 rest) s1 \<and>
    quiet c vars1 d1 t1 s1 \<and> holds_job q (Some j1) d1 \<and> j_state j1 = Failed"
  using assms
proof (induction n arbitrary: vars d t s j k)
  case 0
  from quiet_attempt [OF 0(1-4,7,8) refl, where v = v and k = k and rest = rest] 0(6)
  obtain vars1 d1 t1 t2 t3 s1 x where
    "run_statements (model_server E) (at_lines k (attempts q v 0 @ rest)) s =
      run_statements (model_server E) (at_lines (Suc (Suc (Suc k))) rest) s1"
    "quiet c vars1 d1 t3 s1" "holds_job q (Some (failed t2 x (claim t1 j))) d1"
    by auto
  moreover have "j_state (failed t2 x (claim t1 j)) = Failed"
    using 0(6) by (simp add: failed_def claim_def)
  ultimately show ?case by blast
next
  case (Suc n)
  have less: "j_retry_count j < j_retry_limit j" using Suc.prems(6) by simp
  from quiet_attempt [OF Suc.prems(1-4,7,8) refl, where v = v and k = k and rest = "attempts q v n @ rest"] less
  obtain vars1 d1 t1 t2 t3 s1 x where 1: "t2 \<le> t3"
    "run_statements (model_server E) (at_lines k (attempts q v (Suc n) @ rest)) s =
      run_statements (model_server E) (at_lines (Suc (Suc (Suc k))) (attempts q v n @ rest)) s1"
    "quiet c vars1 d1 t3 s1" "holds_job q (Some (failed t2 x (claim t1 j))) d1"
    by auto
  let ?j = "failed t2 x (claim t1 j)"
  have j: "j_state ?j = Created \<or> j_state ?j = Retry" "j_start_after ?j \<le> t3" "j_retry_delay ?j = 0"
    "j_retry_count ?j + int n = j_retry_limit ?j"
    using less 1(1) Suc.prems(5,6) by (simp_all add: failed_def claim_def retried_def seconds_def)
  show ?case
    using Suc.IH [OF 1(3,4) j Suc.prems(7,8), of "Suc (Suc (Suc k))"] 1(2) by simp
qed

lemma exhaustion_statements:
  assumes q: "quiet c vars d t s2" "db_inv d" "q \<notin> names d"
    and "utf8_len (channel (env_pg E) q) \<in> {1..63}" "\<forall>n. env_gen E n \<notin> ids d"
    and "int n < 2 ^ 31" "keeps_plain E" "jsonb_plain data"
  shows "\<exists>vars d3 t3 s3. run_statements (model_server E) (sc_statements (exhaustion q v data n)) s2 = Some (Inr None, s3) \<and>
      quiet c vars d3 t3 s3"
proof -
  obtain t3 s3 d3 where 1: "exec_command (model_server E) 2 1 (CreateQueue q queue_options_default) s2 = Some (Inr (), s3)"
    "quiet c vars d3 t3 s3" "holds_job q None d3" "ids d3 = ids d"
    using quiet_create [OF q assms(7) options_default_ok(1)] by blast
  have ids: "\<forall>n. env_gen E n \<notin> ids d3" using assms(5) 1(4) by simp
  obtain t4 s4 d4 j where 2: "exec_command (model_server E) 3 1 (Push q data (retries n)) s3 = Some (Inr (), s4)"
    "quiet c vars d4 t4 s4" "holds_job q (Some j) d4" "j_state j = Created"
    "j_start_after j = t4 + seconds (given (so_start_after (retries n)) 0)" "j_retry_count j = 0"
    "\<forall>m. so_retry_limit (retries n) = Some m \<longrightarrow> j_retry_limit j = m"
    "\<forall>m. so_retry_delay (retries n) = Some m \<longrightarrow> j_retry_delay j = m"
    using quiet_push [OF 1(2,3) assms(4) ids retries_small [OF assms(6)] assms(7,8)] by blast
  have j: "j_state j = Created \<or> j_state j = Retry" "j_start_after j \<le> t4" "j_retry_delay j = 0"
    "j_retry_count j + int n = j_retry_limit j"
    using 2(4-8) by (simp_all add: retries_def send_options_default_def given_def seconds_def)
  obtain vars1 d5 t5 k s5 j1 where 3: "run_statements (model_server E) (at_lines 4 (attempts q v n @ [AssertQueueEmpty q])) s4 =
      run_statements (model_server E) (at_lines k [AssertQueueEmpty q]) s5"
    "quiet c vars1 d5 t5 s5" "holds_job q (Some j1) d5" "j_state j1 = Failed"
    using quiet_attempts [OF 2(2,3) j assms(7,4)] by blast
  have "j_state j1 \<noteq> Created" "j_state j1 \<noteq> Retry" using 3(4) by simp_all
  then obtain t6 s6 where 4: "exec_command (model_server E) k 1 (AssertQueueEmpty q) s5 = Some (Inr (), s6)"
    "quiet c vars1 d5 t6 s6"
    using quiet_empty [OF 3(2,3)] by blast
  have "run_statements (model_server E) (sc_statements (exhaustion q v data n)) s2 = Some (Inr None, s6)"
    using 1(1) 2(1) 3(1) 4(1) by (simp add: exhaustion_def exec_def del: exec_command.simps)
  then show ?thesis using 4(2) by blast
qed

end
