(* ===== verification/Waiting.thy ===== *)
theory Waiting
  imports Quiet_Runs
begin

text \<open>
  The waiting of \<open>consume .. within\<close> (\<open>consume_wait\<close> of src/dsltest/src/runner.rs) on the model of the
  extension: a job whose start is delayed is found by polling, and a notification ends a wait at once.
\<close>

section \<open>LISTEN\<close>

lemma undouble_quote:
  "undouble (concat (map (\<lambda>c. if c = CHR 0x22 then [c, c] else [c]) s)) = s"
proof (induction s)
  case (Cons c s)
  show ?case
  proof (cases s)
    case Nil
    then show ?thesis by simp
  next
    case (Cons d r)
    then show ?thesis using Cons.IH by auto
  qed
qed simp

lemma cut_to_id: "utf8_len s \<le> n \<Longrightarrow> cut_to n s = s"
  by (induction n s rule: cut_to.induct) (auto simp: utf8_len_def)

lemma channel_of_quote: "utf8_len ch \<le> 63 \<Longrightarrow> channel_of_ident (quote_ident ch) = ch"
  by (simp add: channel_of_ident_def quote_ident_def undouble_quote cut_to_id butlast_append)

section \<open>Calls of the foreground alone\<close>

lemma call_alone:
  assumes "threads s = []"
  obtains s1 where "call S p s = (fst (p (world s)), s1)" "world s1 = snd (p (world s))" "threads s1 = []"
    "runner_of s1 = runner_of s"
proof -
  have "fold (step_thread S) is u = u" if "threads u = []" for "is" u
    using that by (induction "is") (simp_all add: step_thread_none)
  then have "world (background S s) = world s" "threads (background S s) = []" "runner_of (background S s) = runner_of s"
    using assms by (auto simp: background_def split: list.split)
  then show thesis
    using that [of "snd (call S p s)"] by (simp add: call_def Let_def split: prod.split)
qed

section \<open>One look at the queue\<close>

abbreviation pending :: "job \<Rightarrow> bool" where
  "pending j \<equiv> j_state j = Created \<or> j_state j = Retry"

lemma fetch_one_ready:
  assumes "holds_job q (Some j) (mw_db w)" "pending j" "j_start_after j \<le> mw_now w"
  obtains w1 where "fetch_one (model_server E) c q w = (Inr (Some (handle_of q j)), w1)"
    and "mw_now w1 = mw_now w + 1" "holds_job q (Some (claim (mw_now w) j)) (mw_db w1)"
proof -
  obtain d1 where d1: "fetch [] (mw_now w) q (Some 1) (mw_db w) = Inr ([claim (mw_now w) j], d1)"
    "holds_job q (Some (claim (mw_now w) j)) d1"
    using holds_fetch [OF assms] by blast
  then show thesis
    by (intro that [of "w\<lparr>mw_db := d1, mw_now := mw_now w + 1\<rparr>"])
      (simp_all add: fetch_one_def query_def model_query_def get_texts_def tbind_def)
qed

lemma fetch_one_early:
  assumes "holds_job q (Some j) (mw_db w)" "mw_now w < j_start_after j"
  obtains w1 where "fetch_one (model_server E) c q w = (Inr None, w1)"
    and "mw_now w1 = mw_now w + 1" "mw_db w1 = mw_db w"
proof -
  have "filter (\<lambda>k. fetchable (mw_now w) q k) (jobs (mw_db w)) = []"
    using assms by (auto simp: holds_job_def fetchable_def filter_empty_conv)
  then have n: "fetch_next [] (mw_now w) q (Some 1) (jobs (mw_db w)) = []"
    by (simp add: fetch_next_def)
  have "fetch [] (mw_now w) q (Some 1) (mw_db w) = Inr ([], mw_db w)"
    by (simp add: fetch_def n sql_update_id)
  then show thesis
    by (intro that [of "w\<lparr>mw_now := mw_now w + 1\<rparr>"])
      (simp_all add: fetch_one_def query_def model_query_def get_texts_def tbind_def)
qed

section \<open>The loop\<close>

definition found :: "string \<Rightarrow> job \<Rightarrow> int \<Rightarrow> model_world sys \<Rightarrow> model_world sys \<Rightarrow> bool" where
  "found q j latest s s1 \<longleftrightarrow>
     threads s1 = [] \<and> runner_of s1 = runner_of s \<and>
     (\<exists>now. j_start_after j \<le> now \<and> now \<le> latest \<and> mw_now (world s1) = now + 1 \<and>
        holds_job q (Some (claim now j)) (mw_db (world s1)))"

abbreviation waits :: "model_env \<Rightarrow> nat \<Rightarrow> string \<Rightarrow> nat option \<Rightarrow> cw_pc \<Rightarrow> (model_world sys, job_handle option) act" where
  "waits E c q within \<equiv> loop (\<lambda>pc. call (model_server E) (cw_step (model_server E) c q within pc))"

lemma found_trans: "found q j latest s1 s2 \<Longrightarrow> runner_of s1 = runner_of s \<Longrightarrow> found q j latest s s2"
  by (simp add: found_def)

lemma look_ready:
  assumes "threads s = []" "holds_job q (Some j) (mw_db (world s))" "pending j"
    and "j_start_after j \<le> mw_now (world s)" "mw_now (world s) \<le> latest"
    and "\<And>w. cw_step (model_server E) c q within pc w =
      tbind (fetch_one (model_server E) c q) (\<lambda>j. case j of Some h \<Rightarrow> tret (Inr (Some h)) | None \<Rightarrow> f) w"
  shows "\<exists>s1. waits E c q within pc s = Some (Inr (Some (handle_of q j)), s1) \<and> found q j latest s s1"
proof -
  obtain s1 where s1: "call (model_server E) (cw_step (model_server E) c q within pc) s =
      (fst (cw_step (model_server E) c q within pc (world s)), s1)"
    "world s1 = snd (cw_step (model_server E) c q within pc (world s))" "threads s1 = []" "runner_of s1 = runner_of s"
    by (rule call_alone [OF assms(1)])
  obtain w1 where w1: "fetch_one (model_server E) c q (world s) = (Inr (Some (handle_of q j)), w1)"
    "mw_now w1 = mw_now (world s) + 1" "holds_job q (Some (claim (mw_now (world s)) j)) (mw_db w1)"
    by (rule fetch_one_ready [OF assms(2-4)])
  have st: "cw_step (model_server E) c q within pc (world s) = (Inr (Inr (Some (handle_of q j))), w1)"
    using w1(1) by (simp add: assms(6) tbind_def)
  then show ?thesis
    using s1 w1(2,3) assms(4,5) by (subst loop_unfold) (auto simp: found_def)
qed

lemma look_early:
  assumes "threads s = []" "holds_job q (Some j) (mw_db (world s))" "mw_now (world s) < j_start_after j"
    and "\<And>w. cw_step (model_server E) c q within pc w =
      tbind (fetch_one (model_server E) c q) (\<lambda>j. case j of Some h \<Rightarrow> tret (Inr (Some h)) | None \<Rightarrow> tret (Inl pc1)) w"
  obtains s1 where "waits E c q within pc s = waits E c q within pc1 s1" "threads s1 = []" "runner_of s1 = runner_of s"
    and "mw_now (world s1) = mw_now (world s) + 1" "mw_db (world s1) = mw_db (world s)"
proof -
  obtain s1 where s1: "call (model_server E) (cw_step (model_server E) c q within pc) s =
      (fst (cw_step (model_server E) c q within pc (world s)), s1)"
    "world s1 = snd (cw_step (model_server E) c q within pc (world s))" "threads s1 = []" "runner_of s1 = runner_of s"
    by (rule call_alone [OF assms(1)])
  obtain w1 where w1: "fetch_one (model_server E) c q (world s) = (Inr None, w1)"
    "mw_now w1 = mw_now (world s) + 1" "mw_db w1 = mw_db (world s)"
    by (rule fetch_one_early [OF assms(2,3)])
  have st: "cw_step (model_server E) c q within pc (world s) = (Inr (Inl pc1), w1)"
    using w1(1) by (simp add: assms(4) tbind_def)
  show thesis
    by (rule that [of s1]) (use s1 st w1 in \<open>simp_all add: loop_unfold [of _ pc]\<close>)
qed

lemma step_alone:
  assumes "threads s = []" "cw_step (model_server E) c q within pc (world s) = (Inr (Inl pc1), w1)"
  obtains s1 where "waits E c q within pc s = waits E c q within pc1 s1" "threads s1 = []" "runner_of s1 = runner_of s"
    and "world s1 = w1"
proof -
  obtain s1 where s1: "call (model_server E) (cw_step (model_server E) c q within pc) s =
      (fst (cw_step (model_server E) c q within pc (world s)), s1)"
    "world s1 = snd (cw_step (model_server E) c q within pc (world s))" "threads s1 = []" "runner_of s1 = runner_of s"
    by (rule call_alone [OF assms(1)])
  show thesis
    by (rule that [of s1]) (use s1 assms(2) in \<open>simp_all add: loop_unfold [of _ pc]\<close>)
qed

lemma wait_bounds:
  "mw_now (snd (model_wait c t w)) \<le> mw_now w + max 0 t"
  by (simp add: model_wait_def split: option.split)

lemma polling_finds:
  assumes "threads s = []" "holds_job q (Some j) (mw_db (world s))" "pending j"
    and "mw_now (world s) \<le> j_start_after j" "j_start_after j < dl"
  shows "\<exists>s1. waits E c q (Some ms) (CW_Check dl) s = Some (Inr (Some (handle_of q j)), s1) \<and>
    found q j (j_start_after j + poll_interval) s s1"
  using assms
proof (induction "nat (j_start_after j - mw_now (world s))" arbitrary: s rule: less_induct)
  case less
  let ?t = "min (dl - mw_now (world s)) poll_interval"
  have c: "cw_step (model_server E) c q (Some ms) (CW_Check dl) (world s) = (Inr (Inl (CW_Wait dl ?t)), world s)"
    using less.prems(4,5) by simp
  obtain s1 where 1: "waits E c q (Some ms) (CW_Check dl) s = waits E c q (Some ms) (CW_Wait dl ?t) s1"
    "threads s1 = []" "runner_of s1 = runner_of s" "world s1 = world s"
    by (rule step_alone [OF less.prems(1) c])
  let ?w = "snd (model_wait c ?t (world s1))"
  have w: "cw_step (model_server E) c q (Some ms) (CW_Wait dl ?t) (world s1) = (Inr (Inl (CW_Fetch dl)), ?w)"
    by (simp add: model_wait_def split: option.split)
  obtain s2 where 2: "waits E c q (Some ms) (CW_Wait dl ?t) s1 = waits E c q (Some ms) (CW_Fetch dl) s2"
    "threads s2 = []" "runner_of s2 = runner_of s1" "world s2 = ?w"
    by (rule step_alone [OF 1(2) w])
  have time: "mw_now (world s) \<le> mw_now (world s2)" "mw_now (world s2) \<le> j_start_after j + poll_interval"
    using wait_bounds [of c ?t "world s1"] model_wait_fields(3) [of "world s1" c ?t] less.prems(4) 1(4) 2(4)
    by (auto simp: poll_interval_def)
  have h: "holds_job q (Some j) (mw_db (world s2))" using less.prems(2) 1(4) 2(4) by simp
  have r: "runner_of s2 = runner_of s" using 1(3) 2(3) by simp
  show ?case
  proof (cases "j_start_after j \<le> mw_now (world s2)")
    case True
    obtain s3 where "waits E c q (Some ms) (CW_Fetch dl) s2 = Some (Inr (Some (handle_of q j)), s3)"
      "found q j (j_start_after j + poll_interval) s2 s3"
      using look_ready [OF 2(2) h less.prems(3) True time(2), of E c "Some ms" "CW_Fetch dl"] by auto
    then show ?thesis using 1(1) 2(1) found_trans r by auto
  next
    case False
    then have early: "mw_now (world s2) < j_start_after j" by simp
    obtain s3 where 3: "waits E c q (Some ms) (CW_Fetch dl) s2 = waits E c q (Some ms) (CW_Check dl) s3"
      "threads s3 = []" "runner_of s3 = runner_of s2" "mw_now (world s3) = mw_now (world s2) + 1"
      "mw_db (world s3) = mw_db (world s2)"
      by (rule look_early [OF 2(2) h early, of E c "Some ms" "CW_Fetch dl" "CW_Check dl"]) simp_all
    have "nat (j_start_after j - mw_now (world s3)) < nat (j_start_after j - mw_now (world s))"
      using early time(1) 3(4) by simp
    then obtain s4 where "waits E c q (Some ms) (CW_Check dl) s3 = Some (Inr (Some (handle_of q j)), s4)"
      "found q j (j_start_after j + poll_interval) s3 s4"
      using less.hyps [of s3] 3(2,4,5) h early less.prems(3,5) by auto
    then show ?thesis using 1(1) 2(1) 3(1,3) found_trans r by auto
  qed
qed

lemma consume_finds:
  assumes "threads s = []" "holds_job q (Some j) (mw_db (world s))" "pending j"
    and "j_start_after j < mw_now (world s) + int ms * 1000"
    and "j_start_after j + int ms * 1000 \<le> env_instant_max E"
  shows "\<exists>s1. waits E c q (Some ms) CW_First s = Some (Inr (Some (handle_of q j)), s1) \<and>
    found q j (max (mw_now (world s)) (j_start_after j) + poll_interval) s s1"
proof (cases "j_start_after j \<le> mw_now (world s)")
  case True
  show ?thesis
    by (rule look_ready [OF assms(1-3) True, where f = "tret (Inl CW_Channel)"])
      (auto simp: poll_interval_def)
next
  case False
  let ?m = "max (mw_now (world s)) (j_start_after j) + poll_interval"
  let ?run = "waits E c q (Some ms)"
  from False have early: "mw_now (world s) < j_start_after j" by simp
  obtain s1 where 1: "?run CW_First s = ?run CW_Channel s1" "threads s1 = []" "runner_of s1 = runner_of s"
    "mw_now (world s1) = mw_now (world s) + 1" "mw_db (world s1) = mw_db (world s)"
    by (rule look_early [OF assms(1,2) early, of E c "Some ms" CW_First CW_Channel]) simp_all
  let ?ch = "channel (env_pg E) q"
  let ?w2 = "(world s1)\<lparr>mw_now := mw_now (world s1) + 1\<rparr>"
  have "cw_step (model_server E) c q (Some ms) CW_Channel (world s1) = (Inr (Inl (CW_Listen ?ch)), ?w2)"
    by (simp add: channel_name_def query_def model_query_def get_text_def tbind_def)
  then obtain s2 where 2: "?run CW_Channel s1 = ?run (CW_Listen ?ch) s2" "threads s2 = []"
    "runner_of s2 = runner_of s1" "world s2 = ?w2"
    by (rule step_alone [OF 1(2)])
  let ?w3 = "snd (model_query E c (Q_Listen (quote_ident ?ch)) (world s2))"
  have "cw_step (model_server E) c q (Some ms) (CW_Listen ?ch) (world s2) = (Inr (Inl CW_Second), ?w3)"
    by (simp add: query_def model_query_def tbind_def)
  then obtain s3 where 3: "?run (CW_Listen ?ch) s2 = ?run CW_Second s3" "threads s3 = []"
    "runner_of s3 = runner_of s2" "world s3 = ?w3"
    by (rule step_alone [OF 2(2)])
  have t3: "mw_now (world s3) = mw_now (world s) + 3" using 1(4) 2(4) 3(4) by simp
  have "mw_db ?w3 = mw_db (world s2)" by (simp add: model_query_def)
  then have h: "holds_job q (Some j) (mw_db (world s3))" using assms(2) 1(5) 2(4) 3(4) by simp
  have r: "runner_of s3 = runner_of s" using 1(3) 2(3) 3(3) by simp
  show ?thesis
  proof (cases "j_start_after j \<le> mw_now (world s3)")
    case True
    have "\<exists>s4. ?run CW_Second s3 = Some (Inr (Some (handle_of q j)), s4) \<and> found q j ?m s3 s4"
      by (rule look_ready [OF 3(2) h assms(3) True, where f = "tret (Inl CW_Deadline)"])
        (use t3 in \<open>auto simp: poll_interval_def\<close>)
    then show ?thesis using 1(1) 2(1) 3(1) found_trans r by auto
  next
    case False
    then have early3: "mw_now (world s3) < j_start_after j" by simp
    obtain s4 where 4: "?run CW_Second s3 = ?run CW_Deadline s4" "threads s4 = []" "runner_of s4 = runner_of s3"
      "mw_now (world s4) = mw_now (world s3) + 1" "mw_db (world s4) = mw_db (world s3)"
      by (rule look_early [OF 3(2) h early3, of E c "Some ms" CW_Second CW_Deadline]) simp_all
    let ?dl = "mw_now (world s4) + int ms * 1000"
    have "cw_step (model_server E) c q (Some ms) CW_Deadline (world s4) = (Inr (Inl (CW_Check ?dl)), world s4)"
      using early3 4(4) assms(5) by (simp add: deadline_after_def tbind_def model_server_def Let_def)
    then obtain s5 where 5: "?run CW_Deadline s4 = ?run (CW_Check ?dl) s5" "threads s5 = []"
      "runner_of s5 = runner_of s4" "world s5 = world s4"
      by (rule step_alone [OF 4(2)])
    have "\<exists>s6. ?run (CW_Check ?dl) s5 = Some (Inr (Some (handle_of q j)), s6) \<and>
        found q j (j_start_after j + poll_interval) s5 s6"
      by (rule polling_finds [OF 5(2) _ assms(3)]) (use h early3 4 5 t3 assms(4) in auto)
    then obtain s6 where "?run (CW_Check ?dl) s5 = Some (Inr (Some (handle_of q j)), s6)"
      "found q j (j_start_after j + poll_interval) s5 s6"
      by blast
    moreover have "found q j l s5 s6 \<Longrightarrow> l \<le> ?m \<Longrightarrow> found q j ?m s s6" for l
      using r 4(3) 5(3) by (auto simp: found_def)
    ultimately show ?thesis using 1(1) 2(1) 3(1) 4(1) 5(1) by auto
  qed
qed

section \<open>A notification\<close>

text \<open>
  A spawned consumer of session \<open>c\<close> that a notification has reached, when job \<open>j\<close> was ready at time
  \<open>n\<close>: in its wait, about to look at the queue, or at its end with the job.
\<close>

definition woken :: "nat \<Rightarrow> string \<Rightarrow> job \<Rightarrow> int \<Rightarrow> model_world sys \<Rightarrow> bool" where
  "woken c q j n s \<longleftrightarrow>
     (\<exists>th. threads s = [th] \<and> th_queue th = q \<and>
       (((\<exists>dl t. th_pc th = T_Consume c (CW_Wait dl t)) \<and> next_heard (world s) c \<noteq> None \<or>
         (\<exists>dl. th_pc th = T_Consume c (CW_Fetch dl))) \<and>
          mw_now (world s) = n \<and> holds_job q (Some j) (mw_db (world s)) \<or>
        th_pc th = T_End (Some (Inr (Some (handle_of q j)))) \<and>
          mw_now (world s) = n + 1 \<and> holds_job q (Some (claim n j)) (mw_db (world s))))"

fun steps_left :: "thread_pc \<Rightarrow> nat" where
  "steps_left (T_Consume c (CW_Wait dl t)) = 2"
| "steps_left (T_End r) = 0"
| "steps_left pc = 1"

lemma woken_cases:
  assumes "woken c q j n s"
  obtains (wait) th dl t i where "threads s = [th]" "th_queue th = q" "th_pc th = T_Consume c (CW_Wait dl t)"
      "next_heard (world s) c = Some i" "mw_now (world s) = n" "holds_job q (Some j) (mw_db (world s))"
    | (look) th dl where "threads s = [th]" "th_queue th = q" "th_pc th = T_Consume c (CW_Fetch dl)"
      "mw_now (world s) = n" "holds_job q (Some j) (mw_db (world s))"
    | (ended) th where "threads s = [th]" "th_queue th = q" "th_pc th = T_End (Some (Inr (Some (handle_of q j))))"
      "mw_now (world s) = n + 1" "holds_job q (Some (claim n j)) (mw_db (world s))"
  using assms unfolding woken_def by blast

lemma woken_step:
  assumes "woken c q j n s" "pending j" "j_start_after j \<le> n" "S = model_server E"
  shows "woken c q j n (step_thread S i s) \<and> steps_left (th_pc (hd (threads (step_thread S i s)))) \<le> steps_left (th_pc (hd (threads s))) \<and>
    (i = 0 \<longrightarrow> steps_left (th_pc (hd (threads s))) \<noteq> 0 \<longrightarrow>
      steps_left (th_pc (hd (threads (step_thread S i s)))) < steps_left (th_pc (hd (threads s))))"
  using assms(1)
proof (cases rule: woken_cases)
  case (wait th dl t k)
  have "thread_step S th (world s) =
      (th\<lparr>th_pc := T_Consume c (CW_Fetch dl)\<rparr>, (world s)\<lparr>mw_unread := (mw_unread (world s))(c := Suc k)\<rparr>)"
    using wait by (simp add: thread_step_def model_wait_def assms(4))
  then have st: "step_thread S i s = (if i = 0 then s\<lparr>threads := [th\<lparr>th_pc := T_Consume c (CW_Fetch dl)\<rparr>],
      world := (world s)\<lparr>mw_unread := (mw_unread (world s))(c := Suc k)\<rparr>\<rparr> else s)"
    using wait(1) by (simp add: step_thread_def)
  show ?thesis using st wait assms(1) by (cases "i = 0") (simp_all add: woken_def)
next
  case (look th dl)
  obtain w1 where w1: "fetch_one (model_server E) c q (world s) = (Inr (Some (handle_of q j)), w1)"
    "mw_now w1 = n + 1" "holds_job q (Some (claim n j)) (mw_db w1)"
    using fetch_one_ready [OF look(5) assms(2)] assms(3) look(4) by metis
  have "thread_step S th (world s) = (th\<lparr>th_pc := T_End (Some (Inr (Some (handle_of q j))))\<rparr>, w1)"
    using look w1(1) by (simp add: thread_step_def assms(4))
  then have st: "step_thread S i s =
      (if i = 0 then s\<lparr>threads := [th\<lparr>th_pc := T_End (Some (Inr (Some (handle_of q j))))\<rparr>], world := w1\<rparr> else s)"
    using look(1) by (simp add: step_thread_def)
  show ?thesis using st look w1(2,3) assms(1) by (cases "i = 0") (simp_all add: woken_def)
next
  case (ended th)
  then have st: "step_thread S i s = s"
    by (simp add: step_thread_def thread_step_def)
  show ?thesis using st assms(1) ended by simp
qed

lemma woken_background:
  assumes "woken c q j n s" "pending j" "j_start_after j \<le> n"
  shows "woken c q j n (background (model_server E) s) \<and>
    steps_left (th_pc (hd (threads (background (model_server E) s)))) \<le> steps_left (th_pc (hd (threads s)))"
proof -
  have f: "woken c q j n (fold (step_thread (model_server E)) is u) \<and>
      steps_left (th_pc (hd (threads (fold (step_thread (model_server E)) is u)))) \<le> steps_left (th_pc (hd (threads u)))"
    if "woken c q j n u" for "is" u
    using that
  proof (induction "is" arbitrary: u)
    case (Cons i "is")
    show ?case
      using Cons.IH [of "step_thread (model_server E) i u"] woken_step [OF Cons.prems assms(2,3) refl, of E i] by auto
  qed simp
  have "woken c q j n (s\<lparr>schedule := sch\<rparr>)" for sch
    using assms(1) by (simp add: woken_def)
  from f [OF this] show ?thesis
    using assms(1) by (auto simp: background_def split: list.split)
qed

lemma join_woken:
  assumes "woken c q j n s" "pending j" "j_start_after j \<le> n"
  shows "\<exists>s1. join (model_server E) 0 s = Some (Inr (Some (Inr (Some (handle_of q j)))), s1) \<and>
    runner_of s1 = runner_of s \<and> mw_now (world s1) = n + 1 \<and> holds_job q (Some (claim n j)) (mw_db (world s1))"
  using assms(1)
proof (induction "steps_left (th_pc (hd (threads s)))" arbitrary: s rule: less_induct)
  case less
  let ?b = "background (model_server E) s"
  let ?r = "step_thread (model_server E) 0 ?b"
  have b: "woken c q j n ?b" "steps_left (th_pc (hd (threads ?b))) \<le> steps_left (th_pc (hd (threads s)))"
    using woken_background [OF less.prems assms(2,3)] by auto
  have on: "join (model_server E) 0 s = join (model_server E) 0 ?r"
    if "threads ?b = [th]" "th_pc th = T_Consume c pc" for th pc
    unfolding join_def using that by (subst loop_unfold) (simp add: Let_def)
  have go: "?case" if "threads ?b = [th]" "th_pc th = T_Consume c pc" "steps_left (th_pc th) \<noteq> 0" for th pc
  proof -
    have "steps_left (th_pc (hd (threads ?r))) < steps_left (th_pc (hd (threads s)))"
      using woken_step [OF b(1) assms(2,3) refl, of E 0] b(2) that by auto
    from less.hyps [OF this] woken_step [OF b(1) assms(2,3) refl, of E 0] show ?thesis
      using on [OF that(1,2)] by simp
  qed
  from b(1) show ?case
  proof (cases rule: woken_cases)
    case (ended th)
    then have "join (model_server E) 0 s = Some (Inr (Some (Inr (Some (handle_of q j)))), ?b)"
      unfolding join_def by (subst loop_unfold) (simp add: Let_def)
    then show ?thesis using ended by simp
  qed (use go in simp_all)
qed

text \<open>The notification of a \<open>send\<close> reaches the sessions that listen to the channel and have read all before.\<close>

lemma next_heard_last:
  assumes "notifies (mw_db w) = old @ [(ch, x)]" "(c, ch, k) \<in> set (mw_listens w)" "k \<le> length old"
    and "mw_unread w c \<le> length old"
  shows "next_heard w c \<noteq> None"
proof -
  have "hears w c (length old)"
    using assms by (auto simp: hears_def list_ex_iff)
  then show ?thesis
    using assms(1) by (auto simp: next_heard_def find_None_iff)
qed

lemma push_wakes:
  assumes "threads s = [th]" "th_queue th = q" "th_pc th = T_Consume c (CW_Wait dl t)" "schedule s = [] # later"
    and "r_clients (runner_of s) 1 = Some c1" "holds_job q None (mw_db (world s))"
    and "(c, channel (env_pg E) q, k) \<in> set (mw_listens (world s))" "k \<le> length (notifies (mw_db (world s)))"
    and "mw_unread (world s) c \<le> length (notifies (mw_db (world s)))"
    and "utf8_len (channel (env_pg E) q) \<in> {1..63}" "env_gen E (mw_next (world s)) \<notin> ids (mw_db (world s))"
    and "small_options opts" "given (so_start_after opts) 0 = 0" "keeps_plain E" "jsonb_plain data"
  obtains s1 j where "exec_command (model_server E) line 1 (Push q data opts) s = Some (Inr (), s1)"
    and "woken c q j (mw_now (world s) + 1) s1" "runner_of s1 = runner_of s"
    and "pending j" "j_start_after j = mw_now (world s)" "j_data j = Some data"
proof -
  let ?w = "world s"
  obtain j d1 where j: "sql_eval (env_pg E) (env_jsonb E) (mw_now ?w) (env_gen E (mw_next ?w))
      (Q_Send q data (send_options_to_json opts)) (mw_db ?w) = Inr (A_Text (uuid_out (env_gen E (mw_next ?w))), d1)"
    "holds_job q (Some j) d1"
    "notifies d1 = notifies (mw_db ?w) @ [(channel (env_pg E) q, uuid_out (env_gen E (mw_next ?w)))]"
    "j_state j = Created" "j_start_after j = mw_now ?w + seconds (given (so_start_after opts) 0)" "j_data j = Some data"
    by (rule holds_send [OF assms(6,10-12,14,15)])
  let ?w1 = "?w\<lparr>mw_db := d1, mw_now := mw_now ?w + 1, mw_next := mw_next ?w + 1\<rparr>"
  let ?s1 = "s\<lparr>schedule := later, world := ?w1\<rparr>"
  have "foreground (model_server E) 1 (Q_Send q data (send_options_to_json opts)) s =
      (Inr (A_Text (uuid_out (env_gen E (mw_next ?w)))), ?s1)"
    unfolding foreground_client [of s 1 c1, OF assms(5)]
    using j(1) assms(4) by (simp add: call_def background_def query_def model_query_def Let_def del: sql_eval.simps)
  then have p: "exec_command (model_server E) line 1 (Push q data opts) s = Some (Inr (), ?s1)"
    by (simp add: exec_push_def)
  have "next_heard ?w1 c \<noteq> None"
    using j(3) assms(7-9) by (intro next_heard_last) simp_all
  then have "woken c q j (mw_now ?w + 1) ?s1"
    using assms(1-3) j(2) by (simp add: woken_def)
  then show thesis
    using that [OF p] j(4-6) assms(13) by (simp add: seconds_def)
qed

end
