(* ===== verification/Claims.thy ===== *)
theory Claims
  imports Model_Server Delivery
begin

text \<open>
  Who holds which job in a run of src/dsltest/src/runner.rs on the model of the extension: the variables and the
  spawned consumers that are still to be awaited. Without \<open>fail\<close> and \<open>maintain\<close>, the statements that
  put a claimed job back, two of them never hold the same job. \<open>world_order\<close> is interpreted on what becomes of
  a claimed job in the database, \<open>sys_order\<close> on what a call leaves of the claims.
\<close>

section \<open>Claimed jobs in the database\<close>

text \<open>
  The ids are a finite type, so that they cannot be new for ever: \<open>N\<close> bounds the ids the run may draw, those
  from the next one on are pairwise different and not in the table.
\<close>

definition new_ids :: "model_env \<Rightarrow> nat \<Rightarrow> model_world \<Rightarrow> uuid set" where
  "new_ids E N w = env_gen E ` {mw_next w..<N}"

definition world_ok :: "model_env \<Rightarrow> nat \<Rightarrow> model_world \<Rightarrow> bool" where
  "world_ok E N w \<longleftrightarrow>
     db_inv (mw_db w) \<and> inj_on (env_gen E) {mw_next w..<N} \<and> ids (mw_db w) \<inter> new_ids E N w = {}"

text \<open>The id of a job that no fetch returns any more: its row is gone or not waiting, and no new row gets the id.\<close>

definition taken :: "model_env \<Rightarrow> nat \<Rightarrow> model_world \<Rightarrow> string \<Rightarrow> bool" where
  "taken E N w t \<longleftrightarrow>
     (\<exists>u. t = uuid_out u \<and> u \<notin> new_ids E N w \<and> (\<forall>j. row (mw_db w) u = Some j \<longrightarrow> \<not> waiting j))"

definition leaves_taken :: "model_env \<Rightarrow> nat \<Rightarrow> model_world \<Rightarrow> model_world \<Rightarrow> bool" where
  "leaves_taken E N w w1 \<longleftrightarrow>
     (world_ok E N w \<longrightarrow> world_ok E N w1 \<and> (\<forall>t. taken E N w t \<longrightarrow> taken E N w1 t))"

definition keeps_taken :: "model_env \<Rightarrow> nat \<Rightarrow> model_world \<Rightarrow> model_world \<Rightarrow> bool" where
  "keeps_taken E N w w1 \<longleftrightarrow> mw_next w1 = mw_next w \<and> leaves_taken E N w w1"

fun no_requeue :: "sql \<Rightarrow> bool" where
  "no_requeue (Q_Fail queue i output) = False"
| "no_requeue Q_Maintain = False"
| "no_requeue q = True"

text \<open>What an operation other than \<open>send\<close> of the row \<open>new_id\<close> leaves of a row.\<close>

definition settled :: "job option \<Rightarrow> job option \<Rightarrow> bool" where
  "settled x y \<longleftrightarrow> (\<forall>j. y = Some j \<longrightarrow> (\<exists>k. x = Some k) \<and> (waiting j \<longrightarrow> (\<exists>k. x = Some k \<and> waiting k)))"

lemma settled_refl [simp]: "settled x x"
  by (simp add: settled_def)

lemma settled_map: "(\<And>j. x = Some j \<Longrightarrow> waiting (f j) \<Longrightarrow> waiting j) \<Longrightarrow> settled x (map_option f x)"
  by (auto simp: settled_def)

lemma sql_eval_settles:
  assumes "sql_eval P cv now new_id q d = Inr (r, d1)" "no_requeue q" "db_inv d"
  shows "db_inv d1" "ids_drawn q = 0 \<or> u \<noteq> new_id \<Longrightarrow> settled (row d u) (row d1 u)"
proof -
  have "db_inv d1 \<and> (ids_drawn q = 0 \<or> u \<noteq> new_id \<longrightarrow> settled (row d u) (row d1 u))"
  proof (cases q)
    case (Q_Create_Queue n options)
    then show ?thesis
      using assms create_queue_inv [of d now n "projr (cv options)"] create_queue_row [of now n "projr (cv options)" d u]
      by (cases "cv options") (auto split: prod.splits)
  next
    case (Q_Delete_Queue n)
    then show ?thesis
      using assms delete_queue_inv [of d n] delete_queue_row [of d n u]
      by (auto simp: settled_def split: prod.splits option.splits if_splits)
  next
    case (Q_Send n data options)
    then show ?thesis
      using assms send_inv [OF assms(3)] send_row(3)
      by (cases "cv data"; cases "cv options") (auto split: prod.splits)
  next
    case (Q_Fetch n)
    then obtain js where f: "fetch [] now n (Some 1) d = Inr (js, d1)" using assms(1) by auto
    have "settled (row d u) (row d1 u)"
      by (auto simp: fetch_row [OF f] waiting_def intro: settled_map)
    then show ?thesis using fetch_inv [OF assms(3) f] by simp
  next
    case (Q_Complete n i out)
    then show ?thesis
      using assms complete_inv [of d now n "projr (uuid_in i)" "Some (projr (cv out))"]
        complete_row [of now n "projr (uuid_in i)" "Some (projr (cv out))" d u]
      by (cases "uuid_in i"; cases "cv out") (auto simp: waiting_def intro!: settled_map split: prod.splits if_splits)
  qed (use assms in auto)
  then show "db_inv d1" "ids_drawn q = 0 \<or> u \<noteq> new_id \<Longrightarrow> settled (row d u) (row d1 u)" by simp_all
qed

lemma settled_ids: "(\<And>u. u \<in> X \<Longrightarrow> settled (row d u) (row d1 u)) \<Longrightarrow> ids d \<inter> X = {} \<Longrightarrow> ids d1 \<inter> X = {}"
proof -
  assume a: "\<And>u. u \<in> X \<Longrightarrow> settled (row d u) (row d1 u)" "ids d \<inter> X = {}"
  have "row d1 u = None" if "u \<in> X" for u
  proof -
    have "row d u = None" using that a(2) by (auto simp: row_None_iff)
    then show ?thesis using a(1) [OF that] by (cases "row d1 u") (auto simp: settled_def)
  qed
  then show ?thesis by (auto simp: row_None_iff)
qed

lemma model_query_next: "mw_next (snd (model_query E c q w)) = mw_next w + ids_drawn q"
proof -
  have "mw_next (listen c q w) = mw_next w" by (cases q) simp_all
  then show ?thesis by (auto simp: model_query_def split: sum.split prod.split)
qed

lemma leaves_taken_query:
  assumes "no_requeue q" "ids_drawn q = 0 \<or> mw_next w < N"
  shows "leaves_taken E N w (snd (model_query E c q w))"
  unfolding leaves_taken_def
proof (intro impI)
  assume ok: "world_ok E N w"
  let ?w = "snd (model_query E c q w)" and ?i = "env_gen E (mw_next w)"
  have d: "db_inv (mw_db w)" using ok by (simp add: world_ok_def)
  have inv: "db_inv (mw_db ?w)"
    using sql_eval_settles(1) [OF _ assms(1) d] d by (auto simp: model_query_def split: sum.split prod.split)
  have row: "settled (row (mw_db w) u) (row (mw_db ?w) u)" if "ids_drawn q = 0 \<or> u \<noteq> ?i" for u
    using sql_eval_settles(2) [OF _ assms(1) d] that by (auto simp: model_query_def split: sum.split prod.split)
  have sub: "{mw_next ?w..<N} \<subseteq> {mw_next w..<N}" by (auto simp: model_query_next)
  have new: "ids_drawn q = 0 \<or> u \<noteq> ?i" if new: "u \<in> new_ids E N ?w" for u
  proof (rule disjCI)
    assume "\<not> u \<noteq> ?i"
    moreover obtain n where "u = env_gen E n" "mw_next ?w \<le> n" "n < N"
      using new by (auto simp: new_ids_def)
    ultimately have n: "?i = env_gen E n" "mw_next ?w \<le> n" "n < N" by simp_all
    show "ids_drawn q = 0"
    proof (rule ccontr)
      assume z: "ids_drawn q \<noteq> 0"
      then have "mw_next w < N" using assms(2) by simp
      then have "mw_next w = n"
        using ok n by (intro inj_onD [of "env_gen E" "{mw_next w..<N}"]) (auto simp: world_ok_def model_query_next)
      then show False using n(2) z by (simp add: model_query_next)
    qed
  qed
  have old: "new_ids E N ?w \<subseteq> new_ids E N w" using sub by (auto simp: new_ids_def)
  have "ids (mw_db w) \<inter> new_ids E N ?w = {}" using ok old by (auto simp: world_ok_def)
  then have "ids (mw_db ?w) \<inter> new_ids E N ?w = {}" using settled_ids row new by metis
  then have w: "world_ok E N ?w" using inv ok inj_on_subset [OF _ sub] by (auto simp: world_ok_def)
  have "taken E N ?w t" if t: "taken E N w t" for t
  proof -
    obtain u where u: "t = uuid_out u" "u \<notin> new_ids E N w" "\<forall>j. row (mw_db w) u = Some j \<longrightarrow> \<not> waiting j"
      using t by (auto simp: taken_def)
    have "ids_drawn q = 0 \<or> u \<noteq> ?i"
      using u(2) assms(2) by (cases "ids_drawn q") (auto simp: new_ids_def)
    then show ?thesis using u row [of u] old unfolding taken_def settled_def by blast
  qed
  with w show "world_ok E N ?w \<and> (\<forall>t. taken E N w t \<longrightarrow> taken E N ?w t)" by blast
qed

lemma keeps_takenD: "keeps_taken E N w w1 \<Longrightarrow> leaves_taken E N w w1"
  by (simp add: keeps_taken_def)

lemma keeps_taken_same: "mw_db w1 = mw_db w \<Longrightarrow> mw_next w1 = mw_next w \<Longrightarrow> keeps_taken E N w w1"
  by (simp add: keeps_taken_def leaves_taken_def world_ok_def taken_def new_ids_def)

lemma model_wait_next [simp]: "mw_next (snd (model_wait c t w)) = mw_next w"
  by (simp add: model_wait_def split: option.split)

text \<open>\<open>send\<close> draws an id: all other statements keep also the number of the next one.\<close>

definition draws_none :: "sql \<Rightarrow> bool" where
  "draws_none q \<longleftrightarrow> no_requeue q \<and> ids_drawn q = 0"

interpretation taken: world_order "keeps_taken E N" "model_server E" draws_none for E N
proof
  show "keeps_taken E N w w" for w by (rule keeps_taken_same) simp_all
  show "keeps_taken E N w w2" if "keeps_taken E N w w1" "keeps_taken E N w1 w2" for w w1 w2
    using that by (simp add: keeps_taken_def leaves_taken_def)
  show "keeps_taken E N w (snd (srv_query (model_server E) c q w))" if "draws_none q" for c q w
    using that by (simp add: keeps_taken_def draws_none_def model_query_next leaves_taken_query)
qed (simp_all add: keeps_taken_same draws_none_def)

text \<open>A fetch returns a job that was not taken and is from then on.\<close>

lemma fetch_one_takes:
  assumes "fetch_one (model_server E) c q w = (Inr (Some h), w1)" "world_ok E N w"
  shows "\<not> taken E N w (h_id h)" "taken E N w1 (h_id h)"
proof -
  have inv: "db_inv (mw_db w)" using assms(2) by (simp add: world_ok_def)
  obtain js d1 where f: "fetch [] (mw_now w) q (Some 1) (mw_db w) = Inr (js, d1)"
    and js: "js \<noteq> []" "h_id h = uuid_out (j_id (hd js))" and w1: "mw_db w1 = d1" "mw_next w1 = mw_next w"
    using assms(1)
    by (auto simp: fetch_one_def tbind_def query_def model_query_def get_texts_def split: sum.splits prod.splits list.splits)
  let ?u = "j_id (hd js)"
  obtain j where j: "hd js = claim (mw_now w) j" "row (mw_db w) (j_id j) = Some j"
      "claimed [] (mw_now w) q (Some 1) (mw_db w) (j_id j)"
    using hd_in_set [OF js(1)] unfolding fetch_result [OF inv f] by auto
  obtain j' where "row (mw_db w) (j_id j) = Some j'" "fetchable (mw_now w) q j'"
    by (rule claimed_row [OF inv j(3)])
  then have "waiting j" using j(2) by (auto simp: fetchable_def waiting_def)
  then show "\<not> taken E N w (h_id h)" using js(2) j(1,2) by (auto simp: taken_def uuid_out_inj)
  have "?u \<notin> new_ids E N w"
    using assms(2) j(1,2) row_None_iff [of "mw_db w" "j_id j"] by (auto simp: world_ok_def)
  then have "?u \<notin> new_ids E N w1"
    using w1(2) by (simp add: new_ids_def)
  moreover have "row (mw_db w1) ?u = Some (claim (mw_now w) j)"
    using fetch_row [OF f] j w1(1) by simp
  ultimately show "taken E N w1 (h_id h)"
    using js(2) by (auto simp: taken_def waiting_def)
qed

lemma cw_step_takes:
  assumes "cw_step (model_server E) c q within pc w = (Inr (Inr (Some h)), w1)" "world_ok E N w"
  shows "\<not> taken E N w (h_id h) \<and> taken E N w1 (h_id h)"
proof -
  have "fetch_one (model_server E) c q w = (Inr (Some h), w1)"
    using assms(1) by (cases pc) (auto simp: tbind_def split: prod.splits sum.splits option.splits if_splits)
  then show ?thesis using fetch_one_takes assms(2) by blast
qed

section \<open>Who holds which job\<close>

datatype slot = Of_Var string | Of_Thread nat

definition thread_job :: "thread list \<Rightarrow> nat \<Rightarrow> string option" where
  "thread_job ths i =
     (if i < length ths then
        (case th_pc (ths ! i) of T_End (Some (Inr (Some h))) \<Rightarrow> Some (h_id h) | _ \<Rightarrow> None)
      else None)"

fun held :: "'w sys \<Rightarrow> slot \<Rightarrow> string option" where
  "held s (Of_Var v) = (case r_vars (runner_of s) v of Some (Var_Job h) \<Rightarrow> Some (h_id h) | _ \<Rightarrow> None)"
| "held s (Of_Thread i) = thread_job (threads s) i"

text \<open>Every job of the slots \<open>L\<close> is taken, and in one slot only; no slot holds the job \<open>t\<close>.\<close>

definition claims_ok :: "model_env \<Rightarrow> nat \<Rightarrow> slot set \<Rightarrow> model_world sys \<Rightarrow> bool" where
  "claims_ok E N L s \<longleftrightarrow>
     world_ok E N (world s) \<and>
     (\<forall>a \<in> L. \<forall>t. held s a = Some t \<longrightarrow> taken E N (world s) t \<and> (\<forall>b \<in> L. held s b = Some t \<longrightarrow> b = a))"

definition free_claim :: "model_env \<Rightarrow> nat \<Rightarrow> slot set \<Rightarrow> string \<Rightarrow> model_world sys \<Rightarrow> bool" where
  "free_claim E N L t s \<longleftrightarrow> claims_ok E N L s \<and> taken E N (world s) t \<and> (\<forall>a \<in> L. held s a \<noteq> Some t)"

definition call_keeps :: "model_env \<Rightarrow> nat \<Rightarrow> model_world sys \<Rightarrow> model_world sys \<Rightarrow> bool" where
  "call_keeps E N s s1 \<longleftrightarrow>
     r_vars (runner_of s1) = r_vars (runner_of s) \<and> r_pending (runner_of s1) = r_pending (runner_of s) \<and>
     length (threads s1) = length (threads s) \<and> mw_next (world s1) = mw_next (world s) \<and> (\<forall>L. claims_ok E N L s \<longrightarrow> claims_ok E N L s1)"

lemma claims_ok_sub: "claims_ok E N L s \<Longrightarrow> L1 \<subseteq> L \<Longrightarrow> claims_ok E N L1 s"
  unfolding claims_ok_def by blast

lemma claims_ok_cong:
  "claims_ok E N L s \<Longrightarrow> leaves_taken E N (world s) (world s1) \<Longrightarrow> (\<And>a. a \<in> L \<Longrightarrow> held s1 a = held s a) \<Longrightarrow> claims_ok E N L s1"
  unfolding claims_ok_def leaves_taken_def by simp

lemma not_taken_held: "\<not> taken E N (world s) t \<Longrightarrow> claims_ok E N L s \<Longrightarrow> a \<in> L \<Longrightarrow> held s a \<noteq> Some t"
  unfolding claims_ok_def by auto

text \<open>One slot changes: its job is taken and in no other slot.\<close>

lemma claims_ok_bind:
  assumes "claims_ok E N (L - {a}) s" "leaves_taken E N (world s) (world s1)"
    and "\<And>b. b \<in> L \<Longrightarrow> b \<noteq> a \<Longrightarrow> held s1 b = held s b"
    and "\<And>t. held s1 a = Some t \<Longrightarrow> taken E N (world s1) t \<and> (\<forall>b \<in> L - {a}. held s b \<noteq> Some t)"
  shows "claims_ok E N L s1"
  unfolding claims_ok_def
proof (intro conjI ballI allI impI)
  show "world_ok E N (world s1)" using assms(1,2) by (simp add: claims_ok_def leaves_taken_def)
  fix x t
  assume x: "x \<in> L" "held s1 x = Some t"
  show "taken E N (world s1) t"
    using assms x by (cases "x = a") (auto simp: claims_ok_def leaves_taken_def)
  fix y
  assume y: "y \<in> L" "held s1 y = Some t"
  show "y = x"
  proof (cases "x = a \<or> y = a")
    case True
    then show ?thesis using assms(3,4) x y by (metis Diff_iff singletonD)
  next
    case False
    then have "x \<in> L - {a}" "y \<in> L - {a}" "held s x = Some t" "held s y = Some t"
      using x y assms(3) by auto
    then show ?thesis using assms(1) unfolding claims_ok_def by blast
  qed
qed

lemma thread_step_held:
  assumes "thread_step (model_server E) th w = (th1, w1)" "world_ok E N w"
  shows "thread_job [th1] 0 = thread_job [th] 0 \<or>
    (case thread_job [th1] 0 of None \<Rightarrow> True | Some t \<Rightarrow> \<not> taken E N w t \<and> taken E N w1 t)"
proof (cases "th_pc th")
  case (T_Consume c pc)
  obtain v w2 where v: "cw_step (model_server E) c (th_queue th) (th_within th) pc w = (v, w2)" by fastforce
  then show ?thesis
    using assms T_Consume cw_step_takes [of E c "th_queue th" "th_within th" pc w]
    by (auto simp: thread_step_def thread_job_def split: sum.splits failure.splits option.splits)
qed (use assms in \<open>auto simp: thread_step_def thread_job_def split: prod.splits sum.splits\<close>)

lemma step_thread_call_keeps: "call_keeps E N s (step_thread (model_server E) i s)"
proof (cases "i < length (threads s)")
  case True
  obtain th1 w1 where st: "thread_step (model_server E) (threads s ! i) (world s) = (th1, w1)" by fastforce
  let ?s = "s\<lparr>threads := (threads s)[i := th1], world := w1\<rparr>"
  have s1: "step_thread (model_server E) i s = ?s" using True st by (simp add: step_thread_def)
  have keeps: "keeps_taken E N (world s) (world ?s)"
    using taken.thread_step_keeps [of E N "world s" "threads s ! i"] st by simp
  note leaves = keeps_takenD [OF keeps]
  have same: "held ?s b = held s b" if "b \<noteq> Of_Thread i" for b
    using that by (cases b) (auto simp: thread_job_def)
  have "claims_ok E N L ?s" if ok: "claims_ok E N L s" for L
  proof (cases "Of_Thread i \<in> L")
    case i: True
    show ?thesis
    proof (rule claims_ok_bind [OF claims_ok_sub [OF ok] leaves same])
      fix t
      assume t: "held ?s (Of_Thread i) = Some t"
      have w: "world_ok E N (world s)" using ok by (simp add: claims_ok_def)
      have j: "thread_job [th1] 0 = Some t" "thread_job [threads s ! i] 0 = held s (Of_Thread i)"
        using t True by (simp_all add: thread_job_def)
      then consider "held s (Of_Thread i) = Some t" | "\<not> taken E N (world s) t" "taken E N w1 t"
        using thread_step_held [OF st w] by auto
      then show "taken E N (world ?s) t \<and> (\<forall>b \<in> L - {Of_Thread i}. held s b \<noteq> Some t)"
      proof cases
        case 1
        then show ?thesis using ok i keeps unfolding claims_ok_def keeps_taken_def leaves_taken_def by auto
      next
        case 2
        then show ?thesis using not_taken_held [OF 2(1) ok] by simp
      qed
    qed auto
  next
    case False
    then show ?thesis using claims_ok_cong [OF ok leaves] same by metis
  qed
  then show ?thesis using keeps by (simp add: call_keeps_def s1 keeps_taken_def)
qed (simp add: call_keeps_def step_thread_def)

lemma held_world [simp]:
  "held (s\<lparr>world := w\<rparr>) = held s" "held (s\<lparr>schedule := rest\<rparr>) = held s"
  "r_vars r = r_vars (runner_of s) \<Longrightarrow> held (s\<lparr>runner_of := r\<rparr>) = held s"
proof -
  show "held (s\<lparr>world := w\<rparr>) = held s" by (rule ext, rename_tac a, case_tac a) simp_all
  show "held (s\<lparr>schedule := rest\<rparr>) = held s" by (rule ext, rename_tac a, case_tac a) simp_all
  show "r_vars r = r_vars (runner_of s) \<Longrightarrow> held (s\<lparr>runner_of := r\<rparr>) = held s"
    by (rule ext, rename_tac a, case_tac a) simp_all
qed

lemma claims_ok_fields [simp]:
  "claims_ok E N L (s\<lparr>schedule := rest\<rparr>) = claims_ok E N L s"
  "r_vars r = r_vars (runner_of s) \<Longrightarrow> claims_ok E N L (s\<lparr>runner_of := r\<rparr>) = claims_ok E N L s"
  by (simp_all add: claims_ok_def)

interpretation keep: sys_order "keeps_taken E N" "model_server E" draws_none "call_keeps E N" for E N
proof
  show "call_keeps E N s s" for s by (simp add: call_keeps_def)
  show "call_keeps E N s u" if "call_keeps E N s t" "call_keeps E N t u" for s t u
    using that by (simp add: call_keeps_def)
  show "call_keeps E N s (step_thread (model_server E) i s)" for s i by (rule step_thread_call_keeps)
  show "call_keeps E N s (s\<lparr>world := w\<rparr>)" if "keeps_taken E N (world s) w" for s w
    using that claims_ok_cong [of E N _ s "s\<lparr>world := w\<rparr>"] by (simp add: call_keeps_def keeps_taken_def)
qed (simp_all add: call_keeps_def)

section \<open>The results of the loops\<close>

lemma call_claims:
  assumes "call (model_server E) (cw_step (model_server E) c q within pc) s = (Inr (Inr (Some h)), s1)" "claims_ok E N L s"
  shows "free_claim E N L (h_id h) s1"
proof -
  let ?b = "background (model_server E) s"
  have b: "claims_ok E N L ?b" using keep.background_keeps [of E N s] assms(2) by (simp add: call_keeps_def)
  obtain w1 where w1: "cw_step (model_server E) c q within pc (world ?b) = (Inr (Inr (Some h)), w1)" "s1 = ?b\<lparr>world := w1\<rparr>"
    using assms(1) by (auto simp: call_def Let_def split: prod.splits)
  have h: "\<not> taken E N (world ?b) (h_id h)" "taken E N w1 (h_id h)"
    using cw_step_takes [OF w1(1)] b by (simp_all add: claims_ok_def)
  have "leaves_taken E N (world ?b) w1" using keeps_takenD [OF stepsD [OF taken.world_cw_step w1(1)]] .
  then have "claims_ok E N L s1" using claims_ok_cong [OF b, of s1] w1(2) by simp
  then show ?thesis
    using not_taken_held [OF h(1) b] h(2) w1(2) by (simp add: free_claim_def)
qed

lemma consume_wait_claims:
  assumes "consume_wait (model_server E) c q within s = Some (Inr (Some h), s1)" "claims_ok E N L s"
  shows "free_claim E N L (h_id h) s1"
proof -
  have "\<forall>h. r = Inr (Some h) \<longrightarrow> free_claim E N L (h_id h) s1"
    if "consume_wait (model_server E) c q within s = Some (r, s1)" for r
    using that unfolding consume_wait_def
  proof (rule loop_rule [where I = "\<lambda>_. claims_ok E N L" and Q = "\<lambda>r s1. \<forall>h. r = Inr (Some h) \<longrightarrow> free_claim E N L (h_id h) s1"])
    show "claims_ok E N L s2" if "claims_ok E N L t" "call (model_server E) (cw_step (model_server E) c q within pc) t = (Inr (Inl y), s2)"
      for pc t y s2
      using stepsD [OF keep.steps_call [OF taken.world_cw_step] that(2)] that(1) by (simp add: call_keeps_def)
  qed (use assms(2) call_claims in auto)
  then show ?thesis using assms(1) by blast
qed

lemma join_result:
  assumes "join S i s = Some (Inr (Some (Inr (Some h))), s1)"
  shows "thread_job (threads s1) i = Some (h_id h)"
proof -
  have "\<forall>h. r = Inr (Some (Inr (Some h))) \<longrightarrow> thread_job (threads s1) i = Some (h_id h)"
    if "join S i s = Some (r, s1)" for r
    using that unfolding join_def
    by (rule loop_rule [where I = "\<lambda>_ _. True" and
        Q = "\<lambda>r s1. \<forall>h. r = Inr (Some (Inr (Some h))) \<longrightarrow> thread_job (threads s1) i = Some (h_id h)"])
      (auto simp: Let_def thread_job_def split: if_splits thread_pc.splits)
  then show ?thesis using assms by blast
qed

section \<open>Statements\<close>

definition slots :: "'w sys \<Rightarrow> slot set" where
  "slots s = range Of_Var \<union> Of_Thread ` snd ` set (r_pending (runner_of s))"

definition one_holder :: "model_env \<Rightarrow> nat \<Rightarrow> model_world sys \<Rightarrow> bool" where
  "one_holder E N s \<longleftrightarrow>
     distinct (map snd (r_pending (runner_of s))) \<and>
     (\<forall>i \<in> snd ` set (r_pending (runner_of s)). i < length (threads s)) \<and>
     claims_ok E N (slots s) s"

text \<open>What every statement but \<open>push\<close> keeps.\<close>

definition holder_kept :: "model_env \<Rightarrow> nat \<Rightarrow> model_world sys \<Rightarrow> model_world sys \<Rightarrow> bool" where
  "holder_kept E N s s1 \<longleftrightarrow>
     (one_holder E N s \<longrightarrow> one_holder E N s1 \<and> mw_next (world s1) = mw_next (world s))"

interpretation holder: state_order "holder_kept E N" for E N
  by unfold_locales (auto simp: holder_kept_def)

lemma holder_call: "call_keeps E N s s1 \<Longrightarrow> holder_kept E N s s1"
  by (simp add: holder_kept_def one_holder_def call_keeps_def slots_def)

lemma holder_steps: "steps (call_keeps E N) p \<Longrightarrow> steps (holder_kept E N) p"
  by (simp add: steps_def holder_call)

lemma one_holder_vars:
  assumes "one_holder E N s" "r_vars (runner_of s) v = Some (Var_Job j)" "r_vars (runner_of s) v1 = Some (Var_Job j1)"
    and "h_id j = h_id j1"
  shows "v = v1"
proof -
  have "Of_Var v \<in> slots s" "Of_Var v1 \<in> slots s" "held s (Of_Var v) = Some (h_id j)" "held s (Of_Var v1) = Some (h_id j)"
    using assms(2-4) by (simp_all add: slots_def)
  then have "Of_Var v1 = Of_Var v" using assms(1) unfolding one_holder_def claims_ok_def by blast
  then show ?thesis by simp
qed

lemma held_bind:
  "held (s\<lparr>runner_of := (runner_of s)\<lparr>r_vars := (r_vars (runner_of s))(v \<mapsto> x)\<rparr>\<rparr>) a =
   (if a = Of_Var v then (case x of Var_Job h \<Rightarrow> Some (h_id h) | Var_Empty \<Rightarrow> None) else held s a)"
  by (cases a) (simp_all split: var_value.split)

lemma one_holder_bind:
  assumes "distinct (map snd (r_pending (runner_of s)))" "\<forall>i \<in> snd ` set (r_pending (runner_of s)). i < length (threads s)"
    and "claims_ok E N (slots s) s" "\<And>h. x = Var_Job h \<Longrightarrow> free_claim E N (slots s - {Of_Var v}) (h_id h) s"
  shows "one_holder E N (snd (bind_var v x s))"
proof -
  let ?s = "s\<lparr>runner_of := (runner_of s)\<lparr>r_vars := (r_vars (runner_of s))(v \<mapsto> x)\<rparr>\<rparr>"
  have "claims_ok E N (slots s) ?s"
  proof (rule claims_ok_bind [where a = "Of_Var v"])
    show "claims_ok E N (slots s - {Of_Var v}) s" using assms(3) by (rule claims_ok_sub) blast
    show "leaves_taken E N (world s) (world ?s)" by (simp add: keeps_takenD keeps_taken_same)
  qed (use assms(4) in \<open>auto simp: held_bind free_claim_def split: var_value.splits\<close>)
  moreover have "slots ?s = slots s" by (simp add: slots_def)
  ultimately show ?thesis using assms(1,2) by (simp add: one_holder_def bind_var_def on_runner_def)
qed

lemma pending_less:
  "distinct (map snd ps) \<Longrightarrow> distinct (map snd (filter (\<lambda>(v, _). v \<noteq> var) ps))"
  "snd ` set (filter (\<lambda>(v, _). v \<noteq> var) ps) \<subseteq> snd ` set ps"
  by (auto simp: distinct_map_filter)

lemma one_holder_spawn:
  assumes "one_holder E N s"
  shows "one_holder E N (snd (exec_spawn queue var within s))"
proof -
  let ?ps = "filter (\<lambda>(v, _). v \<noteq> var) (r_pending (runner_of s))" and ?n = "length (threads s)"
  let ?s = "snd (exec_spawn queue var within s)"
  have ps: "distinct (map snd ?ps)" "\<forall>i \<in> snd ` set ?ps. i < ?n"
    using assms pending_less(2) [of var "r_pending (runner_of s)"]
    by (auto simp: one_holder_def pending_less(1))
  have s: "r_pending (runner_of ?s) = (var, ?n) # ?ps" "r_vars (runner_of ?s) = r_vars (runner_of s)"
    "world ?s = world s" "length (threads ?s) = Suc ?n"
    "\<And>i. i < ?n \<Longrightarrow> threads ?s ! i = threads s ! i" "th_pc (threads ?s ! ?n) = T_Connect"
    by (simp_all add: exec_spawn_def Let_def on_runner_def nth_append)
  have sub: "slots ?s - {Of_Thread ?n} \<subseteq> slots s"
    unfolding slots_def s using pending_less(2) by auto
  have "claims_ok E N (slots ?s) ?s"
  proof (rule claims_ok_bind [where a = "Of_Thread ?n"])
    show "claims_ok E N (slots ?s - {Of_Thread ?n}) s"
      using assms sub claims_ok_sub unfolding one_holder_def by blast
    show "leaves_taken E N (world s) (world ?s)" by (simp add: s keeps_takenD keeps_taken_same)
    show "held ?s b = held s b" if "b \<in> slots ?s" "b \<noteq> Of_Thread ?n" for b
      using that ps(2) by (cases b) (auto simp: slots_def s thread_job_def)
  qed (simp add: s thread_job_def)
  moreover have "?n \<notin> snd ` set ?ps" "\<forall>i \<in> snd ` set ?ps. i < Suc ?n" using ps(2) by (blast intro: less_SucI)+
  ultimately show ?thesis using ps(1) by (simp add: one_holder_def s del: set_filter)
qed

lemma one_holder_await:
  assumes "one_holder E N s" "exec_await (model_server E) line var s = Some (r, s1)"
  shows "one_holder E N s1 \<and> mw_next (world s1) = mw_next (world s)"
proof (cases "map_of (r_pending (runner_of s)) var")
  case None
  then show ?thesis using assms by (simp add: exec_await_def)
next
  case (Some i)
  let ?ps = "filter (\<lambda>(v, _). v \<noteq> var) (r_pending (runner_of s))"
  let ?s = "s\<lparr>runner_of := (runner_of s)\<lparr>r_pending := ?ps\<rparr>\<rparr>"
  have i: "(var, i) \<in> set (r_pending (runner_of s))" using Some by (rule map_of_SomeD)
  have other: "i \<notin> snd ` set ?ps"
  proof
    assume "i \<in> snd ` set ?ps"
    then obtain v where v: "(v, i) \<in> set (r_pending (runner_of s))" "v \<noteq> var" by auto
    have "inj_on snd (set (r_pending (runner_of s)))"
      using assms(1) by (simp add: one_holder_def distinct_map)
    then have "(v, i) = (var, i)" using i v by (intro inj_onD [of snd]) simp_all
    then show False using v by simp
  qed
  obtain joined t where j: "join (model_server E) i ?s = Some (joined, t)"
    using model_time.join_terminates [of E i ?s] by (cases "join (model_server E) i ?s") auto
  have keep: "call_keeps E N ?s t" using astepsD [OF keep.steps_join j] .
  have ps: "r_pending (runner_of t) = ?ps" using keep by (simp add: call_keeps_def)
  have t: "distinct (map snd (r_pending (runner_of t)))" "\<forall>k \<in> snd ` set (r_pending (runner_of t)). k < length (threads t)"
    using assms(1) pending_less keep unfolding ps one_holder_def by (auto simp: call_keeps_def)
  have "claims_ok E N (slots s) ?s" using assms(1) by (simp add: one_holder_def)
  then have all: "claims_ok E N (slots s) t" using keep by (simp add: call_keeps_def)
  have sub: "slots t \<subseteq> slots s - {Of_Thread i}"
    using other pending_less(2) by (auto simp: slots_def ps)
  have ok: "claims_ok E N (slots t) t" by (rule claims_ok_sub [OF all]) (use sub in blast)
  have bind: "one_holder E N (snd (bind_var var x t))" if "\<And>h. x = Var_Job h \<Longrightarrow> thread_job (threads t) i = Some (h_id h)" for x
  proof (rule one_holder_bind [OF t ok])
    fix h
    assume "x = Var_Job h"
    then have h: "held t (Of_Thread i) = Some (h_id h)" using that by simp
    have "Of_Thread i \<in> slots s" using i by (force simp: slots_def)
    then show "free_claim E N (slots t - {Of_Var var}) (h_id h) t"
      using h all sub claims_ok_sub [OF ok] unfolding free_claim_def claims_ok_def by blast
  qed
  have "one_holder E N t" using t ok by (simp add: one_holder_def)
  moreover have "mw_next (world t) = mw_next (world s)" using keep by (simp add: call_keeps_def)
  ultimately show ?thesis
    using assms(2) Some j bind join_result [of "model_server E" i ?s _ t]
    by (cases joined) (auto simp: exec_await_def on_runner_def tfail_def bind_var_def
        split: option.splits sum.splits)
qed

text \<open>Statements that put no claimed job back.\<close>

fun no_requeue_command :: "command \<Rightarrow> bool" where
  "no_requeue_command (Fail var output) = False"
| "no_requeue_command Maintain = False"
| "no_requeue_command cmd = True"

lemma one_holder_consume:
  assumes "one_holder E N s" "exec_consume (model_server E) line client queue var within s = Some (r, s1)"
  shows "one_holder E N s1 \<and> mw_next (world s1) = mw_next (world s)"
proof -
  let ?S = "model_server E"
  let ?p = "abind (lift (client_for ?S client)) (\<lambda>c. consume_wait ?S c queue within)"
  obtain v t where p: "?p s = Some (v, t)"
    using assms(2) by (cases "?p s") (auto simp: exec_consume_def)
  have "asteps (call_keeps E N) ?p"
    by (intro keep.sys.asteps_abind keep.sys.asteps_lift keep.steps_client_for keep.steps_consume_wait)
  from astepsD [OF this p] have keep: "call_keeps E N s t" .
  then have t: "one_holder E N t" "mw_next (world t) = mw_next (world s)"
    using holder_call [OF keep] assms(1) by (simp_all add: holder_kept_def)
  have free: "free_claim E N (slots t) (h_id h) t" if v: "v = Inr (Some h)" for h
  proof -
    obtain c s2 where c: "client_for ?S client s = (Inr c, s2)" "consume_wait ?S c queue within s2 = Some (Inr (Some h), t)"
      using p v by (cases rule: abind_cases [where p = "lift (client_for ?S client)" and s = s]) auto
    have "claims_ok E N (slots t) s"
      using assms(1) keep by (simp add: one_holder_def slots_def call_keeps_def)
    then have "claims_ok E N (slots t) s2"
      using stepsD [OF keep.steps_client_for c(1)] by (simp add: call_keeps_def)
    then show ?thesis by (rule consume_wait_claims [OF c(2)])
  qed
  have bind: "one_holder E N (snd (bind_var var (Var_Job h) t))" if "v = Inr (Some h)" for h
    using t(1) free [OF that] unfolding one_holder_def
    by (intro one_holder_bind [unfolded one_holder_def]) (auto simp: free_claim_def intro: claims_ok_sub)
  show ?thesis
    using assms(2) p t bind by (cases v) (auto simp: exec_consume_def bind_var_def on_runner_def split: option.splits)
qed

text \<open>\<open>push\<close> draws an id, which has to be there.\<close>

lemma claims_ok_query:
  assumes "claims_ok E N L s" "no_requeue q" "mw_next (world s) < N"
    and "call (model_server E) (query (model_server E) c q) s = (r, s1)"
  shows "claims_ok E N L s1" "mw_next (world s1) = mw_next (world s) + ids_drawn q"
    "r_vars (runner_of s1) = r_vars (runner_of s)" "r_pending (runner_of s1) = r_pending (runner_of s)"
    "length (threads s1) = length (threads s)"
proof -
  let ?b = "background (model_server E) s" and ?w = "snd (model_query E c q (world (background (model_server E) s)))"
  have s1: "s1 = ?b\<lparr>world := ?w\<rparr>"
    using assms(4) by (auto simp: call_def Let_def query_def split: prod.splits sum.splits)
  have b: "call_keeps E N s ?b" by (rule keep.background_keeps)
  then have ok: "claims_ok E N L ?b" and n: "mw_next (world ?b) = mw_next (world s)"
    using assms(1) by (simp_all add: call_keeps_def)
  have "leaves_taken E N (world ?b) ?w" using assms(2,3) n by (simp add: leaves_taken_query)
  then show "claims_ok E N L s1" using claims_ok_cong [OF ok, of s1] s1 by simp
  show "mw_next (world s1) = mw_next (world s) + ids_drawn q" using s1 n by (simp add: model_query_next)
  show "r_vars (runner_of s1) = r_vars (runner_of s)" "r_pending (runner_of s1) = r_pending (runner_of s)"
    "length (threads s1) = length (threads s)"
    using s1 b by (simp_all add: call_keeps_def)
qed

lemma one_holder_push:
  assumes "one_holder E N s" "mw_next (world s) < N" "exec_push (model_server E) client queue data opts s = (r, s1)"
  shows "one_holder E N s1 \<and> mw_next (world s1) \<le> mw_next (world s) + 1"
proof -
  let ?S = "model_server E" and ?q = "Q_Send queue data (send_options_to_json opts)"
  obtain c s2 where c: "client_for ?S client s = (Inr c, s2)" using model_connects by blast
  have s2: "one_holder E N s2" "mw_next (world s2) = mw_next (world s)"
    using holder_call [OF stepsD [OF keep.steps_client_for c]] assms(1) by (simp_all add: holder_kept_def)
  obtain v t where t: "call ?S (query ?S c ?q) s2 = (v, t)" by fastforce
  have "s1 = t" using assms(3) c t by (cases v) (auto simp: exec_push_def foreground_def)
  moreover have "claims_ok E N (slots s2) s2" "no_requeue ?q" "mw_next (world s2) < N"
    using s2 assms(2) by (simp_all add: one_holder_def)
  note q = claims_ok_query [OF this t]
  ultimately show ?thesis using q s2 by (simp add: one_holder_def slots_def)
qed

fun pushes :: "command \<Rightarrow> nat" where
  "pushes (Push queue data opts) = 1"
| "pushes cmd = 0"

lemma one_holder_exec:
  assumes "one_holder E N s" "no_requeue_command cmd" "mw_next (world s) + pushes cmd \<le> N"
    and "exec_command (model_server E) line client cmd s = Some (r, s1)"
  shows "one_holder E N s1 \<and> mw_next (world s1) \<le> mw_next (world s) + pushes cmd"
proof (cases "plain cmd")
  case plain: True
  show ?thesis
  proof (cases "pushes cmd")
    case 0
    have "draws_none q" if "\<forall>n i v. q = Q_Fail n i v \<longrightarrow> (\<exists>x y. cmd = Fail x y)" "q = Q_Maintain \<longrightarrow> cmd = Maintain"
      "\<forall>n d opts. q = Q_Send n d opts \<longrightarrow> (\<exists>x y z. cmd = Push x y z)" for q
      using that assms(2) 0 by (cases q) (auto simp: draws_none_def)
    then have "call_keeps E N s s1"
      using astepsD [OF keep.steps_plain [OF plain] assms(4)] by blast
    then show ?thesis using holder_call assms(1) unfolding holder_kept_def by fastforce
  next
    case Suc
    then obtain queue data opts where "cmd = Push queue data opts" by (cases cmd) auto
    then show ?thesis using one_holder_push [OF assms(1)] assms(3,4) by simp
  qed
next
  case False
  then consider queue var within where "cmd = Consume queue var within"
    | queue var within where "cmd = SpawnConsume queue var within" | var where "cmd = Await var"
    by (cases cmd) simp_all
  then show ?thesis
  proof cases
    case 1
    then show ?thesis using one_holder_consume [OF assms(1)] assms(4) by fastforce
  next
    case (2 queue var within)
    then have "s1 = snd (exec_spawn queue var within s)" using assms(4) by simp
    then show ?thesis
      using one_holder_spawn [OF assms(1), of queue var within] by (simp add: exec_spawn_def Let_def on_runner_def)
  next
    case 3
    then show ?thesis using one_holder_await [OF assms(1)] assms(4) by fastforce
  qed
qed

section \<open>Scenarios\<close>

abbreviation all_pushes :: "statement list \<Rightarrow> nat" where
  "all_pushes sts \<equiv> sum_list (map (pushes \<circ> st_command) sts)"

lemma one_holder_statements:
  assumes "run_statements (model_server E) sts s = Some (r, s1)" "one_holder E N s"
    and "\<forall>st \<in> set sts. no_requeue_command (st_command st)" "mw_next (world s) + all_pushes sts \<le> N"
  shows "one_holder E N s1"
  using assms
proof (induction sts arbitrary: s)
  case (Cons st sts)
  obtain v t where v: "exec (model_server E) st s = Some (v, t)" using Cons.prems(1) by (auto split: option.splits)
  then have "one_holder E N t \<and> mw_next (world t) \<le> mw_next (world s) + pushes (st_command st)"
    using one_holder_exec [OF Cons.prems(2)] Cons.prems(3,4) unfolding exec_def by auto
  then show ?case using Cons.IH [of t] Cons.prems v by (auto split: sum.splits failure.splits)
qed simp

lemma one_holder_start:
  assumes "world_ok E N (world s)" "runner_of s = runner_new dsn"
  shows "one_holder E N s"
proof -
  have "held s a = None" if "a \<in> slots s" for a using that assms(2) by (auto simp: slots_def runner_new_def)
  then show ?thesis using assms by (simp add: one_holder_def claims_ok_def runner_new_def)
qed

lemma one_holder_join_all:
  assumes "join_all_pending (model_server E) s = Some (r, s1)"
  shows "holder_kept E N s s1"
proof -
  let ?s = "s\<lparr>runner_of := (runner_of s)\<lparr>r_pending := []\<rparr>\<rparr>"
  have "slots ?s \<subseteq> slots s" by (auto simp: slots_def)
  then have "holder_kept E N s ?s" using claims_ok_sub by (auto simp: holder_kept_def one_holder_def)
  moreover have "call_keeps E N ?s s1"
    using astepsD [OF keep.steps_join_all] assms unfolding join_all_pending_def by blast
  ultimately show ?thesis using holder_call holder.trans by blast
qed

lemma abind_ends:
  assumes "abind p f s = Some (r, u)" "\<And>v t. p s = Some (v, t) \<Longrightarrow> P t"
    and "\<And>a t. p s = Some (Inr a, t) \<Longrightarrow> f a t = Some (r, u) \<Longrightarrow> P u"
  shows "P u"
  using assms by (cases rule: abind_cases [where p = p and s = s and f = f]) auto

lemma one_holder_run:
  assumes "run_scenario (model_server E) sc s = Some (r, s1)" "one_holder E N s"
    and "\<forall>st \<in> set (sc_statements sc). no_requeue_command (st_command st)"
    and "mw_next (world s) + all_pushes (sc_statements sc) \<le> N"
  shows "one_holder E N s1"
proof -
  let ?S = "model_server E" and ?qs = "collect_queues sc"
  have client: "steps (holder_kept E N) (client_for ?S 1)"
    by (rule holder_steps) (rule keep.steps_client_for)
  have clean: "steps (holder_kept E N) (cleanup_queues ?S ?qs)"
    by (rule holder_steps) (rule keep.steps_cleanup, simp add: draws_none_def)
  have after: "asteps (holder_kept E N) (abind (join_all_pending ?S) (\<lambda>_. abind (lift (cleanup_queues ?S ?qs)) (\<lambda>_.
      lift (case result of None \<Rightarrow> tret () | Some e \<Rightarrow> tfail (Err e)))))" for result
    using one_holder_join_all clean
    by (intro holder.asteps_abind holder.asteps_lift)
      (auto simp: asteps_def intro: holder.steps_tret holder.steps_tfail split: option.split)
  have kept: "one_holder E N t \<and> mw_next (world t) = mw_next (world s')" if "holder_kept E N s' t" "one_holder E N s'" for s' t
    using that by (simp add: holder_kept_def)
  show ?thesis
    using assms(1) unfolding run_scenario_def Let_def
  proof (rule abind_ends)
    fix v t
    assume "lift (client_for ?S 1) s = Some (v, t)"
    then have t: "one_holder E N t \<and> mw_next (world t) = mw_next (world s)"
      using kept [OF stepsD [OF client] assms(2)] by simp
    then show "one_holder E N t" by simp
    assume "abind (lift (cleanup_queues ?S ?qs)) (\<lambda>_. abind (run_statements ?S (sc_statements sc)) (\<lambda>result.
        abind (join_all_pending ?S) (\<lambda>_. abind (lift (cleanup_queues ?S ?qs)) (\<lambda>_.
        lift (case result of None \<Rightarrow> tret () | Some e \<Rightarrow> tfail (Err e)))))) t = Some (r, s1)"
    then show "one_holder E N s1"
    proof (rule abind_ends)
      fix v u
      assume "lift (cleanup_queues ?S ?qs) t = Some (v, u)"
      then have u: "one_holder E N u \<and> mw_next (world u) = mw_next (world s)"
        using kept [OF stepsD [OF clean]] t by auto
      then show "one_holder E N u" by simp
      assume "abind (run_statements ?S (sc_statements sc)) (\<lambda>result.
          abind (join_all_pending ?S) (\<lambda>_. abind (lift (cleanup_queues ?S ?qs)) (\<lambda>_.
          lift (case result of None \<Rightarrow> tret () | Some e \<Rightarrow> tfail (Err e))))) u = Some (r, s1)"
      then show "one_holder E N s1"
        using one_holder_statements [OF _ _ assms(3)] kept [OF astepsD [OF after]] u assms(4)
        by (rule_tac abind_ends) auto
    qed
  qed
qed

end
