(* ===== verification/Exit_Codes.thy ===== *)
theory Exit_Codes
  imports Runner_Safety Dsl_Main
begin

text \<open>
  What the command of the test DSL (src/dsltest/src/main.rs) reports, as relations over the file system, the
  parser and the runner: how one scenario file ends, with its exit code and its line of output, and
  how a list of files ends. The lemmas show that the loop of \<open>main\<close> computes them.
\<close>

section \<open>The kinds of errors\<close>

lemma parse_line_kind: "parse_line W J i s = Inl (Err e) \<Longrightarrow> e_kind e = Parse"
  by (auto simp: parse_line_def Let_def split: sum.splits prod.splits perr.splits if_splits)

lemma parse_header_kind: "parse_header W i s = Inl (Err e) \<Longrightarrow> e_kind e = Parse"
  by (auto simp: parse_header_def split: sum.splits prod.splits perr.splits if_splits)

lemma scan_lines_kind: "scan_lines W J i name sts raws = Inl (Err e) \<Longrightarrow> e_kind e = Parse"
proof (induction raws arbitrary: i name sts)
  case (Cons raw raws)
  then show ?case
    by (auto simp: Let_def rbind_def parse_line_kind parse_header_kind split: if_splits option.splits sum.splits prod.splits)
qed simp

lemma parse_scenario_kind: "parse_scenario W J src = Inl (Err e) \<Longrightarrow> e_kind e = Parse"
  by (auto simp: parse_scenario_def rbind_def scan_lines_kind split: option.splits sum.splits prod.splits)

section \<open>How a file ends\<close>

text \<open>The line of output for a failure, with the number of its line where the error has one.\<close>

definition located :: "string \<Rightarrow> nat \<Rightarrow> string" where
  "located f n = (if n = 0 then f else f @ '':'' @ show_nat n)"

definition fail_line :: "string \<Rightarrow> string \<Rightarrow> string" where
  "fail_line place msg = ''FAIL '' @ place @ '': '' @ msg"

lemma fail_report_line: "fail_report f e = fail_line (located f (e_line e)) (e_msg e)"
  by (simp add: fail_report_def fail_line_def located_def err_display_def)

text \<open>The arguments: the libraries, the server, the file system, the connection string; the file and the state;
  the exit code, the line of output and the state after it.\<close>

inductive file_ends ::
  "lib \<Rightarrow> serde \<Rightarrow> 'w server \<Rightarrow> fs \<Rightarrow> string \<Rightarrow> string \<Rightarrow> 'w sys \<Rightarrow> nat \<Rightarrow> string \<Rightarrow> 'w sys \<Rightarrow> bool"
  for W J S F dsn where
  unreadable: "fs_read F f = Inl e \<Longrightarrow>
    file_ends W J S F dsn f s 3 (fail_line f (''read '' @ f @ '': '' @ e)) s"
| malformed: "fs_read F f = Inr src \<Longrightarrow> parse_scenario W J src = Inl (Err e) \<Longrightarrow>
    file_ends W J S F dsn f s 2 ((fail_line (located f (e_line e)) (e_msg e))) s"
| unconnected: "fs_read F f = Inr src \<Longrightarrow> parse_scenario W J src = Inr sc \<Longrightarrow>
    run_scenario S sc (s\<lparr>runner_of := runner_new dsn\<rparr>) = Some (Inl (Err e), t) \<Longrightarrow> e_kind e = Conn \<Longrightarrow>
    file_ends W J S F dsn f s 3 ((fail_line (located f (e_line e)) (e_msg e))) t"
| failed: "fs_read F f = Inr src \<Longrightarrow> parse_scenario W J src = Inr sc \<Longrightarrow>
    run_scenario S sc (s\<lparr>runner_of := runner_new dsn\<rparr>) = Some (Inl (Err e), t) \<Longrightarrow> e_kind e \<in> {Assert, Runtime, Db} \<Longrightarrow>
    file_ends W J S F dsn f s 1 ((fail_line (located f (e_line e)) (e_msg e))) t"
| passed: "fs_read F f = Inr src \<Longrightarrow> parse_scenario W J src = Inr sc \<Longrightarrow>
    run_scenario S sc (s\<lparr>runner_of := runner_new dsn\<rparr>) = Some (Inr (), t) \<Longrightarrow>
    file_ends W J S F dsn f s 0 (''PASS '' @ f @ '' ('' @ sc_name sc @ '')'') t"

text \<open>The parser or the runner panics on the file.\<close>

inductive file_panics ::
  "lib \<Rightarrow> serde \<Rightarrow> 'w server \<Rightarrow> fs \<Rightarrow> string \<Rightarrow> string \<Rightarrow> 'w sys \<Rightarrow> 'w sys \<Rightarrow> bool"
  for W J S F dsn where
  parser_panics: "fs_read F f = Inr src \<Longrightarrow> parse_scenario W J src = Inl Panicked \<Longrightarrow>
    file_panics W J S F dsn f s s"
| runner_panics: "fs_read F f = Inr src \<Longrightarrow> parse_scenario W J src = Inr sc \<Longrightarrow>
    run_scenario S sc (s\<lparr>runner_of := runner_new dsn\<rparr>) = Some (Inl Panicked, t) \<Longrightarrow>
    file_panics W J S F dsn f s t"

text \<open>The files one after the other, up to the first on which the process panics: the exit codes and the
  lines of those that ended, and whether one panicked.\<close>

inductive files_end ::
  "lib \<Rightarrow> serde \<Rightarrow> 'w server \<Rightarrow> fs \<Rightarrow> string \<Rightarrow> string list \<Rightarrow> 'w sys \<Rightarrow> nat list \<Rightarrow> string list \<Rightarrow> bool \<Rightarrow> 'w sys \<Rightarrow> bool"
  for W J S F dsn where
  no_files: "files_end W J S F dsn [] s [] [] False s"
| next_file: "file_ends W J S F dsn f s k l t \<Longrightarrow> files_end W J S F dsn fs t ks ls p u \<Longrightarrow>
    files_end W J S F dsn (f # fs) s (k # ks) (l # ls) p u"
| panic_file: "file_panics W J S F dsn f s t \<Longrightarrow> files_end W J S F dsn (f # fs) s [] [] True t"

inductive_simps file_ends_iff: "file_ends W J S F dsn f s k l t"
inductive_simps file_panics_iff: "file_panics W J S F dsn f s t"
inductive_simps files_end_Nil [simp]: "files_end W J S F dsn [] s ks ls p t"
inductive_simps files_end_Cons: "files_end W J S F dsn (f # fs) s ks ls p t"

lemma file_ends_code: "file_ends W J S F dsn f s k l t \<Longrightarrow> k \<le> 3"
  by (cases rule: file_ends.cases) auto

lemma file_ends_line:
  "file_ends W J S F dsn f s k l t \<Longrightarrow> (k = 0 \<longleftrightarrow> prefix ''PASS '' l) \<and> (k \<noteq> 0 \<longleftrightarrow> prefix ''FAIL '' l)"
  by (cases rule: file_ends.cases) (auto simp: fail_line_def)

lemma files_end_lines:
  "files_end W J S F dsn fs s ks ls p t \<Longrightarrow>
   set ks \<subseteq> {..3} \<and> (\<not> p \<longrightarrow> length ks = length fs) \<and>
   list_all2 (\<lambda>k l. (k = 0 \<longleftrightarrow> prefix ''PASS '' l) \<and> (k \<noteq> 0 \<longleftrightarrow> prefix ''FAIL '' l)) ks ls"
proof (induction rule: files_end.induct)
  case (next_file f s k l t fs ks ls p u)
  then show ?case using file_ends_code [OF next_file(1)] file_ends_line [OF next_file(1)] by simp
qed simp_all

section \<open>What main computes\<close>

lemma run_fails_code:
  assumes "fs_read F f = Inr src" "parse_scenario W J src = Inr sc"
    and "run_scenario S sc (s\<lparr>runner_of := runner_new dsn\<rparr>) = Some (Inl (Err e), t)"
  shows "\<exists>k. exit_code e = int k \<and> 0 < k \<and> file_ends W J S F dsn f s k (fail_report f e) t"
proof (cases "e_kind e = Conn")
  case True
  then show ?thesis
    using unconnected [OF assms] by (auto simp: exit_code_def fail_report_line intro!: exI [of _ 3])
next
  case False
  then have k: "e_kind e \<in> {Assert, Runtime, Db}"
    using run_error_kind [OF assms(3)] by (cases "e_kind e") simp_all
  then have "exit_code e = int 1" by (auto simp: exit_code_def)
  then show ?thesis using failed [OF assms k] by (auto simp: fail_report_line intro!: exI [of _ 1])
qed

lemma run_file_ends:
  assumes "run_file W J S F f dsn s = Some (v, t)"
  shows "case v of
      Inr name \<Rightarrow> file_ends W J S F dsn f s 0 (''PASS '' @ f @ '' ('' @ name @ '')'') t
    | Inl (Err e) \<Rightarrow> (\<exists>k. exit_code e = int k \<and> 0 < k \<and> file_ends W J S F dsn f s k (fail_report f e) t)
    | Inl Panicked \<Rightarrow> file_panics W J S F dsn f s t"
proof (cases "fs_read F f")
  case (Inl m)
  then have "file_ends W J S F dsn f s 3 (fail_report f (err_conn (''read '' @ f @ '': '' @ m))) s"
    using unreadable [OF Inl, of W J S dsn s] by (simp add: fail_report_line located_def err_conn_def)
  then show ?thesis using assms Inl by (auto simp: run_file_def exit_code_def err_conn_def)
next
  case (Inr src)
  note read = this
  show ?thesis
  proof (cases "parse_scenario W J src")
    case (Inl x)
    then have v: "v = Inl x" "t = s" using assms read by (simp_all add: run_file_def)
    show ?thesis
    proof (cases x)
      case (Err e)
      then show ?thesis
        using v malformed [OF read Inl [unfolded Err]] parse_scenario_kind [OF Inl [unfolded Err]]
        by (auto simp: exit_code_def fail_report_line intro!: exI [of _ 2])
    qed (use v parser_panics [OF read] Inl in simp)
  next
    case (Inr sc)
    then have r: "abind (run_scenario S sc) (\<lambda>_. lift (tret (sc_name sc))) (s\<lparr>runner_of := runner_new dsn\<rparr>) = Some (v, t)"
      using assms read by (simp add: run_file_def)
    then obtain w u where w: "run_scenario S sc (s\<lparr>runner_of := runner_new dsn\<rparr>) = Some (w, u)"
      by (cases "run_scenario S sc (s\<lparr>runner_of := runner_new dsn\<rparr>)") auto
    show ?thesis
    proof (cases w)
      case (Inl x)
      then have v: "v = Inl x" "t = u" using r w by simp_all
      show ?thesis
      proof (cases x)
        case (Err e)
        then show ?thesis
          using v w Inl run_fails_code [OF read Inr, where S = S and s = s and dsn = dsn] by simp
      qed (use v w Inl runner_panics [OF read Inr] in simp)
    next
      case ok: (Inr x)
      then have "v = Inr (sc_name sc)" "t = u" using r w by simp_all
      then show ?thesis using w ok passed [OF read Inr, where S = S and s = s and dsn = dsn] by simp
    qed
  qed
qed

lemma run_files_end:
  assumes "run_files W J S F dsn files (int worst, n, out) s = Some ((w, n1, out1), panicked, s1)"
  shows "\<exists>ks ls. files_end W J S F dsn files s ks ls panicked s1 \<and> out1 = out @ ls \<and>
    w = int (Max (insert worst (set ks))) \<and> n1 = n + length (filter (\<lambda>k. k = 0) ks)"
  using assms
proof (induction files arbitrary: worst n out s)
  case (Cons f files)
  from Cons.prems obtain v t where v: "run_file W J S F f dsn s = Some (v, t)"
    by (auto split: option.splits)
  have more: ?case
    if "file_ends W J S F dsn f s k l t"
      "run_files W J S F dsn files (int (max worst k), n + (if k = 0 then 1 else 0), out @ [l]) t = Some ((w, n1, out1), panicked, s1)"
    for k l
  proof -
    from Cons.IH [OF that(2)] obtain ks ls where k: "files_end W J S F dsn files t ks ls panicked s1" "out1 = (out @ [l]) @ ls"
      "w = int (Max (insert (max worst k) (set ks)))" "n1 = n + (if k = 0 then 1 else 0) + length (filter (\<lambda>k. k = 0) ks)"
      by blast
    have "Max (insert (max worst k) (set ks)) = Max (insert worst (set (k # ks)))"
      by (cases "ks = []") (simp_all add: max.assoc)
    then show ?thesis
      using next_file [OF that(1) k(1)] k by (intro exI [of _ "k # ks"] exI [of _ "l # ls"]) simp
  qed
  show ?case
  proof (cases v)
    case (Inl x)
    show ?thesis
    proof (cases x)
      case (Err e)
      obtain k where k: "exit_code e = int k" "0 < k" "file_ends W J S F dsn f s k (fail_report f e) t"
        using run_file_ends [OF v] Inl Err by auto
      have "max (int worst) (exit_code e) = int (max worst k)" using k(1) by simp
      then have "run_files W J S F dsn files (int (max worst k), n, out @ [fail_report f e]) t = Some ((w, n1, out1), panicked, s1)"
        using Cons.prems v Inl Err by simp
      then show ?thesis using more [OF k(3)] k(2) by simp
    next
      case Panicked
      then have "file_panics W J S F dsn f s t" "panicked" "s1 = t" "w = int worst" "n1 = n" "out1 = out"
        using run_file_ends [OF v] Cons.prems v Inl by simp_all
      then show ?thesis using panic_file [of W J S F dsn f s t files] by (auto intro!: exI [of _ "[]"])
    qed
  next
    case (Inr name)
    then have "file_ends W J S F dsn f s 0 (''PASS '' @ f @ '' ('' @ name @ '')'') t"
      "run_files W J S F dsn files (int (max worst 0), n + 1, out @ [''PASS '' @ f @ '' ('' @ name @ '')'']) t =
        Some ((w, n1, out1), panicked, s1)"
      using run_file_ends [OF v] Cons.prems v by simp_all
    then show ?thesis using more by simp
  qed
qed (auto intro!: exI [of _ "[]"] no_files)

end
