(* ===== verification/Runner_Props.thy ===== *)
theory Runner_Props
  imports Retries Waiting Claims Exit_Codes
begin

text \<open>
  The properties of the runner and of the command of the test DSL (src/dsltest/src/runner.rs,
  src/dsltest/src/main.rs) on the model of the extension.
\<close>

section \<open>A server to run on\<close>

definition env0 :: model_env where
  "env0 = \<lparr>env_pg = pg0, env_gen = of_nat, env_msg = (\<lambda>e. ''error''), env_json = jsonb_out,
     env_instant_max = 2 ^ 63 * 1000000,
     env_jsonb = (\<lambda>v. if jsonb_plain v then Inr v else Inl (InvalidText ''jsonb''))\<rparr>"

lemma env0_keeps_plain: "keeps_plain env0"
  by (simp add: keeps_plain_def env0_def)

definition world0 :: "db \<Rightarrow> model_world" where
  "world0 d = \<lparr>mw_db = d, mw_now = 5, mw_next = 7, mw_sessions = 0, mw_listens = [], mw_unread = (\<lambda>c. 0)\<rparr>"

definition sys0 :: "'w \<Rightarrow> 'w sys" where
  "sys0 w = \<lparr>runner_of = runner_new [], threads = [], schedule = [], world = w\<rparr>"

section \<open>Termination\<close>

lemma run_file_terminates: "run_file W J (model_server E) F file dsn s \<noteq> None"
proof -
  have "abind (run_scenario (model_server E) sc) (\<lambda>_. lift (tret (sc_name sc))) s \<noteq> None" for sc s
    by (rule model_time.abind_terminates [OF model_time.run_scenario_terminates]) simp
  then show ?thesis
    unfolding run_file_def by (auto split: sum.split simp del: not_None_eq)
qed

lemma run_files_terminates: "run_files W J (model_server E) F dsn files acc s \<noteq> None"
proof (induction files arbitrary: acc s)
  case (Cons f files)
  obtain worst passed out where acc: "acc = (worst, passed, out)" by (cases acc)
  obtain v s1 where "run_file W J (model_server E) F f dsn s = Some (v, s1)"
    using run_file_terminates by fastforce
  then show ?case using Cons acc by (cases v) (auto split: failure.split simp del: not_None_eq)
qed simp

text \<open>
  C23: the command ends. For every file system, every list of arguments, every database and every
  interleaving of the spawned consumers with the foreground, \<open>main\<close> terminates: no \<open>consume .. within\<close>,
  \<open>check .. ack within\<close> or \<open>await\<close> of any scenario waits forever.
\<close>

theorem main_terminates: "main W J (model_server E) F args dsn_var s \<noteq> None"
  using run_files_terminates unfolding main_def Let_def
  by (auto split: sum.split simp del: not_None_eq simp: map_option_is_None)

section \<open>Examples\<close>

definition hurry :: send_options where
  "hurry = send_options_default\<lparr>so_priority := Some 5\<rparr>"

lemma hurry_small: "small_options hurry" "given (so_start_after hurry) 0 = 0"
  by (simp_all add: hurry_def small_options_def send_options_default_def given_def in_int4_def)

definition one_file :: fs where
  "one_file = \<lparr>fs_is_dir = (\<lambda>p. False), fs_read_dir = (\<lambda>p. Inr []), fs_exists = (\<lambda>p. True),
     fs_read = (\<lambda>p. Inr (show_scenario jsonb_out (delivery ''orders'' ''m1'' hi None hurry queue_options_default)))\<rparr>"

definition order_delivery :: scenario where
  "order_delivery = delivery ''orders'' ''m1'' hi None hurry queue_options_default"

definition await_only :: scenario where
  "await_only = \<lparr>sc_name = ''await'', sc_statements = at_lines 2 [Await ''m1'']\<rparr>"

lemma start0 [simp]:
  "threads (sys0 w) = []" "runner_of (sys0 w) = runner_new []" "world (sys0 w) = w"
  "mw_db (world0 d) = d" "db_inv (orders_db [])" "ids (orders_db []) = {}"
  by (simp_all add: sys0_def world0_def orders_db_inv) (simp add: orders_db_def ids_def)

lemma hi_plain: "jsonb_plain hi"
  by (simp add: hi_def no_nul_def)

lemma orders_channel_ok: "utf8_len (channel (env_pg env0) ''orders'') \<in> {1..63}"
  by (simp add: env0_def channel_def utf8_len_def Let_def)

lemma await_only_fails:
  "\<exists>e s1. run_scenario (model_server env0) await_only (sys0 (world0 (orders_db []))) = Some (Inl (Err e), s1)"
proof -
  obtain c s0 where c: "client_for (model_server env0) 1 (sys0 (world0 (orders_db []))) = (Inr c, s0)"
    "quiet c Map.empty (orders_db []) (mw_now (world0 (orders_db []))) s0"
    using first_client [of "sys0 (world0 (orders_db []))" "[]" env0] by auto
  then have "exec_await (model_server env0) 2 ''m1'' s0 = Some (Inl (Err (err_runtime 2 ''await m1: no spawned consume'')), s0)"
    by (simp add: exec_await_def quiet_def)
  then show ?thesis
    using c by (simp add: run_scenario_def await_only_def collect_queues_def exec_def join_all_pending_def quiet_def)
qed

text \<open>
  C6: one job from the scenario file to the exit code. The scenario creates a queue, pushes a
  job with options, consumes it, checks that it is active and holds the data that were
  pushed, acknowledges it, checks that it is acknowledged and completed and that nothing is pending. On any
  database that satisfies the invariant, with data and an output of texts without NUL and integers of 64 bits, any options of the
  job of 32 bits that do not delay its start, any options of the queue, with a channel name that PostgreSQL accepts and ids that are new, the command reads the file, runs it on the
  extension and reports one passed scenario with exit code 0.
\<close>

theorem delivery_passes:
  assumes "winnow_lib W" "ident_ok q" "ident_ok v" "queue_options_ok opts" "json_ok J P data"
    and "case out of None \<Rightarrow> True | Some x \<Rightarrow> json_ok J P x"
    and "small_options sopts" "given (so_start_after sopts) 0 = 0"
    and "\<not> fs_is_dir F f" "fs_exists F f"
    and "fs_read F f = Inr (show_scenario P (delivery q v data out sopts opts))"
    and "threads s = []" "db_inv (mw_db (world s))" "utf8_len (channel (env_pg E) q) \<in> {1..63}"
    and "\<forall>n. env_gen E n \<notin> ids (mw_db (world s))"
    and "keeps_plain E" "jsonb_plain data" "case out of None \<Rightarrow> True | Some x \<Rightarrow> jsonb_plain x"
  shows "\<exists>s1. main W J (model_server E) F [f] dsn_var s =
    Some (\<lparr>out_code = 0, out_lines = [''PASS '' @ f @ '' (delivery)'', [], ''1/1 scenario(s) passed''],
      err_lines = []\<rparr>, s1)"
proof -
  let ?s = "s\<lparr>runner_of := runner_new (case dsn_var of Some d \<Rightarrow> d | None \<Rightarrow> default_dsn)\<rparr>"
  note parse = delivery_parse [OF assms(1-6) small_options_ok [OF assms(7)]]
  have "\<exists>s1. run_scenario (model_server E) (delivery q v data out sopts opts) ?s = Some (Inr (), s1)"
    by (rule delivery_run) (use assms in simp_all)
  then obtain s1 where "run_scenario (model_server E) (delivery q v data out sopts opts) ?s = Some (Inr (), s1)"
    by blast
  from main_one_file [OF assms(9-11) parse this] show ?thesis
    by (auto simp: delivery_def)
qed

theorem delivery_passes_witness:
  "\<exists>s1. main winnow_ref J_hi (model_server env0) one_file [''d.scenario''] None (sys0 (world0 (orders_db []))) =
    Some (\<lparr>out_code = 0, out_lines = [''PASS d.scenario (delivery)'', [], ''1/1 scenario(s) passed''],
      err_lines = []\<rparr>, s1)"
  using delivery_passes [OF ref.winnow_lib_axioms, of "''orders''" "''m1''" queue_options_default J_hi jsonb_out hi None
      hurry one_file "''d.scenario''" "sys0 (world0 (orders_db []))" env0 None] hi_ok ident_examples options_default_ok
    orders_channel_ok env0_keeps_plain hi_plain hurry_small
  by (simp add: one_file_def)

text \<open>
  C10: a job that fails at every attempt. For every limit \<open>n\<close> of retries, the scenario that pushes a job with that
  limit and no retry delay, then consumes and fails it \<open>n\<close> times, finding it in state \<open>retry\<close> each time, and once more,
  finding it in state \<open>failed\<close> and the queue empty, passes: a job has \<open>n + 1\<close> attempts.
\<close>

theorem exhaustion_passes:
  assumes "runner_of s = runner_new dsn" "threads s = []" "db_inv (mw_db (world s))"
    and "utf8_len (channel (env_pg E) q) \<in> {1..63}" "\<forall>n. env_gen E n \<notin> ids (mw_db (world s))"
    and "int n < 2 ^ 31" "keeps_plain E" "jsonb_plain data"
  shows "\<exists>s1. run_scenario (model_server E) (exhaustion q v data n) s = Some (Inr (), s1)"
proof (rule run_quiet [OF assms(1-3) collect_exhaustion])
  fix c d t s2
  assume q: "quiet c Map.empty d t s2" "db_inv d" "q \<notin> names d" and sub: "ids d \<subseteq> ids (mw_db (world s))"
  have "\<forall>n. env_gen E n \<notin> ids d" using assms(5) sub by auto
  then show "\<exists>vars d3 t3 s3. run_statements (model_server E) (sc_statements (exhaustion q v data n)) s2 =
      Some (Inr None, s3) \<and> quiet c vars d3 t3 s3"
    using exhaustion_statements [OF q assms(4) _ assms(6-8)] by blast
qed

theorem exhaustion_passes_witness:
  "\<exists>s1. run_scenario (model_server env0) (exhaustion ''orders'' ''m1'' hi 1000) (sys0 (world0 (orders_db []))) = Some (Inr (), s1)"
  by (rule exhaustion_passes) (use orders_channel_ok env0_keeps_plain hi_plain in simp_all)

section \<open>Waiting\<close>

text \<open>
  C8: a delayed job is found. When the one job of a queue is pending and its start comes before \<open>within\<close> has passed,
  then \<open>consume .. within\<close> does not give up: it claims that job and binds the variable to it, not before the start
  and at most 50 milliseconds, one round of its polling, after the start or its own.
\<close>

theorem delayed_job_consumed:
  assumes "threads s = []" "r_clients (runner_of s) 1 = Some c" "holds_job q (Some j) (mw_db (world s))"
    and "j_state j = Created \<or> j_state j = Retry" "j_start_after j < mw_now (world s) + int ms * 1000"
    and "j_start_after j + int ms * 1000 \<le> env_instant_max E"
  shows "\<exists>s1 now. exec_command (model_server E) line 1 (Consume q v (Some ms)) s = Some (Inr (), s1) \<and>
    r_vars (runner_of s1) v = Some (Var_Job \<lparr>h_queue = q, h_id = uuid_out (j_id j)\<rparr>) \<and>
    j_start_after j \<le> now \<and> now \<le> max (mw_now (world s)) (j_start_after j) + 50000 \<and>
    holds_job q (Some (claim now j)) (mw_db (world s1))"
proof -
  obtain s1 where s1: "waits E c q (Some ms) CW_First s = Some (Inr (Some (handle_of q j)), s1)"
    "found q j (max (mw_now (world s)) (j_start_after j) + poll_interval) s s1"
    using consume_finds [OF assms(1,3-6)] by blast
  let ?s = "s1\<lparr>runner_of := (runner_of s1)\<lparr>r_vars := (r_vars (runner_of s1))(v \<mapsto> Var_Job (handle_of q j))\<rparr>\<rparr>"
  have "exec_command (model_server E) line 1 (Consume q v (Some ms)) s = Some (Inr (), ?s)"
    using assms(2) s1(1) by (simp add: exec_consume_def client_for_def consume_wait_def bind_var_def on_runner_def)
  moreover have "r_vars (runner_of ?s) v = Some (Var_Job (handle_of q j))" by simp
  ultimately show ?thesis
    using s1(2) unfolding found_def poll_interval_def by (intro exI [of _ ?s]) auto
qed

definition delayed_job :: job where
  "delayed_job = (job_at 3 0 Created 0 None None)\<lparr>j_start_after := 100000\<rparr>"

definition delayed_sys :: "model_world sys" where
  "delayed_sys = (sys0 (world0 (orders_db [delayed_job])))\<lparr>runner_of := (runner_new [])\<lparr>r_clients := [1 \<mapsto> 0]\<rparr>\<rparr>"

lemma delayed_ready:
  "threads delayed_sys = []" "r_clients (runner_of delayed_sys) 1 = Some 0" "mw_now (world delayed_sys) = 5"
  "holds_job ''orders'' (Some delayed_job) (mw_db (world delayed_sys))"
  "j_state delayed_job = Created" "j_start_after delayed_job = 100000"
proof -
  have "job_wf delayed_job" by (simp add: delayed_job_def job_at_def job_wf_def in_int4_def)
  then show "holds_job ''orders'' (Some delayed_job) (mw_db (world delayed_sys))"
    by (simp add: delayed_sys_def holds_job_def orders_db_inv) (simp add: delayed_job_def job_at_def orders_db_def orders_def)
qed (simp_all add: delayed_sys_def sys0_def world0_def delayed_job_def job_at_def)

theorem delayed_job_consumed_witness:
  "\<exists>s1 now. exec_command (model_server env0) 4 1 (Consume ''orders'' ''m1'' (Some 500)) delayed_sys = Some (Inr (), s1) \<and>
    100000 \<le> now \<and> now \<le> 150000 \<and> (\<exists>k \<in> set (jobs (mw_db (world s1))). j_state k = Active \<and> j_started_on k = Some now)"
proof -
  have "env_instant_max env0 = 2 ^ 63 * 1000000" by (simp add: env0_def)
  then obtain s1 now where "exec_command (model_server env0) 4 1 (Consume ''orders'' ''m1'' (Some 500)) delayed_sys = Some (Inr (), s1)"
    "100000 \<le> now" "now \<le> 150000" "holds_job ''orders'' (Some (claim now delayed_job)) (mw_db (world s1))"
    using delayed_job_consumed [of delayed_sys 0 "''orders''" delayed_job 500 env0 4 "''m1''"] delayed_ready
    by (auto simp del: exec_command.simps)
  then show ?thesis
    by (intro exI [of _ s1] exI [of _ now]) (auto simp: holds_job_def claim_def simp del: exec_command.simps)
qed

text \<open>
  C9: a notification ends a wait. When a spawned consumer waits on the channel of an empty queue and the
  foreground pushes a job, then \<open>await\<close> finds the consumer with that job, whatever the schedule from the push on,
  and the clock has moved on by the two statements only, not by the timeout of the wait: the job
  is claimed right after the push, at \<open>now + 1\<close>.
\<close>

theorem notify_wakes:
  assumes "threads s = [th]" "th_queue th = q" "th_pc th = T_Consume c (CW_Wait dl t)" "schedule s = [] # later"
    and "r_clients (runner_of s) 1 = Some c1" "r_pending (runner_of s) = [(v, 0)]" "holds_job q None (mw_db (world s))"
    and "(c, channel (env_pg E) q, k) \<in> set (mw_listens (world s))" "k \<le> length (notifies (mw_db (world s)))"
    and "mw_unread (world s) c \<le> length (notifies (mw_db (world s)))"
    and "utf8_len (channel (env_pg E) q) \<in> {1..63}" "env_gen E (mw_next (world s)) \<notin> ids (mw_db (world s))"
    and "small_options opts" "given (so_start_after opts) 0 = 0" "keeps_plain E" "jsonb_plain data"
  shows "\<exists>s1 s2 j. exec_command (model_server E) 1 1 (Push q data opts) s = Some (Inr (), s1) \<and>
    exec_command (model_server E) 2 1 (Await v) s1 = Some (Inr (), s2) \<and>
    r_vars (runner_of s2) v = Some (Var_Job \<lparr>h_queue = q, h_id = uuid_out (j_id j)\<rparr>) \<and> j_data j = Some data \<and>
    mw_now (world s2) = mw_now (world s) + 2 \<and> holds_job q (Some (claim (mw_now (world s) + 1) j)) (mw_db (world s2))"
proof -
  obtain s1 j where 1: "exec_command (model_server E) 1 1 (Push q data opts) s = Some (Inr (), s1)"
    "woken c q j (mw_now (world s) + 1) s1" "runner_of s1 = runner_of s"
    "pending j" "j_start_after j = mw_now (world s)" "j_data j = Some data"
    by (rule push_wakes [OF assms(1-5,7-16)])
  let ?s = "s1\<lparr>runner_of := (runner_of s1)\<lparr>r_pending := []\<rparr>\<rparr>"
  have "woken c q j (mw_now (world s) + 1) ?s" using 1(2) by (simp add: woken_def)
  then obtain s2 where 2: "join (model_server E) 0 ?s = Some (Inr (Some (Inr (Some (handle_of q j)))), s2)"
    "mw_now (world s2) = mw_now (world s) + 1 + 1" "holds_job q (Some (claim (mw_now (world s) + 1) j)) (mw_db (world s2))"
    using join_woken [of c q j "mw_now (world s) + 1" ?s E] 1(4,5) by auto
  let ?s2 = "s2\<lparr>runner_of := (runner_of s2)\<lparr>r_vars := (r_vars (runner_of s2))(v \<mapsto> Var_Job (handle_of q j))\<rparr>\<rparr>"
  have "exec_command (model_server E) 2 1 (Await v) s1 = Some (Inr (), ?s2)"
    using 2(1) 1(3) assms(6) by (simp add: exec_await_def on_runner_def bind_var_def)
  then show ?thesis
    using 1(1,6) 2(2,3) by (intro exI [of _ s1] exI [of _ ?s2] exI [of _ j]) simp
qed

definition waiting_sys :: "model_world sys" where
  "waiting_sys = \<lparr>runner_of = (runner_new [])\<lparr>r_clients := [1 \<mapsto> 0], r_pending := [(''m1'', 0)]\<rparr>,
     threads = [\<lparr>th_dsn = [], th_queue = ''orders'', th_within = Some 9000, th_pc = T_Consume 1 (CW_Wait 9000000 50000)\<rparr>],
     schedule = [[], [0, 0], [0]],
     world = (world0 (orders_db []))\<lparr>mw_listens := [(1, channel pg0 ''orders'', 0)]\<rparr>\<rparr>"

lemma waiting_ready:
  "threads waiting_sys = [\<lparr>th_dsn = [], th_queue = ''orders'', th_within = Some 9000, th_pc = T_Consume 1 (CW_Wait 9000000 50000)\<rparr>]"
  "schedule waiting_sys = [] # [[0, 0], [0]]" "r_clients (runner_of waiting_sys) 1 = Some 0"
  "r_pending (runner_of waiting_sys) = [(''m1'', 0)]" "mw_now (world waiting_sys) = 5"
  "mw_db (world waiting_sys) = orders_db []" "mw_listens (world waiting_sys) = [(1, channel (env_pg env0) ''orders'', 0)]"
  "mw_unread (world waiting_sys) c = 0" "holds_job ''orders'' None (orders_db [])"
proof -
  show "holds_job ''orders'' None (orders_db [])"
    using start0(5) by (simp add: holds_job_def) (simp add: orders_db_def orders_def)
qed (simp_all add: waiting_sys_def world0_def env0_def)

theorem notify_wakes_witness:
  "\<exists>s1 s2 j. exec_command (model_server env0) 1 1 (Push ''orders'' hi hurry) waiting_sys = Some (Inr (), s1) \<and>
    exec_command (model_server env0) 2 1 (Await ''m1'') s1 = Some (Inr (), s2) \<and>
    mw_now (world s2) = 7 \<and> holds_job ''orders'' (Some (claim 6 j)) (mw_db (world s2))"
proof -
  have "\<exists>s1 s2 j. exec_command (model_server env0) 1 1 (Push ''orders'' hi hurry) waiting_sys = Some (Inr (), s1) \<and>
    exec_command (model_server env0) 2 1 (Await ''m1'') s1 = Some (Inr (), s2) \<and>
    r_vars (runner_of s2) ''m1'' = Some (Var_Job \<lparr>h_queue = ''orders'', h_id = uuid_out (j_id j)\<rparr>) \<and> j_data j = Some hi \<and>
    mw_now (world s2) = mw_now (world waiting_sys) + 2 \<and>
    holds_job ''orders'' (Some (claim (mw_now (world waiting_sys) + 1) j)) (mw_db (world s2))"
    by (rule notify_wakes [OF waiting_ready(1) _ _ waiting_ready(2,3,4), where k = 0])
      (use waiting_ready(6-9) orders_channel_ok env0_keeps_plain hi_plain hurry_small in simp_all)
  then show ?thesis unfolding waiting_ready(5) by (auto simp del: exec_command.simps)
qed

section \<open>Consumers that compete\<close>

text \<open>
  C7: no job for two. A scenario may push any number of jobs and consume from any number of clients and spawned
  consumers, wait, acknowledge, delete queues and create them again; as long as it has no \<open>fail\<close> and no \<open>maintain\<close>,
  which put a claimed job back, the run ends, and no two variables hold the same job then, in whatever order the
  consumers took their steps and whatever failed. The ids that the pushes draw have to be different and new.
\<close>

theorem no_job_twice:
  assumes "runner_of s = runner_new dsn" "db_inv (mw_db (world s))"
    and "new = {mw_next (world s)..<mw_next (world s) + all_pushes (sc_statements sc)}"
    and "inj_on (env_gen E) new" "\<forall>n \<in> new. env_gen E n \<notin> ids (mw_db (world s))"
    and "\<forall>st \<in> set (sc_statements sc). no_requeue_command (st_command st)"
  shows "\<exists>r s1. run_scenario (model_server E) sc s = Some (r, s1) \<and>
    (\<forall>v v1 j j1. r_vars (runner_of s1) v = Some (Var_Job j) \<and> r_vars (runner_of s1) v1 = Some (Var_Job j1) \<and>
       h_id j = h_id j1 \<longrightarrow> v = v1)"
proof -
  obtain r s1 where run: "run_scenario (model_server E) sc s = Some (r, s1)"
    using model_time.run_scenario_terminates [of E sc s] by (cases "run_scenario (model_server E) sc s") auto
  let ?N = "mw_next (world s) + all_pushes (sc_statements sc)"
  have "world_ok E ?N (world s)" using assms(2-5) by (auto simp: world_ok_def new_ids_def)
  then have "one_holder E ?N s1"
    using one_holder_start assms(1,6) one_holder_run [OF run] by blast
  then have "v = v1" if "r_vars (runner_of s1) v = Some (Var_Job j)" "r_vars (runner_of s1) v1 = Some (Var_Job j1)"
    "h_id j = h_id j1" for v v1 j j1
    using that one_holder_vars [of E ?N s1 v j v1 j1] by simp
  with run show ?thesis by blast
qed

definition race :: scenario where
  "race = \<lparr>sc_name = ''race'', sc_statements = at_lines 2
     [CreateQueue ''orders'' queue_options_default, SpawnConsume ''orders'' ''m1'' (Some 500),
      SpawnConsume ''orders'' ''m2'' (Some 500), Push ''orders'' hi hurry, Push ''orders'' hi hurry,
      Await ''m1'', Await ''m2'', AssertExactlyOneClaimed [''m1'', ''m2'']]\<rparr>"

theorem no_job_twice_witness:
  "\<exists>r s1. run_scenario (model_server env0) race ((sys0 (world0 (orders_db [])))\<lparr>schedule := [[], [0, 1], [1, 0, 1], [0]]\<rparr>) =
      Some (r, s1) \<and>
    \<not> (\<exists>j. r_vars (runner_of s1) ''m1'' = Some (Var_Job j) \<and> r_vars (runner_of s1) ''m2'' = Some (Var_Job j))"
proof -
  let ?s = "(sys0 (world0 (orders_db [])))\<lparr>schedule := [[], [0, 1], [1, 0, 1], [0]]\<rparr>"
  have race: "\<forall>st \<in> set (sc_statements race). no_requeue_command (st_command st)" "all_pushes (sc_statements race) = 2"
    by (simp_all add: race_def)
  have new: "{7, 8} = {mw_next (world ?s)..<mw_next (world ?s) + all_pushes (sc_statements race)}" "inj_on (env_gen env0) {7, 8}"
    by (auto simp: world0_def race(2) env0_def)
  obtain r s1 where r: "run_scenario (model_server env0) race ?s = Some (r, s1)"
    "\<And>v v1 j j1. r_vars (runner_of s1) v = Some (Var_Job j) \<Longrightarrow> r_vars (runner_of s1) v1 = Some (Var_Job j1) \<Longrightarrow>
       h_id j = h_id j1 \<Longrightarrow> v = v1"
    using no_job_twice [of ?s "[]" "{7, 8}" race env0] race(1) new by auto
  have "\<not> (\<exists>j. r_vars (runner_of s1) ''m1'' = Some (Var_Job j) \<and> r_vars (runner_of s1) ''m2'' = Some (Var_Job j))"
    using r(2) [of "''m1''" _ "''m2''"] by auto
  with r(1) show ?thesis by blast
qed

text \<open>
  C11: a scenario leaves nothing behind. However a run ends, unless the process panics, no queue that
  the scenario names, and no job of such a queue, is left in the database: the spawned consumers
  that are still waiting are joined first, and a consumer whose variable was reused can no longer
  bring a queue back.
\<close>

theorem run_leaves_no_queue:
  assumes "run_scenario (model_server E) sc s = Some (r, s1)" "r \<noteq> Inl Panicked"
  shows "\<forall>q \<in> set (collect_queues sc). q \<notin> q_name ` set (queues (mw_db (world s1))) \<and>
    q \<notin> j_name ` set (jobs (mw_db (world s1)))"
proof -
  obtain c s0 where "client_for (model_server E) 1 s = (Inr c, s0)"
    using model_connects by blast
  from model_queues.run_cleans [OF assms this] show ?thesis
    by (simp add: queue_absent_def names_def)
qed

theorem run_leaves_no_queue_witness:
  "\<exists>s1. run_scenario (model_server env0) order_delivery (sys0 (world0 (orders_db []))) = Some (Inr (), s1) \<and>
    ''orders'' \<notin> q_name ` set (queues (mw_db (world s1)))"
proof -
  have "\<exists>s1. run_scenario (model_server env0) order_delivery (sys0 (world0 (orders_db []))) = Some (Inr (), s1)"
    unfolding order_delivery_def
    by (rule delivery_run) (use orders_channel_ok env0_keeps_plain options_default_ok hi_plain hurry_small in simp_all)
  then obtain s1 where r: "run_scenario (model_server env0) order_delivery (sys0 (world0 (orders_db []))) = Some (Inr (), s1)"
    by blast
  then show ?thesis
    using run_leaves_no_queue [OF r] by (simp add: order_delivery_def collect_delivery)
qed

section \<open>Errors\<close>

text \<open>
  C31: where a scenario failed. On every server, whatever it answers, a run that does not panic ends in one of three
  ways. Its first connection fails: then the error is a connection error, without a line, of exit code 3, and nothing else
  was done. Or all its statements succeed, in order, and it passes. Or one of its statements fails after all
  those before it succeeded: then the run returns the kind and the message of that error with the line of that
  statement, none of the statements after it is executed, and the error is never of the kind of a parse error, so that its exit code
  is 1 or 3. In the last two cases the consumers are joined and the queues are deleted once more before the run returns.
\<close>

theorem run_error_line:
  assumes "run_scenario S sc s = Some (r, s1)" "r \<noteq> Inl Panicked"
  shows "case client_for S 1 s of
      (Inl f, s0) \<Rightarrow> r = Inl f \<and> s1 = s0 \<and> (\<exists>e. f = Err e \<and> e_line e = 0 \<and> e_kind e = Conn \<and> exit_code e = 3)
    | (Inr c, s0) \<Rightarrow> \<exists>u s2 s3 v s4 w. cleanup_queues S (collect_queues sc) s0 = (u, s2) \<and>
        (r = Inr () \<and> passes S (sc_statements sc) s2 s3 \<or>
         (\<exists>e. r = Inl (Err e) \<and> exit_code e \<in> {1, 3} \<and>
            (\<exists>st \<in> set (sc_statements sc). fails_at S (sc_statements sc) st e s2 s3 \<and> e_line e = st_line st))) \<and>
        join_all_pending S s3 = Some (v, s4) \<and> cleanup_queues S (collect_queues sc) s4 = (w, s1)"
proof -
  obtain x s0 where c: "client_for S 1 s = (x, s0)" by fastforce
  show ?thesis
  proof (cases x)
    case (Inl f)
    from client_error [OF c [unfolded Inl]] obtain e where "f = Err e" "e_line e = 0" "e_kind e = Conn" by blast
    moreover have "r = Inl f \<and> s1 = s0"
      using assms(1) run_scenario_unconnected [OF c [unfolded Inl], of sc] by simp
    ultimately show ?thesis using c Inl by (simp add: exit_code_def)
  next
    case (Inr cl)
    from run_scenario_stages [OF assms c [unfolded Inr]] obtain u s2 res s3 v s4 w where
      stages: "cleanup_queues S (collect_queues sc) s0 = (u, s2)" "run_statements S (sc_statements sc) s2 = Some (Inr res, s3)"
        "join_all_pending S s3 = Some (v, s4)" "cleanup_queues S (collect_queues sc) s4 = (w, s1)"
      and r: "r = (case res of None \<Rightarrow> Inr () | Some e \<Rightarrow> Inl (Err e))" .
    have code: "exit_code e \<in> {1, 3}" if "e_kind e \<noteq> Parse" for e
      using that by (cases "e_kind e") (simp_all add: exit_code_def)
    have "r = Inr () \<and> passes S (sc_statements sc) s2 s3 \<or>
         (\<exists>e. r = Inl (Err e) \<and> exit_code e \<in> {1, 3} \<and>
            (\<exists>st \<in> set (sc_statements sc). fails_at S (sc_statements sc) st e s2 s3 \<and> e_line e = st_line st))"
      using statements_outcome [OF stages(2)] r code
      by (cases res) (auto intro: bexI dest: fails_at_member)
    then show ?thesis
      unfolding c Inr prod.case sum.case
      by (intro exI [of _ u] exI [of _ s2] exI [of _ s3] exI [of _ v] exI [of _ s4] exI [of _ w] conjI stages)
  qed
qed

definition refusing :: "model_world server" where
  "refusing = (model_server env0)\<lparr>srv_connect := \<lambda>dsn w. (Inl ''refused'', w)\<rparr>"

theorem run_error_line_witness:
  "(\<exists>e s1. run_scenario (model_server env0) await_only (sys0 (world0 (orders_db []))) = Some (Inl (Err e), s1) \<and>
      e_line e = 2 \<and> exit_code e \<in> {1, 3}) \<and>
   (\<exists>e s1. run_scenario refusing await_only (sys0 (world0 (orders_db []))) = Some (Inl (Err e), s1) \<and>
      e_line e = 0 \<and> exit_code e = 3)"
proof
  let ?s = "sys0 (world0 (orders_db []))"
  obtain e s1 where r: "run_scenario (model_server env0) await_only ?s = Some (Inl (Err e), s1)"
    using await_only_fails by blast
  obtain c s0 where c: "client_for (model_server env0) 1 ?s = (Inr c, s0)"
    using model_connects by blast
  show "\<exists>e s1. run_scenario (model_server env0) await_only ?s = Some (Inl (Err e), s1) \<and> e_line e = 2 \<and> exit_code e \<in> {1, 3}"
    using run_error_line [OF r] r c by (auto simp: await_only_def)
  obtain s2 where d: "client_for refusing 1 ?s = (Inl (Err (err_conn ''connect: refused'')), s2)"
    by (simp add: client_for_def runner_new_def connect_def tbind_def call_def open_session_def refusing_def Let_def)
  note u = run_scenario_unconnected [OF d, of await_only]
  show "\<exists>e s1. run_scenario refusing await_only ?s = Some (Inl (Err e), s1) \<and> e_line e = 0 \<and> exit_code e = 3"
    using run_error_line [OF u] u d by auto
qed

section \<open>The exit code\<close>

text \<open>
  C15: the exit code and the report. With bad arguments or no file, the command says so on the error output and exits with 3.
  Otherwise it runs the files in order, and each of them ends with a code of its own: 3 when the file cannot be read or
  the connection fails, 2 when the parser rejects it, 1 when an assertion, a command or the database fails, 0 when the run
  passes. The exit code is the largest of them, so it is 0 exactly when every file passes; the output is the line of each file in order, a \<open>PASS\<close> line exactly
  for the code 0 and a \<open>FAIL\<close> line exactly for the others, and the count of the passed. When the parser or the runner
  panics on a file, no file after it is run and the exit code is 101.
\<close>

theorem main_exit_code:
  assumes "main W J S F args dsn_var s = Some (r, s1)"
  shows "case collect_files F args of
      Inl e \<Rightarrow> s1 = s \<and> r = \<lparr>out_code = 3, out_lines = [], err_lines = [''error: '' @ e]\<rparr>
    | Inr files \<Rightarrow>
        if files = [] then s1 = s \<and> r = \<lparr>out_code = 3, out_lines = [], err_lines = [''no .scenario files found'']\<rparr>
        else \<exists>ks ls panicked.
          files_end W J S F (case dsn_var of Some d \<Rightarrow> d | None \<Rightarrow> default_dsn) files s ks ls panicked s1 \<and>
          list_all2 (\<lambda>k l. (k = 0 \<longleftrightarrow> prefix ''PASS '' l) \<and> (k \<noteq> 0 \<longleftrightarrow> prefix ''FAIL '' l)) ks ls \<and>
          err_lines r = [] \<and>
          (if panicked then out_code r = 101 \<and> out_lines r = ls
           else length ks = length files \<and> out_code r = Max (set ks) \<and> (out_code r = 0 \<longleftrightarrow> (\<forall>k \<in> set ks. k = 0)) \<and>
             out_lines r = ls @ [[], show_nat (length (filter (\<lambda>k. k = 0) ks)) @ ''/'' @ show_nat (length files) @
               '' scenario(s) passed''])"
proof (cases "collect_files F args")
  case (Inr files)
  let ?dsn = "case dsn_var of Some d \<Rightarrow> d | None \<Rightarrow> default_dsn"
  show ?thesis
  proof (cases "files = []")
    case False
    then obtain w p out panicked where run: "run_files W J S F ?dsn files (int 0, 0, []) s = Some ((w, p, out), panicked, s1)"
      and r: "r = (if panicked then \<lparr>out_code = 101, out_lines = out, err_lines = []\<rparr>
        else \<lparr>out_code = nat (w mod 256),
          out_lines = out @ [[], show_nat p @ ''/'' @ show_nat (length files) @ '' scenario(s) passed''], err_lines = []\<rparr>)"
      using assms Inr by (auto simp: main_def Let_def split: prod.splits)
    from run_files_end [OF run] obtain ks where ends: "files_end W J S F ?dsn files s ks out panicked s1"
      and w: "w = int (Max (insert 0 (set ks)))" "p = length (filter (\<lambda>k. k = 0) ks)"
      by auto
    note lines = files_end_lines [OF ends]
    have max: "nat (w mod 256) = Max (set ks)" if "ks \<noteq> []"
    proof -
      have "Max (set ks) \<in> set ks" using that by simp
      then have "Max (set ks) \<le> 3" using lines by blast
      moreover have "w = int (Max (set ks))" using w(1) that by simp
      ultimately show ?thesis by simp
    qed
    have zero: "Max (set ks) = 0 \<longleftrightarrow> (\<forall>k \<in> set ks. k = 0)" if "ks \<noteq> []"
      using that by (metis List.finite_set Max_ge Max_in le_zero_eq set_empty)
    have "\<not> panicked \<Longrightarrow> ks \<noteq> []" using lines False by auto
    then show ?thesis
      unfolding Inr sum.case if_not_P [OF False] using ends lines r w(2) max zero
      by (intro exI [of _ ks] exI [of _ out] exI [of _ panicked]) (cases panicked; simp)
  qed (use assms Inr in \<open>simp add: main_def Let_def\<close>)
qed (use assms in \<open>simp add: main_def Let_def\<close>)

definition two_files :: fs where
  "two_files = one_file\<lparr>fs_read := \<lambda>p. if p = ''a.scenario'' then Inr [] else Inl ''denied''\<rparr>"

theorem main_exit_code_witness:
  "\<exists>r s1 ls. main winnow_ref J_hi (model_server env0) two_files [''a.scenario'', ''b.scenario''] None
      (sys0 (world0 (orders_db []))) = Some (r, s1) \<and>
    files_end winnow_ref J_hi (model_server env0) two_files default_dsn [''a.scenario'', ''b.scenario'']
      (sys0 (world0 (orders_db []))) [2, 3] ls False s1 \<and>
    out_code r = 3 \<and> out_lines r = ls @ [[], ''0/2 scenario(s) passed'']"
proof -
  let ?s = "sys0 (world0 (orders_db []))"
  have c: "collect_files two_files [''a.scenario'', ''b.scenario''] = Inr [''a.scenario'', ''b.scenario'']"
    by code_simp
  have p: "parse_scenario winnow_ref J_hi [] = Inl (Err (err_parse 0 ''empty scenario file (missing `scenario` header)''))"
    by (simp add: parse_scenario_def lines_of.simps [of "[]"])
  have ab: "run_file winnow_ref J_hi (model_server env0) two_files ''a.scenario'' dsn ?s =
      Some (Inl (Err (err_parse 0 ''empty scenario file (missing `scenario` header)'')), ?s)"
    "run_file winnow_ref J_hi (model_server env0) two_files ''b.scenario'' dsn ?s =
      Some (Inl (Err (err_conn ''read b.scenario: denied'')), ?s)" for dsn
    using p by (simp_all add: run_file_def two_files_def)
  obtain r s1 where r: "main winnow_ref J_hi (model_server env0) two_files [''a.scenario'', ''b.scenario''] None ?s = Some (r, s1)"
    by (simp add: main_def c ab)
  obtain ks ls panicked where e: "files_end winnow_ref J_hi (model_server env0) two_files default_dsn
        [''a.scenario'', ''b.scenario''] ?s ks ls panicked s1"
      "\<not> panicked \<Longrightarrow> out_code r = Max (set ks)"
      "\<not> panicked \<Longrightarrow> out_lines r = ls @ [[], show_nat (length (filter (\<lambda>k. k = 0) ks)) @ ''/'' @
         show_nat (length [''a.scenario'', ''b.scenario'']) @ '' scenario(s) passed'']"
    using main_exit_code [OF r, unfolded c sum.case option.case if_not_P [OF list.distinct(2)]]
    by (elim exE conjE, intro that) (assumption, simp_all only: if_False)
  have ks: "ks = [2, 3]" "panicked = False"
    using e(1) by (auto simp: files_end_Cons file_ends_iff file_panics_iff two_files_def p)
  have "show_nat 0 = ''0''" "show_nat (Suc (Suc 0)) = ''2''" by code_simp+
  then show ?thesis using r e unfolding ks by auto
qed

end
