(* ===== verification/Rust_Test.thy ===== *)
theory Rust_Test
  imports Prelude
begin

text \<open>
  How a Rust test fails, for the unit tests of the two crates (\<open>mod tests\<close> of src/src/lib.rs and
  of src/dsltest/src/parser.rs): an error reaches an \<open>unwrap\<close>, an \<open>Option\<close> is \<open>None\<close>, an \<open>unwrap_err\<close> finds a value,
  an index is out of range, or an assertion does not hold. A test passes when it returns.
\<close>

datatype 'e test_failure = Raised 'e | Unwrap_None | Unwrap_Err | Out_Of_Range | Assertion string

definition unwrap_ok :: "'e + 'a \<Rightarrow> 'e test_failure + 'a" where
  "unwrap_ok r = (case r of Inl e \<Rightarrow> Inl (Raised e) | Inr a \<Rightarrow> Inr a)"

definition unwrap_some :: "'a option \<Rightarrow> 'e test_failure + 'a" where
  "unwrap_some x = (case x of None \<Rightarrow> Inl Unwrap_None | Some a \<Rightarrow> Inr a)"

definition index_at :: "'a list \<Rightarrow> nat \<Rightarrow> 'e test_failure + 'a" where
  "index_at xs n = (if n < length xs then Inr (xs ! n) else Inl Out_Of_Range)"

definition assert_true :: "bool \<Rightarrow> string \<Rightarrow> 'e test_failure + unit" where
  "assert_true b msg = (if b then Inr () else Inl (Assertion msg))"

definition contains :: "string \<Rightarrow> string \<Rightarrow> bool" where
  "contains s t = list_ex (prefix t) (suffixes s)"

lemma unwrap_simps [simp]:
  "unwrap_ok (Inl e) = Inl (Raised e)" "unwrap_ok (Inr a) = Inr a"
  "unwrap_some (Some a) = Inr a" "unwrap_some None = Inl Unwrap_None"
  "assert_true True msg = Inr ()"
  by (simp_all add: unwrap_ok_def unwrap_some_def assert_true_def)

lemma index_at_simps [simp]:
  "index_at (x # xs) 0 = Inr x" "index_at (x # xs) (Suc n) = index_at xs n"
  "index_at (x # xs) 1 = index_at xs 0" "index_at (x # xs) (numeral k) = index_at xs (pred_numeral k)"
  by (simp_all add: index_at_def numeral_eq_Suc)

end
