(* ===== verification/Pg_Tests.thy ===== *)
theory Pg_Tests
  imports Operations Control Rust_Test
begin

text \<open>
  The tests of the extension, \<open>mod tests\<close> of src/src/lib.rs, one definition for each \<open>#[pg_test]\<close>:
  its SPI calls in order, and the assertion or \<open>unwrap\<close> at which it panics. A test is one
  transaction, so that all its calls see the same \<open>now()\<close>; the ids that \<open>send\<close> draws are arguments. The functions
  of the extension return no null, so that \<open>Spi::get_one\<close> on them is \<open>Some\<close>. A jsonb object lists its keys in the
  order jsonb keeps them.
\<close>

text \<open>\<open>Spi::get_one\<close> reads the first row.\<close>

definition first_row :: "('a \<Rightarrow> 'b) \<Rightarrow> 'a list \<Rightarrow> 'b option" where
  "first_row f rows = (case rows of [] \<Rightarrow> None | r # _ \<Rightarrow> Some (f r))"

text \<open>\<open>SELECT state::text FROM boss.job WHERE id = ..\<close>\<close>

definition state_of_id :: "uuid \<Rightarrow> db \<Rightarrow> string option" where
  "state_of_id i d = first_row (state_text \<circ> j_state) (filter (\<lambda>j. j_id j = i) (jobs d))"

definition no_options :: json where
  "no_options = JObj []"

definition test_send_fetch_complete :: "pg \<Rightarrow> int \<Rightarrow> uuid \<Rightarrow> db \<Rightarrow> pg_error test_failure + unit" where
  "test_send_fetch_complete P now new_id d =
     (case create_queue now ''welcome'' no_options d of (_, d1) \<Rightarrow>
      rbind (unwrap_ok (send P now new_id ''welcome'' (Some (JObj [(''to'', JStr ''a@b.c'')])) (Some no_options) d1)) (\<lambda>(id, d2).
      rbind (unwrap_ok (fetch [] now ''welcome'' (Some 1) d2)) (\<lambda>(js, d3).
      rbind (assert_true (first_row (state_text \<circ> j_state) js = Some ''active'') ''state'') (\<lambda>_.
      rbind (unwrap_ok (fetch [] now ''welcome'' (Some 1) d3)) (\<lambda>(again, d4).
      rbind (assert_true (length again = 0) ''active job must not be re-fetched'') (\<lambda>_.
      case complete now ''welcome'' id (Some (JObj [(''ok'', JBool True)])) d4 of (ok, d5) \<Rightarrow>
      rbind (assert_true ok ''done'') (\<lambda>_.
      assert_true (sql_count (\<lambda>j. j_state j = Completed) (jobs d5) = 1) ''completed'')))))))"

definition test_fail_retries_then_fails :: "pg \<Rightarrow> int \<Rightarrow> uuid \<Rightarrow> db \<Rightarrow> pg_error test_failure + unit" where
  "test_fail_retries_then_fails P now new_id d =
     (case create_queue now ''flaky'' (JObj [(''retryDelay'', JNum 0 0), (''retryLimit'', JNum 1 0)]) d of (_, d1) \<Rightarrow>
      rbind (unwrap_ok (send P now new_id ''flaky'' (Some (JObj [])) (Some no_options) d1)) (\<lambda>(_, d2).
      rbind (unwrap_ok (fetch [] now ''flaky'' (Some 1) d2)) (\<lambda>(js, d3).
      rbind (unwrap_some (first_row j_id js)) (\<lambda>id1.
      rbind (unwrap_ok (fail P now ''flaky'' id1 (Some (JObj [(''err'', JStr ''boom'')])) d3)) (\<lambda>(_, d4).
      rbind (assert_true (state_of_id id1 d4 = Some ''retry'') ''state'') (\<lambda>_.
      rbind (unwrap_ok (fetch [] now ''flaky'' (Some 1) d4)) (\<lambda>(js, d5).
      rbind (unwrap_some (first_row j_id js)) (\<lambda>id2.
      rbind (unwrap_ok (fail P now ''flaky'' id2 (Some (JObj [])) d5)) (\<lambda>(_, d6).
      assert_true (state_of_id id2 d6 = Some ''failed'') ''state'')))))))))"

definition test_priority_ordering :: "pg \<Rightarrow> int \<Rightarrow> uuid \<Rightarrow> uuid \<Rightarrow> db \<Rightarrow> pg_error test_failure + unit" where
  "test_priority_ordering P now id1 id2 d =
     (case create_queue now ''p'' no_options d of (_, d1) \<Rightarrow>
      rbind (unwrap_ok (send P now id1 ''p'' (Some (JObj [])) (Some (JObj [(''priority'', JNum 1 0)])) d1)) (\<lambda>(_, d2).
      rbind (unwrap_ok (send P now id2 ''p'' (Some (JObj [])) (Some (JObj [(''priority'', JNum 10 0)])) d2)) (\<lambda>(hi, d3).
      rbind (unwrap_ok (fetch [] now ''p'' (Some 1) d3)) (\<lambda>(js, _).
      rbind (unwrap_some (first_row j_id js)) (\<lambda>first.
      assert_true (first = hi) ''first'')))))"

definition test_send_to_missing_queue_errors :: "pg \<Rightarrow> int \<Rightarrow> uuid \<Rightarrow> db \<Rightarrow> pg_error test_failure + unit" where
  "test_send_to_missing_queue_errors P now new_id d =
     rbind (unwrap_ok (send P now new_id ''nope'' (Some (JObj [])) (Some no_options) d)) (\<lambda>_. Inr ())"

text \<open>
  \<open>#[should_panic(expected = ..)]\<close>: the test has to panic with a message that contains the text. The one message of
  the extension's own is that of the \<open>RAISE\<close> in \<open>boss.send\<close>; the others are PostgreSQL's and not modelled.
\<close>

fun raised_message :: "pg_error \<Rightarrow> string option" where
  "raised_message (UndefinedObject queue_name) =
     Some (''queue '' @ [CHR 0x22] @ queue_name @ [CHR 0x22] @ '' does not exist'')"
| "raised_message _ = None"

fun should_panic :: "string \<Rightarrow> pg_error test_failure + unit \<Rightarrow> bool" where
  "should_panic expected (Inl (Raised e)) =
     (case raised_message e of Some msg \<Rightarrow> contains msg expected | None \<Rightarrow> False)"
| "should_panic expected _ = False"

definition test_delete_queue_cascades :: "pg \<Rightarrow> int \<Rightarrow> uuid \<Rightarrow> db \<Rightarrow> pg_error test_failure + unit" where
  "test_delete_queue_cascades P now new_id d =
     (case create_queue now ''temp'' no_options d of (_, d1) \<Rightarrow>
      rbind (unwrap_ok (send P now new_id ''temp'' (Some (JObj [])) (Some no_options) d1)) (\<lambda>(_, d2).
      case delete_queue ''temp'' d2 of (_, d3) \<Rightarrow>
      assert_true (sql_count (\<lambda>j. j_name j = ''temp'') (jobs d3) = 0) ''jobs''))"

section \<open>They pass\<close>

lemma first_row_simps [simp]: "first_row f [] = None" "first_row f (r # rows) = Some (f r)"
  by (simp_all add: first_row_def)

text \<open>The calls on a database with one queue and the jobs \<open>js\<close>.\<close>

definition one_queue :: "queue \<Rightarrow> job list \<Rightarrow> (string \<times> string) list \<Rightarrow> db" where
  "one_queue q js ns = \<lparr>queues = [q], jobs = js, notifies = ns\<rparr>"

definition new_queue :: "int \<Rightarrow> string \<Rightarrow> int \<Rightarrow> queue" where
  "new_queue now n limit =
     \<lparr>q_name = n, q_retry_limit = limit, q_retry_delay = 0, q_expire_seconds = 900,
      q_retention_seconds = 60 * 60 * 24 * 14, q_created_on = now\<rparr>"

definition new_job :: "int \<Rightarrow> uuid \<Rightarrow> string \<Rightarrow> int \<Rightarrow> json \<Rightarrow> int \<Rightarrow> job" where
  "new_job now i n priority data limit =
     \<lparr>j_id = i, j_name = n, j_priority = priority, j_data = Some data, j_state = Created,
      j_retry_limit = limit, j_retry_count = 0, j_retry_delay = 0, j_expire_seconds = 900,
      j_start_after = now, j_created_on = now, j_started_on = None, j_completed_on = None,
      j_keep_until = now + seconds (60 * 60 * 24 * 14), j_output = None\<rparr>"

lemma create_one:
  "create_queue now n no_options empty_db = (True, one_queue (new_queue now n 2) [] [])"
  "create_queue now n (JObj [(''retryDelay'', JNum 0 0), (''retryLimit'', JNum 1 0)]) empty_db =
     (True, one_queue (new_queue now n 1) [] [])"
  by (simp_all add: create_queue_def insert_queue_def opt_i32_def no_options_def empty_db_def one_queue_def new_queue_def
      Let_def as_i32_def in_i64_def)

lemma send_one:
  assumes "i \<notin> j_id ` set js" "utf8_len (channel P n) \<in> {1..63}" "int4_or (arrow_text (Some opts) ''priority'') 0 = Inr p"
    and "opts = no_options \<or> opts = JObj [(''priority'', x)]"
  shows "send P now i n (Some data) (Some opts) (one_queue (new_queue now n limit) js ns) =
    Inr (i, one_queue (new_queue now n limit) (js @ [new_job now i n p data limit]) (ns @ [(channel P n, uuid_out i)]))"
proof -
  have none: "Option.bind (json_get opts k) json_text = None" if "k \<noteq> ''priority''" for k
    using assms(4) that by (auto simp: no_options_def)
  show ?thesis
    using assms(1-3)
    by (simp add: send_def none start_after_of_def int4_or_def insert_job_def pg_notify_def one_queue_def new_queue_def
        new_job_def image_iff)
qed

lemma fetch_one_job:
  "fetch [] now n (Some 1) (one_queue q [j] ns) =
     (if fetchable now n j then Inr ([claim now j], one_queue q [claim now j] ns) else Inr ([], one_queue q [j] ns))"
  by (simp add: fetch_def fetch_next_def Let_def one_queue_def sql_update_def)

lemma test_channels:
  "utf8_len (channel P ''welcome'') \<in> {1..63}" "utf8_len (channel P ''flaky'') \<in> {1..63}"
  "utf8_len (channel P ''p'') \<in> {1..63}" "utf8_len (channel P ''temp'') \<in> {1..63}"
  by (simp_all add: channel_def utf8_len_def Let_def)

lemma no_priority: "int4_or (arrow_text (Some no_options) ''priority'') 0 = Inr 0"
  by (simp add: int4_or_def arrow_text_def no_options_def)

lemma test_send: "test_send_fetch_complete P now i empty_db = Inr ()"
proof -
  let ?d = "JObj [(''to'', JStr ''a@b.c'')]" and ?q = "new_queue now ''welcome'' 2"
  let ?j = "new_job now i ''welcome'' 0 ?d 2"
  have send: "send P now i ''welcome'' (Some ?d) (Some no_options) (one_queue ?q [] []) =
      Inr (i, one_queue ?q [?j] [(channel P ''welcome'', uuid_out i)])"
    using send_one [of i "[]" P "''welcome''" no_options 0] test_channels no_priority by simp
  have "fetchable now ''welcome'' ?j" "\<not> fetchable now ''welcome'' (claim now ?j)"
    by (simp_all add: fetchable_def new_job_def claim_def)
  then show ?thesis
    by (simp add: test_send_fetch_complete_def create_one send fetch_one_job)
      (simp add: complete_def is_active_def one_queue_def sql_count_def sql_update_def claim_def new_job_def Let_def)
qed

lemma test_fail: "test_fail_retries_then_fails P now i empty_db = Inr ()"
proof -
  let ?q = "new_queue now ''flaky'' 1" and ?n = "(channel P ''flaky'', uuid_out i)"
  let ?j = "new_job now i ''flaky'' 0 (JObj []) 1" and ?err = "Some (JObj [(''err'', JStr ''boom'')])"
  let ?k = "(claim now ?j)\<lparr>j_state := Retry, j_retry_count := 1, j_started_on := None, j_output := ?err\<rparr>"
  have send: "send P now i ''flaky'' (Some (JObj [])) (Some no_options) (one_queue ?q [] []) = Inr (i, one_queue ?q [?j] [?n])"
    using send_one [of i "[]" P "''flaky''" no_options 0] test_channels no_priority by simp
  have fetchable: "fetchable now ''flaky'' ?j" "fetchable now ''flaky'' ?k"
    by (simp_all add: fetchable_def new_job_def claim_def)
  have fail1: "fail P now ''flaky'' i ?err (one_queue ?q [claim now ?j] [?n]) = Inr (True, one_queue ?q [?k] [?n, ?n])"
    using test_channels(2) [of P]
    by (simp add: fail_def is_active_def one_queue_def sql_update_res_def retry_row_def int4_add_def in_int4_def pg_notify_def
        claim_def new_job_def seconds_def)
  have fail2: "fail P now ''flaky'' i (Some (JObj [])) (one_queue ?q [claim now ?k] [?n, ?n]) =
      Inr (True, one_queue ?q [fail_row now (Some (JObj [])) (claim now ?k)] [?n, ?n])"
    by (simp add: fail_def is_active_def one_queue_def sql_update_def claim_def new_job_def)
  have id: "j_id (claim now j) = j_id j" "j_id ?j = i" "j_id ?k = i" for j by (simp_all add: claim_def new_job_def)
  have state: "state_of_id i (one_queue ?q [?k] [?n, ?n]) = Some ''retry''"
    "state_of_id i (one_queue ?q [fail_row now (Some (JObj [])) (claim now ?k)] [?n, ?n]) = Some ''failed''"
    by (simp_all add: state_of_id_def one_queue_def fail_row_def claim_def new_job_def)
  show ?thesis
    by (simp add: test_fail_retries_then_fails_def create_one send fetch_one_job fetchable id fail1 fail2 state)
qed

lemma test_priority:
  assumes "i \<noteq> k"
  shows "test_priority_ordering P now i k empty_db = Inr ()"
proof -
  let ?q = "new_queue now ''p'' 2" and ?n = "\<lambda>i. (channel P ''p'', uuid_out i)"
  let ?a = "new_job now i ''p'' 1 (JObj []) 2" and ?b = "new_job now k ''p'' 10 (JObj []) 2"
  have pr: "int4_or (arrow_text (Some (JObj [(''priority'', JNum 1 0)])) ''priority'') 0 = Inr 1"
    "int4_or (arrow_text (Some (JObj [(''priority'', JNum 10 0)])) ''priority'') 0 = Inr 10"
    by (simp_all add: int4_or_def int4_in_show_int in_int4_def)
  have send: "send P now i ''p'' (Some (JObj [])) (Some (JObj [(''priority'', JNum 1 0)])) (one_queue ?q [] []) =
      Inr (i, one_queue ?q [?a] [?n i])"
    "send P now k ''p'' (Some (JObj [])) (Some (JObj [(''priority'', JNum 10 0)])) (one_queue ?q [?a] [?n i]) =
      Inr (k, one_queue ?q [?a, ?b] [?n i, ?n k])"
    using send_one [OF _ test_channels(3) pr(1) disjI2 [OF refl], of i "[]"]
      send_one [OF _ test_channels(3) pr(2) disjI2 [OF refl], of k "[?a]"] assms
    by (simp_all add: new_job_def)
  have fetch: "fetch [] now ''p'' (Some 1) (one_queue ?q [?a, ?b] ns) = Inr ([claim now ?b], one_queue ?q [?a, claim now ?b] ns)" for ns
    using assms
    by (simp add: fetch_def fetch_next_def Let_def one_queue_def sql_update_def fetchable_def new_job_def fetch_key_def
        less_eq_fetch_key_def claim_def)
  show ?thesis
    by (simp add: test_priority_ordering_def create_one send fetch) (simp add: claim_def new_job_def)
qed

lemma test_missing: "test_send_to_missing_queue_errors P now i empty_db = Inl (Raised (UndefinedObject ''nope''))"
  by (simp add: test_send_to_missing_queue_errors_def send_def empty_db_def)

lemma test_missing_panics: "should_panic ''does not exist'' (test_send_to_missing_queue_errors P now i empty_db)"
  unfolding test_missing by (simp add: contains_def)

lemma test_delete: "test_delete_queue_cascades P now i empty_db = Inr ()"
proof -
  have "send P now i ''temp'' (Some (JObj [])) (Some no_options) (one_queue (new_queue now ''temp'' 2) [] []) =
      Inr (i, one_queue (new_queue now ''temp'' 2) [new_job now i ''temp'' 0 (JObj []) 2] [(channel P ''temp'', uuid_out i)])"
    using send_one [of i "[]" P "''temp''" no_options 0] test_channels no_priority by simp
  then show ?thesis
    by (simp add: test_delete_queue_cascades_def create_one)
      (simp add: delete_queue_def sql_delete_def sql_count_def one_queue_def new_job_def)
qed

end
