(* ===== verification/Parser_Tests.thy ===== *)
theory Parser_Tests
  imports Scenario_Print Rust_Test
begin

text \<open>
  The unit tests of the parser, \<open>mod tests\<close> of src/dsltest/src/parser.rs, one definition for each
  \<open>#[test]\<close>, over the same source texts, and the proof that they pass with every \<open>winnow\<close>
  that keeps its documentation.
\<close>

section \<open>The tests\<close>

text \<open>The source of a test: the lines between the \<open>\n\<close>s of its literal.\<close>

definition unlines :: "string list \<Rightarrow> string" where
  "unlines ls = concat (map (\<lambda>l. l @ [CHR 0x0A]) ls)"

definition quote_mark :: string where
  "quote_mark = [CHR 0x22]"

definition unwrap_err :: "failure + 'a \<Rightarrow> failure test_failure + dsl_error" where
  "unwrap_err r = (case r of Inl (Err e) \<Rightarrow> Inr e | Inl Panicked \<Rightarrow> Inl (Raised Panicked) | Inr _ \<Rightarrow> Inl Unwrap_Err)"

definition parses_basic_scenario :: "lib \<Rightarrow> serde \<Rightarrow> failure test_failure + unit" where
  "parses_basic_scenario W J =
     rbind (unwrap_ok (parse_scenario W J (unlines
       [''scenario demo:'',
        ''    create queue orders retryLimit=3'',
        ''    #2 push orders message '' @ quote_mark @ ''hi'' @ quote_mark @ '' priority=5'',
        ''    consume orders -> m1'',
        ''    ack m1'',
        ''    assert queue orders empty'']))) (\<lambda>sc.
     rbind (assert_true (sc_name sc = ''demo'') ''name'') (\<lambda>_.
     rbind (assert_true (length (sc_statements sc) = 5) ''len'') (\<lambda>_.
     rbind (index_at (sc_statements sc) 1) (\<lambda>st.
     assert_true (st_client st = 2) ''client''))))"

definition rejects_unknown_option :: "lib \<Rightarrow> serde \<Rightarrow> failure test_failure + unit" where
  "rejects_unknown_option W J =
     rbind (unwrap_err (parse_scenario W J (unlines
       [''scenario demo:'',
        ''    create queue orders capacity=100'']))) (\<lambda>err.
     rbind (assert_true (e_line err = 2) ''line'') (\<lambda>_.
     assert_true (contains (e_msg err) ''capacity'') (''msg was: '' @ e_msg err)))"

definition parses_check_data_and_gone :: "lib \<Rightarrow> serde \<Rightarrow> failure test_failure + unit" where
  "parses_check_data_and_gone W J =
     rbind (unwrap_ok (parse_scenario W J (unlines
       [''scenario demo:'',
        ''    consume q -> m1'',
        ''    check m1 data '' @ quote_mark @ ''high'' @ quote_mark,
        ''    check m1 gone'']))) (\<lambda>sc.
     rbind (index_at (sc_statements sc) 1) (\<lambda>st.
     rbind (case st_command st of
         CheckData var expected \<Rightarrow>
           rbind (assert_true (var = ''m1'') ''var'') (\<lambda>_.
           assert_true (expected = JStr ''high'') ''expected'')
       | other \<Rightarrow> Inl (Assertion ''expected CheckData'')) (\<lambda>_.
     rbind (index_at (sc_statements sc) 2) (\<lambda>st.
     assert_true (case st_command st of CheckGone var \<Rightarrow> True | other \<Rightarrow> False) ''gone''))))"

definition hash_then_space_is_comment :: "lib \<Rightarrow> serde \<Rightarrow> failure test_failure + unit" where
  "hash_then_space_is_comment W J =
     rbind (unwrap_ok (parse_scenario W J (unlines
       [''scenario demo:'',
        ''# a comment'',
        ''    maintain'']))) (\<lambda>sc.
     assert_true (length (sc_statements sc) = 1) ''len'')"

section \<open>Lines\<close>

lemma unlines_simps [simp]: "unlines [] = []" "unlines (l # ls) = l @ CHR 0x0A # unlines ls"
  by (simp_all add: unlines_def)

lemma lines_of_unlines:
  "list_all (\<lambda>l. one_line l \<and> ends_ok l) ls \<Longrightarrow> lines_of (unlines ls) = ls"
  by (induction ls) (simp_all add: lines_of.simps [of "[]"] lines_of_newline strip_cr_id)

lemma unwrap_err_simps [simp]:
  "unwrap_err (Inl (Err e)) = Inr e" "unwrap_err (Inl Panicked) = Inl (Raised Panicked)"
  "unwrap_err (Inr a) = Inl Unwrap_Err"
  by (simp_all add: unwrap_err_def)

text \<open>The statements of source lines, each with its client and command, numbered from \<open>i\<close>.\<close>

fun statements_from :: "nat \<Rightarrow> (string \<times> nat \<times> command) list \<Rightarrow> statement list" where
  "statements_from i [] = []"
| "statements_from i ((raw, client, cmd) # xs) =
     \<lparr>st_line = i, st_client = client, st_command = cmd\<rparr> # statements_from (Suc i) xs"

definition reads_as :: "lib \<Rightarrow> serde \<Rightarrow> string \<times> nat \<times> command \<Rightarrow> bool" where
  "reads_as W J = (\<lambda>(raw, st). one_line raw \<and> ends_ok raw \<and> \<not> is_comment (trim raw) \<and> trim raw \<noteq> [] \<and>
     (\<forall>i. parse_line W J i (trim raw) = Inr st))"

lemma scan_reads:
  "list_all (reads_as W J) xs \<Longrightarrow>
   scan_lines W J i (Some n) acc (map fst xs @ raws) =
     scan_lines W J (i + length xs) (Some n) (acc @ statements_from (Suc i) xs) raws"
  by (induction xs arbitrary: i acc) (auto simp: reads_as_def Let_def)

context grammar
begin

lemma scan_header:
  "scan_lines W J 0 None [] (''scenario demo:'' # raws) = scan_lines W J (Suc 0) (Some ''demo'') [] raws"
proof -
  have "ident_ok ''demo''" by (simp add: ident_ok_def ident_char_def is_alphanumeric_def Let_def char_code_def)
  moreover have "trim ''scenario demo:'' = ''scenario demo:''"
    by (simp add: trim_def is_whitespace_def char_code_def)
  ultimately show ?thesis using printed_header [of "''demo''" "Suc 0"] by (simp add: Let_def)
qed

text \<open>A printed command without its client prefix belongs to the first client.\<close>

lemma plain_command:
  assumes "command_ok cmd" "printable J P cmd"
  shows "parse_line W J n (show_command P cmd) = Inr (1, cmd)"
proof -
  have "\<not> prefix ''#'' (show_command P cmd)" by (cases cmd) simp_all
  then show ?thesis
    using parse_line_cases(1) [OF _ printed_command [OF assms]] by (simp add: trim_def)
qed

text \<open>A message in a \<open>push\<close>, followed by options.\<close>

lemma message_item:
  assumes "list_all (\<lambda>c. c \<noteq> CHR 0x22) m"
  shows "outcome (push_item_p W J ('' message '' @ quote_mark @ m @ quote_mark @ rest)) =
    Match (VItem (Item_Value (JStr m))) rest"
proof -
  have "span1 0 (\<lambda>c. c \<noteq> CHR 0x22) (m @ CHR 0x22 # rest) = Match m (CHR 0x22 # rest)"
    using assms by (intro span1_append) simp_all
  then show ?thesis
    by (simp add: push_item_p_def message_clause_p_def quoted_p_def quote_mark_def alt literal blank_stops
        is_blank_def take_while)
qed

lemma push_message:
  assumes "ident_ok q" "list_all (\<lambda>c. c \<noteq> CHR 0x22) m" "send_options_ok opts"
  shows "outcome (push_cmd_p W J (''push '' @ q @ '' message '' @ quote_mark @ m @ quote_mark @ show_opts (send_pairs opts))) =
    Match (Push q (JStr m) opts) []"
proof -
  let ?o = "show_opts (send_pairs opts)" and ?vs = "map (\<lambda>(k, v). VItem (Item_Opt k v)) (send_pairs opts)"
  have o: "outcome (repeat W 0 (push_item_p W J) ?o) = Match ?vs []"
    using send_opts_then [OF pairs_ok(2) [OF assms(3)], of "[]" J "[]" "[]"] by (simp add: repeat_none)
  have m: "outcome (push_item_p W J ('' message '' @ quote_mark @ m @ quote_mark @ ?o)) =
      Match (VItem (Item_Value (JStr m))) ?o"
    by (rule message_item [OF assms(2)])
  have r: "outcome (repeat W 0 (push_item_p W J) ('' message '' @ quote_mark @ m @ quote_mark @ ?o)) =
      Match (VItem (Item_Value (JStr m)) # ?vs) []"
    by (subst repeat) (use m o in auto)
  have i: "map the_item ?vs = map (\<lambda>(k, v). Item_Opt k v) (send_pairs opts)" by auto
  have p: "push_items (map (\<lambda>(k, v). Item_Opt k v) (send_pairs opts)) (Some d, send_options_default) = Some (Some d, opts)" for d
    by (cases opts)
      (simp add: send_pairs_def pair_of_def send_options_set_def send_options_default_def split: option.split)
  show ?thesis
    using assms(1) ident_stops_blank [OF assms(1)] r i p
    by (simp add: push_cmd_p_def outcome_alt_lit literal blank_stops ident_append del: map_map)
qed

lemma client_line:
  assumes "n < 2 ^ 32" "stops is_blank s" "outcome (command_p W J s) = Match cmd []"
  shows "parse_line W J line (''#'' @ show_nat n @ '' '' @ s) = Inr (n, cmd)"
proof -
  have "outcome (client_prefix_p W (''#'' @ show_nat n @ '' '' @ s)) = Match n s"
    using assms(1,2) digits_append [of "CHR '' '' # s" n] parse_uint_show [of n 32]
    by (simp add: client_prefix_p_def opt try_map literal blank_stops)
  then have "statement_p W J (''#'' @ show_nat n @ '' '' @ s) = Inr ((n, cmd), [])"
    using assms(3) by (simp add: statement_p_def flip: outcome_Match_iff)
  then show ?thesis by (simp add: parse_line_def trim_def)
qed

section \<open>They pass\<close>

lemma small_numbers: "show_nat 2 = ''2''" "show_int 3 = ''3''" "show_int 5 = ''5''"
  by (simp_all add: show_int_def show_nat.simps digit_char_def)

lemma test_idents: "ident_ok ''orders''" "ident_ok ''m1''" "ident_ok ''q''"
  by (simp_all add: ident_ok_def ident_char_def is_alphanumeric_def Let_def char_code_def)

lemmas line_text = trim_def is_whitespace_def char_code_def quote_mark_def one_line_def ends_ok_def

lemma basic_lines:
  "parse_line W J n ''create queue orders retryLimit=3'' =
     Inr (1, CreateQueue ''orders'' (queue_options_default\<lparr>qo_retry_limit := Some 3\<rparr>))"
  "parse_line W J n (''#2 push orders message '' @ quote_mark @ ''hi'' @ quote_mark @ '' priority=5'') =
     Inr (2, Push ''orders'' (JStr ''hi'') (send_options_default\<lparr>so_priority := Some 5\<rparr>))"
  "parse_line W J n ''consume orders -> m1'' = Inr (1, Consume ''orders'' ''m1'' None)"
  "parse_line W J n ''ack m1'' = Inr (1, Ack ''m1'' None)"
  "parse_line W J n ''assert queue orders empty'' = Inr (1, AssertQueueEmpty ''orders'')"
  "parse_line W J n ''check m1 gone'' = Inr (1, CheckGone ''m1'')"
  "parse_line W J n ''consume q -> m1'' = Inr (1, Consume ''q'' ''m1'' None)"
  "parse_line W J n ''maintain'' = Inr (1, Maintain)"
proof -
  show "parse_line W J n ''create queue orders retryLimit=3'' =
     Inr (1, CreateQueue ''orders'' (queue_options_default\<lparr>qo_retry_limit := Some 3\<rparr>))"
    using plain_command [of "CreateQueue ''orders'' (queue_options_default\<lparr>qo_retry_limit := Some 3\<rparr>)" J _ n] test_idents
    by (simp add: queue_options_ok_def queue_options_default_def in_i64_def queue_pairs_def pair_of_def small_numbers)
  have "send_options_ok (send_options_default\<lparr>so_priority := Some 5\<rparr>)"
    by (simp add: send_options_ok_def send_options_default_def in_i64_def)
  from push_message [OF test_idents(1) _ this, of "''hi''" J]
  have "outcome (push_cmd_p W J (''push orders message '' @ quote_mark @ ''hi'' @ quote_mark @ '' priority=5'')) =
      Match (Push ''orders'' (JStr ''hi'') (send_options_default\<lparr>so_priority := Some 5\<rparr>)) []"
    by (simp add: send_pairs_def send_options_default_def pair_of_def small_numbers)
  then have "outcome (command_p W J (''push orders message '' @ quote_mark @ ''hi'' @ quote_mark @ '' priority=5'')) =
      Match (Push ''orders'' (JStr ''hi'') (send_options_default\<lparr>so_priority := Some 5\<rparr>)) []"
    using command_keyword(4) [of J "'' orders message '' @ quote_mark @ ''hi'' @ quote_mark @ '' priority=5''"] by simp
  from client_line [OF _ _ this, of 2 n]
  show "parse_line W J n (''#2 push orders message '' @ quote_mark @ ''hi'' @ quote_mark @ '' priority=5'') =
      Inr (2, Push ''orders'' (JStr ''hi'') (send_options_default\<lparr>so_priority := Some 5\<rparr>))"
    by (simp add: small_numbers is_blank_def)
qed (use test_idents
      plain_command [of "Consume ''orders'' ''m1'' None" J _ n] plain_command [of "Ack ''m1'' None" J _ n]
      plain_command [of "AssertQueueEmpty ''orders''" J _ n] plain_command [of "CheckGone ''m1''" J _ n]
      plain_command [of "Consume ''q'' ''m1'' None" J _ n] plain_command [of Maintain J _ n]
      in \<open>simp_all add: show_within_def show_output_def duration_ok_def millis_ok_def\<close>)

lemma capacity_line:
  "parse_line W J n ''create queue orders capacity=100'' =
     Inl (Err (err_parse n (''unexpected trailing input: '' @ rust_debug ''capacity=100'')))"
  using create_rejected [OF test_idents(1), of "[]" "''capacity=100''" J n]
  by (simp add: queue_keys_def line_text is_blank_def)

lemma check_data_line:
  assumes "J (quote_mark @ ''high'' @ quote_mark) = Some (JStr ''high'')"
  shows "parse_line W J n (''check m1 data '' @ quote_mark @ ''high'' @ quote_mark) =
    Inr (1, CheckData ''m1'' (JStr ''high''))"
  using plain_command [of "CheckData ''m1'' (JStr ''high'')" J "\<lambda>_. quote_mark @ ''high'' @ quote_mark" n]
    assms test_idents
  by (simp add: json_ok_def line_text)

text \<open>The source of a test is a header, a comment perhaps, and statements.\<close>

lemma parse_test:
  assumes "list_all (reads_as W J) xs"
  shows "parse_scenario W J (unlines (''scenario demo:'' # map fst xs)) =
      Inr \<lparr>sc_name = ''demo'', sc_statements = statements_from 2 xs\<rparr>"
    and "parse_scenario W J (unlines (''scenario demo:'' # ''# a comment'' # map fst xs)) =
      Inr \<lparr>sc_name = ''demo'', sc_statements = statements_from 3 xs\<rparr>"
proof -
  let ?h = "''scenario demo:''" and ?c = "''# a comment''"
  have hc: "one_line ?h \<and> ends_ok ?h" "one_line ?c \<and> ends_ok ?c" "is_comment (trim ?c)"
    by (simp_all add: line_text is_digit_def)
  have "list_all (\<lambda>l. one_line l \<and> ends_ok l) (map fst xs)"
    using assms by (auto simp: list_all_iff reads_as_def)
  then have lines: "lines_of (unlines (?h # map fst xs)) = ?h # map fst xs"
    "lines_of (unlines (?h # ?c # map fst xs)) = ?h # ?c # map fst xs"
    using hc by (intro lines_of_unlines; simp)+
  have "scan_lines W J i (Some ''demo'') [] (map fst xs) = Inr (Some ''demo'', statements_from (Suc i) xs)" for i
    using scan_reads [OF assms, of i "''demo''" "[]" "[]"] by simp
  then show "parse_scenario W J (unlines (?h # map fst xs)) =
      Inr \<lparr>sc_name = ''demo'', sc_statements = statements_from 2 xs\<rparr>"
    "parse_scenario W J (unlines (?h # ?c # map fst xs)) =
      Inr \<lparr>sc_name = ''demo'', sc_statements = statements_from 3 xs\<rparr>"
    using hc(3) unfolding parse_scenario_def lines scan_header
    by (simp_all add: numeral_2_eq_2 numeral_3_eq_3 Let_def)
qed

lemma basic_scenario_passes: "parses_basic_scenario W J = Inr ()"
proof -
  have "list_all (reads_as W J)
      [(''    create queue orders retryLimit=3'', 1, CreateQueue ''orders'' (queue_options_default\<lparr>qo_retry_limit := Some 3\<rparr>)),
       (''    #2 push orders message '' @ quote_mark @ ''hi'' @ quote_mark @ '' priority=5'', 2,
        Push ''orders'' (JStr ''hi'') (send_options_default\<lparr>so_priority := Some 5\<rparr>)),
       (''    consume orders -> m1'', 1, Consume ''orders'' ''m1'' None),
       (''    ack m1'', 1, Ack ''m1'' None),
       (''    assert queue orders empty'', 1, AssertQueueEmpty ''orders'')]"
    using basic_lines by (simp add: reads_as_def line_text is_digit_def)
  from parse_test(1) [OF this] show ?thesis by (simp add: parses_basic_scenario_def)
qed

lemma check_data_passes:
  assumes "J (quote_mark @ ''high'' @ quote_mark) = Some (JStr ''high'')"
  shows "parses_check_data_and_gone W J = Inr ()"
proof -
  have "list_all (reads_as W J)
      [(''    consume q -> m1'', 1, Consume ''q'' ''m1'' None),
       (''    check m1 data '' @ quote_mark @ ''high'' @ quote_mark, 1, CheckData ''m1'' (JStr ''high'')),
       (''    check m1 gone'', 1, CheckGone ''m1'')]"
    using basic_lines check_data_line [where J = J, OF assms] by (simp add: reads_as_def line_text)
  from parse_test(1) [OF this] show ?thesis by (simp add: parses_check_data_and_gone_def)
qed

lemma comment_passes: "hash_then_space_is_comment W J = Inr ()"
proof -
  have "list_all (reads_as W J) [(''    maintain'', 1, Maintain)]"
    using basic_lines by (simp add: reads_as_def line_text)
  from parse_test(2) [OF this] show ?thesis by (simp add: hash_then_space_is_comment_def)
qed

lemma unknown_option_passes: "rejects_unknown_option W J = Inr ()"
proof -
  let ?ls = "[''scenario demo:'', ''    create queue orders capacity=100'']"
  have lines: "lines_of (unlines ?ls) = ?ls"
    by (rule lines_of_unlines) (simp add: line_text)
  have trim: "trim ''create queue orders capacity=100'' = ''create queue orders capacity=100''"
    by (simp add: line_text)
  have "parse_scenario W J (unlines ?ls) =
      Inl (Err (err_parse 2 (''unexpected trailing input: '' @ rust_debug ''capacity=100'')))"
    unfolding parse_scenario_def lines scan_header by (simp add: trim capacity_line Let_def numeral_2_eq_2)
  moreover have "contains (''unexpected trailing input: '' @ rust_debug ''capacity=100'') ''capacity''"
    by (simp add: contains_def rust_debug_def debug_char_def char_code_def)
  ultimately show ?thesis by (simp add: rejects_unknown_option_def)
qed

end

end
