(* ===== verification/Test_Props.thy ===== *)
theory Test_Props
  imports Pg_Tests Parser_Tests Dsl_Props
begin

text \<open>
  The unit tests of the two crates pass: \<open>mod tests\<close> of src/src/lib.rs on an empty database, and
  \<open>mod tests\<close> of src/dsltest/src/parser.rs.
\<close>

text \<open>
  C16: the tests of the extension. On the database the extension was just installed in, with every PostgreSQL,
  clock and choice of distinct new ids, the four tests without \<open>should_panic\<close> pass, and the fifth panics
  at the \<open>unwrap\<close> of the error of \<open>boss.send\<close>, with a message that contains the expected text.
\<close>

theorem pg_tests_pass:
  assumes "i \<noteq> k"
  shows "test_send_fetch_complete P now i empty_db = Inr () \<and>
    test_fail_retries_then_fails P now i empty_db = Inr () \<and>
    test_priority_ordering P now i k empty_db = Inr () \<and>
    test_send_to_missing_queue_errors P now i empty_db = Inl (Raised (UndefinedObject ''nope'')) \<and>
    should_panic ''does not exist'' (test_send_to_missing_queue_errors P now i empty_db) \<and>
    test_delete_queue_cascades P now i empty_db = Inr ()"
  using test_send test_fail test_priority [OF assms] test_missing test_missing_panics test_delete by blast

theorem pg_tests_pass_witness:
  "test_fail_retries_then_fails pg0 5 7 empty_db = Inr () \<and> test_priority_ordering pg0 5 7 8 empty_db = Inr ()"
  using pg_tests_pass [of 7 8 pg0 5] by simp

text \<open>
  C17: the tests of the parser. With every \<open>winnow\<close> that behaves as documented, and a \<open>serde_json\<close>
  that reads the text \<open>"high"\<close> as that string, the four tests of the parser pass.
\<close>

theorem parser_tests_pass:
  assumes "winnow_lib W" "J (quote_mark @ ''high'' @ quote_mark) = Some (JStr ''high'')"
  shows "parses_basic_scenario W J = Inr () \<and> rejects_unknown_option W J = Inr () \<and>
    parses_check_data_and_gone W J = Inr () \<and> hash_then_space_is_comment W J = Inr ()"
  using grammar.basic_scenario_passes [OF grammar_lib [OF assms(1)]]
    grammar.unknown_option_passes [OF grammar_lib [OF assms(1)]]
    grammar.check_data_passes [where J = J, OF grammar_lib [OF assms(1)] assms(2)]
    grammar.comment_passes [OF grammar_lib [OF assms(1)]]
  by simp

theorem parser_tests_pass_witness:
  "parses_check_data_and_gone winnow_ref (reads_only (quote_mark @ ''high'' @ quote_mark) (JStr ''high'')) = Inr ()"
  using parser_tests_pass [where J = "reads_only (quote_mark @ ''high'' @ quote_mark) (JStr ''high'')",
      OF ref.winnow_lib_axioms] by (simp add: reads_only_def)

end
