(* ===== verification/Spec2Isabelle.thy ===== *)
theory Spec2Isabelle
  imports Queue_Props Control_Props Session_Props Dsl_Props Runner_Props Test_Props
begin

text \<open>
  taskboss, a job queue inside PostgreSQL, and dsltest, the runner of its scenario tests.

  THE PROGRAM. The extension (src/src/schema.rs, src/src/lib.rs) keeps queues and jobs in two tables.
  \<open>boss.send\<close> adds a job and notifies the channel of its queue; \<open>boss.fetch\<close> claims ready jobs under
  \<open>FOR UPDATE SKIP LOCKED\<close>; \<open>boss.complete\<close> and \<open>boss.fail\<close> end an attempt; \<open>boss.maintain\<close>, called on
  a timer by a background worker, expires attempts that take too long and purges old jobs. The test program
  (src/dsltest/src) parses scenario files and runs them: each client number is a database session,
  a spawned consumer is a thread with a session of its own, and the exit code reports the result.

  THE THEORIES, in the order of their dependencies.
  \<^item> Prelude: results \<open>error + 'a\<close>, machine integers, decimal text, updates of the rows of a table.
  \<^item> Json, Pg_Values: JSON values and jsonb operators; PostgreSQL's uuid, int4 and interval values and errors.
  \<^item> Schema: the tables (record \<open>db\<close>) and the functions of schema.rs, one definition per function
    and per clause of its statements. Rows is the theory of keyed rows and their updates.
  \<^item> Control: create_queue, delete_queue, _PG_init and the worker of lib.rs.
  \<^item> Invariants: \<open>db_inv\<close>, which every operation keeps. Operations: runs of operations as sequences and
    reachable states. Lifecycle: the abstract life of a job and what each operation may do to it.
    Delivery: which (job, attempt) pairs are spent, for exactly-once delivery.
  \<^item> Skip_Locked: \<open>boss.fetch\<close> row by row as a step relation over sessions that interleave. Serial: an
    atomic fetch is a run of one session. History: the serial history of a run of many sessions, in which each commit of a fetch
    is the atomic fetch that its session called.
  \<^item> Progress: fetching in batches, and what the worker makes of a job whose consumer is gone.
  \<^item> Examples, Queue_Props, Control_Props, Session_Props: the properties of the extension.
  \<^item> Dsl_Error, Dsl_Ast, Dsl_Parser, Dsl_Runner, Dsl_Main: error.rs, ast.rs, parser.rs, runner.rs and main.rs,
    function by function; a parser function has the suffix \<open>_p\<close>, an arm of \<open>exec\<close> the prefix \<open>exec_\<close>.
  \<^item> Winnow, Parser_Logic, Grammar_Sound, Grammar_Print, Scenario_Print: the interface of the parser library, a
    logic of parsers (which values are returned, what is consumed), and the printer with its inversion.
  \<^item> Runner_Logic, Runner_Time, Runner_Safety: what every action keeps of a preorder of the world, that every
    action ends on a server whose clock advances, and which errors an action can end with: the error of a failed first connection has no line, that of a statement the line
    of the statement. Exit_Codes: how a scenario file, and a list of them, ends, with its exit code and line of output.
  \<^item> Model_Server: the runner's server on the model of the extension, with LISTEN and NOTIFY between its
    sessions. Quiet_Runs: each statement of a scenario on the one job of a queue while no consumer is spawned;
    Deliveries and Retries: whole scenarios put together from them; Waiting: the waiting consumers;
    Claims: which variables and threads hold which job, under every interleaving.
  \<^item> Dsl_Props, Runner_Props: the properties of the test program, among them a scenario file run from its
    text to the exit code.
  \<^item> Rust_Test, Pg_Tests, Parser_Tests, Test_Props: the unit tests inside lib.rs and parser.rs, test by test, and that
    they pass on the models of the extension and of the parser.

  INTERFACES. \<open>winnow_lib\<close> is what the grammar relies on of winnow, interpreted on an executable
  instance; \<open>parser_logic\<close> and \<open>grammar\<close> rest on it. \<open>state_order\<close> and \<open>world_order\<close> state that actions move up
  a preorder, \<open>sys_order\<close> that the threads and the calls of the runner do (each \<open>world_order\<close> gives one of the whole
  state, and Claims interprets it on what a call leaves of the claims); \<open>timed_server\<close> that the clock does not go back and a wait takes its time; \<open>queue_server\<close> that only
  \<open>create_queue\<close> brings a queue into being and \<open>delete_queue\<close> removes it. The last two are interpreted on the
  model of the extension (\<open>model_time\<close>, \<open>model_queues\<close>).

  WHAT IS SHOWN. Of the extension: every reachable database is well formed; each operation has the effect its
  statement says, errors included; no attempt of a job is handed out twice, neither by a sequence of
  operations nor by sessions that interleave row by row; these sessions are serializable, each fetch taking effect
  at its commit with the parameters of its call, and leaving out only rows it may have seen locked or not ready (under the
  hypothesis \<open>ids_once\<close>, that \<open>gen_random_uuid\<close> does not repeat an id); attempts are bounded by the retry limit; the worker never panics on a well-formed database, whether the extension
  is installed there or not (the call of a \<open>boss.maintain\<close> that does not exist is an error in the model), and stops
  when told to; its runs are those of \<open>boss.maintain\<close>; the job of a consumer that is gone is put back by it and found by a later fetch. Of the test program: the parser reads back
  what is printed, returns well-formed statements only, and panics in one case only; the command terminates under
  every schedule; a run leaves none of its queues behind; on any server, the error of a run is that of its first connection, without a line, or of
  its first failing statement, with the line of that; the exit code is the largest of those of the files, each of which tells how
  the file ended. Of both together: a delivery written as a scenario file passes; a job is
  attempted once more than its retry limit; a delayed job is claimed by a consumer that waits long enough, at
  most one polling round late; consumers that compete never hold the same job; and a push wakes a consumer that waits on the channel.

  PARAMETERS. Code that is not in the repository is an argument of the definitions: \<open>md5\<close>, the cast to
  \<open>timestamptz\<close> and the collation (record \<open>pg\<close>), winnow (record \<open>winnow\<close>), \<open>serde_json::from_str\<close> (type \<open>serde\<close>),
  the postgres client, the clock and the operating system's threads (record \<open>server\<close> and the field
  \<open>schedule\<close>), the file system (record \<open>fs\<close>), the latch of the worker (a list of wake-ups), ids of new jobs,
  and the passage of a JSON parameter to jsonb (\<open>env_jsonb\<close>).

  BOUNDS. There is no fuel. Loops of the program that may wait are \<open>while_option\<close>, with \<open>None\<close> for a loop that
  never ends, and are shown to end; other recursion is structural or has a measure. Text is a list of
  characters of one byte each (Latin 1), whose length in UTF-8 is \<open>utf8_len\<close>. Timestamps are unbounded
  integers of microseconds; the columns and options of 32 and 64 bits are integers with their range
  written out. Arithmetic overflow of Rust is a panic, as in the profile of \<open>cargo run\<close>. Each SQL statement is
  one transaction, as the runner uses it, except in Skip_Locked.

  NOT MODELLED. The Go client (src/client), the configuration of the pgrx test framework (\<open>mod pg_test\<close> of
  lib.rs), the build files and the scenario files. The message of a panic; the text of error messages of the libraries; the time a statement takes
  beyond one microsecond; a notification that arrives in the middle of a wait (a wait is one step of the
  interleaving, which sees the notifications sent before it); failures of the database server while a statement runs, except as errors of the
  abstract \<open>server\<close>: on the model of the extension (\<open>model_server\<close>), on which the properties of whole scenarios are stated, a connection and
  \<open>CREATE EXTENSION\<close> always succeed, while the properties of errors and of the exit code hold on every \<open>server\<close>, failed connections included. jsonb numbers that are no integers of 64 bits are not followed through the client.
\<close>

end
